(* ===== verification/Xvc_Prelude.thy ===== *)
theory Xvc_Prelude
  imports Main "HOL-Library.Word"
begin

text \<open>
  Shared vocabulary of the development: the machine types of the C++ code, the exceptions it
  throws, bounds-checked memory accesses, byte and bit views of buffers, and the number formats of
  \<^verbatim>\<open>printf\<close> that the code uses.  The component theories build on the collections
  \<open>mem_simps\<close> (memory accesses) and \<open>hdr_defs\<close> (protocol constants).
\<close>

unbundle bit_operations_syntax

named_theorems mem_simps \<open>bounds-checked memory accesses that succeed\<close>
named_theorems hdr_defs \<open>constants of the stream protocol\<close>

section \<open>Machine types, exceptions\<close>

type_synonym u8 = "8 word"
type_synonym u32 = "32 word"
type_synonym u64 = "64 word"

text \<open>
  The exception classes of \<^verbatim>\<open>xvcDriver.h\<close> (\<open>RuntimeErr\<close> is a plain
  \<^verbatim>\<open>std::runtime_error\<close>).  \<open>Fault\<close> is not an exception: it marks an execution that leaves
  the defined behaviour of C++ (an access outside a buffer, a shift past the width of the type, a
  conversion of a negative double to an unsigned integer).  \<open>Blocked\<close> marks an execution that
  waits for an input the modelled environment never delivers.
\<close>

datatype xerr =
    SysErr string
  | ProtoErr string
  | TimeoutErr string
  | RuntimeErr string
  | Fault string
  | Blocked

type_synonym 'a res = "xerr + 'a"

definition bindR :: "'a res \<Rightarrow> ('a \<Rightarrow> 'b res) \<Rightarrow> 'b res" where
  "bindR r f = (case r of Inl e \<Rightarrow> Inl e | Inr x \<Rightarrow> f x)"

text \<open>
  Operations on a state that may throw: the state is returned in either case, because an exception
  does not undo what the code has done before it.
\<close>

type_synonym ('s, 'a) sm = "'s \<Rightarrow> 'a res \<times> 's"

definition retS :: "'a \<Rightarrow> ('s, 'a) sm" where
  "retS x s = (Inr x, s)"

definition throwS :: "xerr \<Rightarrow> ('s, 'a) sm" where
  "throwS e s = (Inl e, s)"

definition bindS :: "('s, 'a) sm \<Rightarrow> ('a \<Rightarrow> ('s, 'b) sm) \<Rightarrow> ('s, 'b) sm" where
  "bindS m f s = (case m s of (Inl e, s') \<Rightarrow> (Inl e, s') | (Inr x, s') \<Rightarrow> f x s')"

definition liftR :: "'a res \<Rightarrow> ('s, 'a) sm" where
  "liftR r s = (r, s)"

definition keepsS :: "('s \<Rightarrow> 'v) \<Rightarrow> ('s, 'a) sm \<Rightarrow> bool" where
  "keepsS v m \<longleftrightarrow> (\<forall>s r s'. m s = (r, s') \<longrightarrow> v s' = v s)"

definition presS :: "('s \<Rightarrow> bool) \<Rightarrow> ('s, 'a) sm \<Rightarrow> bool" where
  "presS I m \<longleftrightarrow> (\<forall>s r s'. I s \<longrightarrow> m s = (r, s') \<longrightarrow> I s')"

text \<open>The execution stays within the defined behaviour.\<close>

definition no_fault :: "'a res \<Rightarrow> bool" where
  "no_fault r = (case r of Inl (Fault _) \<Rightarrow> False | _ \<Rightarrow> True)"

text \<open>Conversion of a number to the 32-bit type \<^verbatim>\<open>unsigned\<close> and to the 32-bit type \<^verbatim>\<open>int\<close>.\<close>

definition c_unsigned :: "nat \<Rightarrow> nat" where
  "c_unsigned n = n mod 2 ^ 32"

definition c_int :: "nat \<Rightarrow> int" where
  "c_int n = sint (word_of_nat n :: u32)"

text \<open>
  The execution platform: its byte order (\<^verbatim>\<open>isLE()\<close> in \<^verbatim>\<open>xvcDriver.h\<close>) and the contents of
  memory that has been allocated but not written.
\<close>

record platform =
  isLE :: bool
  raw_mem :: "nat \<Rightarrow> u8"

definition alloc_raw :: "platform \<Rightarrow> nat \<Rightarrow> u8 list" where
  "alloc_raw p n = map (raw_mem p) [0..<n]"

section \<open>Memory accesses\<close>

text \<open>
  A pointer into a buffer is the list of the bytes from it to the end of the buffer.  Reading and
  writing past the end is a \<open>Fault\<close>.
\<close>

definition rd_mem :: "'a list \<Rightarrow> nat \<Rightarrow> nat \<Rightarrow> 'a list res" where
  "rd_mem buf off n =
     (if off + n \<le> length buf then Inr (take n (drop off buf)) else Inl (Fault ''read out of bounds''))"

definition wr_mem :: "'a list \<Rightarrow> nat \<Rightarrow> 'a list \<Rightarrow> 'a list res" where
  "wr_mem buf off src =
     (if off + length src \<le> length buf
      then Inr (take off buf @ src @ drop (off + length src) buf)
      else Inl (Fault ''write out of bounds''))"

section \<open>Byte order\<close>

text \<open>The object representation of a 32-bit integer, little-endian and on a given platform.\<close>

definition le_bytes32 :: "u32 \<Rightarrow> u8 list" where
  "le_bytes32 w = [ucast w, ucast (drop_bit 8 w), ucast (drop_bit 16 w), ucast (drop_bit 24 w)]"

definition le_word32 :: "u8 list \<Rightarrow> u32" where
  "le_word32 bs =
     push_bit 24 (ucast (bs ! 3)) OR push_bit 16 (ucast (bs ! 2)) OR
     push_bit 8 (ucast (bs ! 1)) OR ucast (bs ! 0)"

definition mem_of_u32 :: "bool \<Rightarrow> u32 \<Rightarrow> u8 list" where
  "mem_of_u32 le w = (if le then le_bytes32 w else rev (le_bytes32 w))"

definition u32_of_mem :: "bool \<Rightarrow> u8 list \<Rightarrow> u32" where
  "u32_of_mem le bs = (if le then le_word32 bs else le_word32 (rev bs))"

definition bswap32 :: "u32 \<Rightarrow> u32" where
  "bswap32 w = le_word32 (rev (le_bytes32 w))"

text \<open>The bits of a buffer, in the order in which they appear on the JTAG lines.\<close>

definition bits_of_byte :: "u8 \<Rightarrow> bool list" where
  "bits_of_byte b = map (bit b) [0..<8]"

definition bits_of_bytes :: "u8 list \<Rightarrow> bool list" where
  "bits_of_bytes bs = concat (map bits_of_byte bs)"

text \<open>A device that maps a sequence of inputs to a sequence of outputs, one step per input.\<close>

primrec dev_run :: "('i \<Rightarrow> 's \<Rightarrow> 'o \<times> 's) \<Rightarrow> 'i list \<Rightarrow> 's \<Rightarrow> 'o list \<times> 's" where
  "dev_run step [] s = ([], s)"
| "dev_run step (x # xs) s =
     (case step x s of (y, s1) \<Rightarrow> case dev_run step xs s1 of (ys, s2) \<Rightarrow> (y # ys, s2))"

section \<open>Number formats\<close>

text \<open>\<^verbatim>\<open>%d\<close>/\<^verbatim>\<open>%ld\<close>/\<^verbatim>\<open>%u\<close> of a non-negative number, \<^verbatim>\<open>%llx\<close> and \<^verbatim>\<open>%016llx\<close>.\<close>

definition digit_char :: "nat \<Rightarrow> char" where
  "digit_char d = (if d < 10 then char_of (48 + d) else char_of (87 + d))"

fun num_string :: "nat \<Rightarrow> nat \<Rightarrow> string" where
  "num_string base n =
     (if n < base \<or> base < 2 then [digit_char n]
      else num_string base (n div base) @ [digit_char (n mod base)])"

declare num_string.simps [simp del]

definition dec_string :: "nat \<Rightarrow> string" where
  "dec_string n = num_string 10 n"

definition hex_string :: "nat \<Rightarrow> string" where
  "hex_string n = num_string 16 n"

definition hex16_string :: "nat \<Rightarrow> string" where
  "hex16_string n = (let s = hex_string n in replicate (16 - length s) (CHR ''0'') @ s)"

section \<open>Lemmas\<close>

lemma bindR_simps [simp]:
  "bindR (Inl e) f = Inl e"
  "bindR (Inr x) f = f x"
  by (simp_all add: bindR_def)

lemma bindR_eq_Inr [simp]: "bindR r f = Inr y \<longleftrightarrow> (\<exists>x. r = Inr x \<and> f x = Inr y)"
  by (cases r) auto

lemma sm_simps [simp]:
  "retS x s = (Inr x, s)" "throwS e s = (Inl e, s)" "liftR r s = (r, s)"
  by (simp_all add: retS_def throwS_def liftR_def)

lemma bindS_Inr [simp]: "m s = (Inr x, s') \<Longrightarrow> bindS m f s = f x s'"
  by (simp add: bindS_def)

lemma bindS_Inl [simp]: "m s = (Inl e, s') \<Longrightarrow> bindS m f s = (Inl e, s')"
  by (simp add: bindS_def)

text \<open>
  A view of the state that an operation leaves as it is, whatever its outcome.  The rules follow the
  structure of an operation.
\<close>

lemma presS_D: "presS I m \<Longrightarrow> I s \<Longrightarrow> m s = (r, s') \<Longrightarrow> I s'"
  by (auto simp: presS_def)

lemma presS_I: "(\<And>s r s'. I s \<Longrightarrow> m s = (r, s') \<Longrightarrow> I s') \<Longrightarrow> presS I m"
  by (auto simp: presS_def)

lemma presS_pure [simp, intro]: "presS I (retS x)" "presS I (throwS e)" "presS I (liftR r)" "presS I (\<lambda>s. (r, s))"
  by (simp_all add: presS_def retS_def throwS_def liftR_def)

lemma presS_bind [intro]:
  assumes "presS I m" and "\<And>x. presS I (f x)"
  shows "presS I (bindS m f)"
proof (rule presS_I)
  fix s r s' assume a: "I s" "bindS m f s = (r, s')"
  obtain r1 s1 where m: "m s = (r1, s1)" by (cases "m s")
  with presS_D [OF assms(1) a(1)] have "I s1" by blast
  then show "I s'" using a(2) m presS_D [OF assms(2), of s1] by (cases r1) (auto simp: bindS_def)
qed

lemma presS_lift_bind: "(\<And>x. r = Inr x \<Longrightarrow> presS I (f x)) \<Longrightarrow> presS I (bindS (liftR r) f)"
  by (cases r) (simp_all add: presS_def bindS_def liftR_def)

lemma presS_dep: "(\<And>c. presS I (m c)) \<Longrightarrow> (\<And>s. g s = m (h s) s) \<Longrightarrow> presS I g"
  by (simp add: presS_def)

lemma presS_if [intro]:
  "presS I m \<Longrightarrow> presS I m' \<Longrightarrow> presS I (if b then m else m')"
  "presS I m \<Longrightarrow> presS I m' \<Longrightarrow> presS I (\<lambda>s. if c s then m s else m' s)"
  by (simp, rule presS_I) (simp split: if_splits, (blast dest: presS_D)+)

lemma keepsS_D: "keepsS v m \<Longrightarrow> m s = (r, s') \<Longrightarrow> v s' = v s"
  by (simp add: keepsS_def)

lemma keepsS_I: "(\<And>s r s'. m s = (r, s') \<Longrightarrow> v s' = v s) \<Longrightarrow> keepsS v m"
  by (simp add: keepsS_def)

lemma keepsS_pure [simp, intro]: "keepsS v (retS x)" "keepsS v (throwS e)" "keepsS v (liftR r)"
  by (simp_all add: keepsS_def retS_def throwS_def liftR_def)

lemma keepsS_bind [intro]:
  assumes "keepsS v m" and "\<And>x. keepsS v (f x)"
  shows "keepsS v (bindS m f)"
proof (rule keepsS_I)
  fix s r s'
  assume "bindS m f s = (r, s')"
  then show "v s' = v s"
    using keepsS_D [OF assms(1), of s] keepsS_D [OF assms(2)]
    by (auto simp: bindS_def split: prod.splits sum.splits)
qed

lemma no_fault_simps [simp]:
  "no_fault (Inr x)" "no_fault (Inl (SysErr m))" "no_fault (Inl (ProtoErr m))" "no_fault (Inl (TimeoutErr m))"
  "no_fault (Inl (RuntimeErr m))" "\<not> no_fault (Inl (Fault m))" "no_fault (Inl Blocked)"
  by (simp_all add: no_fault_def)

lemma no_fault_Inl: "no_fault (Inl e) \<longleftrightarrow> (\<forall>m. e \<noteq> Fault m)"
  by (cases e) simp_all

lemma c_unsigned_less [simp]: "n < 2 ^ 32 \<Longrightarrow> c_unsigned n = n"
  by (simp add: c_unsigned_def)

lemma c_unsigned_le: "c_unsigned n \<le> n"
  by (simp add: c_unsigned_def)

lemma length_alloc_raw [simp]: "length (alloc_raw p n) = n"
  by (simp add: alloc_raw_def)

lemma unat_u8_less: "unat (x :: u8) < 256"
  using unsigned_less [of x] by simp

lemma unat_u32_of_nat: "n < 2 ^ 32 \<Longrightarrow> unat (word_of_nat n :: u32) = n"
  by (simp add: unsigned_of_nat take_bit_nat_eq_self)

lemma rd_mem_ok [mem_simps]: "off + n \<le> length buf \<Longrightarrow> rd_mem buf off n = Inr (take n (drop off buf))"
  by (simp add: rd_mem_def)

lemma wr_mem_ok [mem_simps]:
  "off + length src \<le> length buf \<Longrightarrow>
   wr_mem buf off src = Inr (take off buf @ src @ drop (off + length src) buf)"
  by (simp add: wr_mem_def)

lemma wr_mem_fault: "length buf < off + length src \<Longrightarrow> wr_mem buf off src = Inl (Fault ''write out of bounds'')"
  by (simp add: wr_mem_def)

lemma rd_mem_Inr: "rd_mem buf off n = Inr xs \<Longrightarrow> off + n \<le> length buf \<and> xs = take n (drop off buf)"
  by (simp add: rd_mem_def split: if_splits)

lemma wr_mem_length: "wr_mem buf off src = Inr buf' \<Longrightarrow> length buf' = length buf"
  by (auto simp: wr_mem_def split: if_splits)

lemma wr_mem_nth:
  assumes "wr_mem buf off src = Inr buf'" and "k < length buf"
  shows "buf' ! k = (if off \<le> k \<and> k < off + length src then src ! (k - off) else buf ! k)"
proof -
  from assms(1) have "off + length src \<le> length buf" "buf' = take off buf @ src @ drop (off + length src) buf"
    by (simp_all add: wr_mem_def split: if_splits)
  with assms(2) show ?thesis by (auto simp: nth_append)
qed

lemma length_le_bytes32 [simp]: "length (le_bytes32 w) = 4"
  by (simp add: le_bytes32_def)

lemma le_word32_bytes32 [simp]: "le_word32 (le_bytes32 w) = w"
proof (rule bit_word_eqI)
  fix n assume "n < LENGTH(32)"
  then consider "n < 8" | "8 \<le> n" "n < 16" | "16 \<le> n" "n < 24" | "24 \<le> n" "n < 32"
    by fastforce
  then show "bit (le_word32 (le_bytes32 w)) n \<longleftrightarrow> bit w n"
    by cases (auto simp: le_word32_def le_bytes32_def bit_simps)
qed

lemma le_bytes32_word32 [simp]:
  assumes "length bs = 4"
  shows "le_bytes32 (le_word32 bs) = bs"
proof -
  from assms obtain a b c d where bs: "bs = [a, b, c, d]"
    by (auto simp: numeral_eq_Suc length_Suc_conv)
  have byte0: "ucast (le_word32 bs) = a" and byte1: "ucast (drop_bit 8 (le_word32 bs)) = b"
    and byte2: "ucast (drop_bit 16 (le_word32 bs)) = c" and byte3: "ucast (drop_bit 24 (le_word32 bs)) = d"
    by (rule bit_word_eqI; auto simp: bs le_word32_def bit_simps dest: bit_imp_le_length)+
  then show ?thesis by (simp add: le_bytes32_def bs)
qed

lemma u32_mem_roundtrip [simp]: "u32_of_mem le (mem_of_u32 le w) = w"
  by (simp add: u32_of_mem_def mem_of_u32_def)

lemma length_mem_of_u32 [simp]: "length (mem_of_u32 le w) = 4"
  by (simp add: mem_of_u32_def)

lemma length_bits_of_byte [simp]: "length (bits_of_byte b) = 8"
  by (simp add: bits_of_byte_def)

lemma bits_of_bytes_simps [simp]:
  "bits_of_bytes [] = []"
  "bits_of_bytes (b # bs) = bits_of_byte b @ bits_of_bytes bs"
  "bits_of_bytes (bs @ cs) = bits_of_bytes bs @ bits_of_bytes cs"
  by (simp_all add: bits_of_bytes_def)

lemma length_bits_of_bytes [simp]: "length (bits_of_bytes bs) = 8 * length bs"
  by (induction bs) simp_all

lemma bits_of_byte_inj: "bits_of_byte a = bits_of_byte b \<longleftrightarrow> a = b"
proof
  assume "bits_of_byte a = bits_of_byte b"
  then have "bit a i = bit b i" if "i < 8" for i
    using that by (metis (no_types, lifting) bits_of_byte_def add_0 diff_zero length_upt nth_map nth_upt)
  then show "a = b" by (intro bit_word_eqI) simp
qed simp

lemma dev_run_append:
  "dev_run step (xs @ ys) s =
     (case dev_run step xs s of (os, s1) \<Rightarrow> case dev_run step ys s1 of (ps, s2) \<Rightarrow> (os @ ps, s2))"
  by (induction xs arbitrary: s) (auto split: prod.splits)

lemma dev_run_compose:
  "(o1, s1) = dev_run step xs s \<Longrightarrow> (o2, s2) = dev_run step ys s1 \<Longrightarrow> (o1 @ o2, s2) = dev_run step (xs @ ys) s"
  by (cases "dev_run step xs s"; cases "dev_run step ys s1") (simp add: dev_run_append)

lemma length_dev_run: "length (fst (dev_run step xs s)) = length xs"
  by (induction xs arbitrary: s) (auto split: prod.splits, metis fst_conv)

lemma take_bits_of_bytes: "take (8 * n) (bits_of_bytes bs) = bits_of_bytes (take n bs)"
  by (induction n arbitrary: bs) (simp, case_tac bs, simp_all)

lemma drop_bits_of_bytes: "drop (8 * n) (bits_of_bytes bs) = bits_of_bytes (drop n bs)"
  by (induction n arbitrary: bs) (simp, case_tac bs, simp_all)

end
