(* ===== verification/Xvc_Header.thy ===== *)
theory Xvc_Header
  imports Xvc_Prelude Complex_Main
begin

text \<open>
  The 32-bit header word of the AxisToJtag stream protocol: the constants of
  \<^verbatim>\<open>class JtagDriverAxisToJtag\<close> (\<^verbatim>\<open>xvcDriver.h\<close>) and the static encoders and decoders of
  \<^verbatim>\<open>xvcSrv.cc\<close>.  A header word is a \<^typ>\<open>u32\<close>; methods that read the object's word size or
  transaction id take it as an argument.  The two conversions of the TCK period compute in
  \<^verbatim>\<open>double\<close>; they are modelled over the reals.
\<close>

section \<open>Constants\<close>

definition XID_ANY :: u8 where [hdr_defs]: "XID_ANY = 0"

definition PVER0 :: u32 where [hdr_defs]: "PVER0 = 0x00000000"
definition PVERS :: u32 where [hdr_defs]: "PVERS = PVER0"
definition CMD_Q :: u32 where [hdr_defs]: "CMD_Q = 0x00000000"
definition CMD_S :: u32 where [hdr_defs]: "CMD_S = 0x10000000"
definition CMD_E :: u32 where [hdr_defs]: "CMD_E = 0x20000000"

definition VRS_MASK :: u32 where [hdr_defs]: "VRS_MASK = 0xc0000000"
definition CMD_MASK :: u32 where [hdr_defs]: "CMD_MASK = 0x30000000"
definition ERR_SHIFT :: nat where [hdr_defs]: "ERR_SHIFT = 0"
definition ERR_MASK :: u32 where [hdr_defs]: "ERR_MASK = 0x000000ff"

definition XID_SHIFT :: nat where [hdr_defs]: "XID_SHIFT = 20"
definition LEN_SHIFT :: nat where [hdr_defs]: "LEN_SHIFT = 0"
definition LEN_MASK :: u32 where [hdr_defs]: "LEN_MASK = 0x000fffff"

definition ERR_BAD_VERSION :: u32 where [hdr_defs]: "ERR_BAD_VERSION = 1"
definition ERR_BAD_COMMAND :: u32 where [hdr_defs]: "ERR_BAD_COMMAND = 2"
definition ERR_TRUNCATED :: u32 where [hdr_defs]: "ERR_TRUNCATED = 3"
definition ERR_NOT_PRESENT :: u32 where [hdr_defs]: "ERR_NOT_PRESENT = 4"

definition UNKNOWN_PERIOD :: u32 where [hdr_defs]: "UNKNOWN_PERIOD = 0"

definition REF_FREQ_HZ :: real where "REF_FREQ_HZ = 200000000"

section \<open>Decoders and encoders\<close>

text \<open>\<open>newXid\<close> returns the header bits and the new value of the member \<^verbatim>\<open>xid_\<close>.\<close>

definition newXid :: "u8 \<Rightarrow> u32 \<times> u8" where
  "newXid xid =
     (let x1 = xid + 1; x2 = (if XID_ANY = x1 then x1 + 1 else x1)
      in (push_bit XID_SHIFT (ucast x2), x2))"

text \<open>The new value of \<^verbatim>\<open>xid_\<close> alone.\<close>

definition next_xid :: "u8 \<Rightarrow> u8" where
  "next_xid x = snd (newXid x)"

definition getXid :: "u32 \<Rightarrow> u8" where
  "getXid x = ucast (drop_bit 20 x AND 0xff)"

definition getCmd :: "u32 \<Rightarrow> u32" where
  "getCmd x = x AND CMD_MASK"

definition getErr :: "u32 \<Rightarrow> u32" where
  "getErr x = (if getCmd x \<noteq> CMD_E then 0 else drop_bit ERR_SHIFT (x AND ERR_MASK))"

definition getLen :: "u32 \<Rightarrow> nat res" where
  "getLen x =
     (if getCmd x \<noteq> CMD_S then Inl (ProtoErr ''Cannot extract length from non-shift command header'')
      else Inr (unat (drop_bit LEN_SHIFT (x AND LEN_MASK)) + 1))"

definition getVrs :: "u32 \<Rightarrow> u32" where
  "getVrs x = x AND VRS_MASK"

definition getMsg :: "u32 \<Rightarrow> string option" where
  "getMsg e =
     (if e = 0 then Some ''NO ERROR''
      else if e = ERR_BAD_VERSION then Some ''Unsupported Protocol Version''
      else if e = ERR_BAD_COMMAND then Some ''Unsupported Command''
      else if e = ERR_TRUNCATED then Some ''Unsupported Command''
      else if e = ERR_NOT_PRESENT then Some ''XVC Support not Instantiated in Firmware''
      else None)"

definition mkQuery :: u32 where
  "mkQuery = PVERS OR CMD_Q OR ucast XID_ANY"

definition mkShift :: "u32 \<Rightarrow> u8 \<Rightarrow> u32 \<times> u8" where
  "mkShift len xid =
     (let l = len - 1; (xbits, xid') = newXid xid
      in (PVERS OR CMD_S OR xbits OR push_bit LEN_SHIFT l, xid'))"

definition wordSize :: "u32 \<Rightarrow> nat" where
  "wordSize reply = unat (reply AND 0x0000000f) + 1"

definition memDepth :: "u32 \<Rightarrow> nat" where
  "memDepth reply = unat (drop_bit 4 reply AND 0xffff)"

text \<open>\<^verbatim>\<open>round()\<close> of the C library: to the nearest integer, halves away from zero.\<close>

definition c_round :: "real \<Rightarrow> int" where
  "c_round x = (if 0 \<le> x then \<lfloor>x + 1 / 2\<rfloor> else - \<lfloor>- x + 1 / 2\<rfloor>)"

definition cvtPerNs :: "u32 \<Rightarrow> u32" where
  "cvtPerNs reply =
     (let rawVal = drop_bit XID_SHIFT reply AND 0xff
      in if 0 = rawVal then UNKNOWN_PERIOD
         else let tmp = real (unat rawVal) * 4 / 256
              in word_of_int (c_round (10 powr tmp * 1000000000 / REF_FREQ_HZ)))"

definition encPerNs :: "u32 \<Rightarrow> u32 res" where
  "encPerNs perNs =
     (if UNKNOWN_PERIOD = perNs then Inr 0
      else let tmp = real (unat perNs) * REF_FREQ_HZ / 1000000000;
               r = c_round (log 10 tmp * 256 / 4)
           in if r < 0 then Inl (Fault ''negative double converted to uint32_t'')
              else Inr (word_of_int r))"

definition mkQueryReply :: "u32 \<Rightarrow> u32 \<Rightarrow> u32 \<Rightarrow> u32 \<Rightarrow> u32 res" where
  "mkQueryReply protoVers wsz depth periodNs =
     bindR (encPerNs periodNs) (\<lambda>periodEncoded.
       if protoVers \<noteq> PVER0 then Inl (RuntimeErr ''mkQueryReply: unsupported protocol version'')
       else if 16 < wsz then Inl (RuntimeErr ''mkQueryReply: unsupported word size'')
       else if push_bit 16 1 \<le> depth then Inl (RuntimeErr ''mkQueryReply: unsupported memory depth'')
       else if push_bit 8 1 \<le> periodNs then Inl (RuntimeErr ''mkQueryReply: unsupported TCK clock period'')
       else Inr (protoVers OR CMD_Q OR push_bit 20 (periodEncoded AND 0xff)
                 OR push_bit 4 (depth AND 0xffff) OR push_bit 0 ((wsz - 1) AND 0xf)))"

section \<open>Header words in memory\<close>

definition getw32 :: "bool \<Rightarrow> u8 list \<Rightarrow> u32 res" where
  "getw32 le buf =
     bindR (rd_mem buf 0 4) (\<lambda>bs.
       let w = u32_of_mem le bs in Inr (if \<not> le then bswap32 w else w))"

definition getHdr :: "bool \<Rightarrow> u8 list \<Rightarrow> u32 res" where
  "getHdr le buf = getw32 le buf"

definition setw32 :: "bool \<Rightarrow> u8 list \<Rightarrow> u32 \<Rightarrow> nat \<Rightarrow> u8 list res" where
  "setw32 le buf w l =
     (let w' = (if \<not> le then bswap32 w else w)
      in wr_mem buf 0 (take (if 4 \<le> l then 4 else l) (mem_of_u32 le w')))"

text \<open>
  \<^verbatim>\<open>empty = getWordSize() - sizeof(hdr)\<close> is an unsigned difference: for a word size below four it
  wraps around, and the \<^verbatim>\<open>memset\<close> leaves every buffer.
\<close>

definition setHdr :: "bool \<Rightarrow> nat \<Rightarrow> u8 list \<Rightarrow> u32 \<Rightarrow> u8 list res" where
  "setHdr le wsz buf hdr =
     (let empty = c_unsigned (wsz + 2 ^ 32 - 4)
      in bindR (setw32 le buf hdr 4) (\<lambda>b. wr_mem b 4 (replicate empty 0)))"

section \<open>Lemmas\<close>

subsection \<open>The fields as bit ranges\<close>

lemma hdr_bits:
  "CMD_MASK = push_bit 28 (mask 2)" "VRS_MASK = push_bit 30 (mask 2)" "LEN_MASK = mask 20"
  "ERR_MASK = mask 8" "CMD_S = push_bit 28 1" "CMD_E = push_bit 29 1" "(0xff :: u32) = mask 8"
  "(0xffff :: u32) = mask 16" "(0xf :: u32) = mask 4"
  by (simp_all add: hdr_defs mask_eq_exp_minus_1 push_bit_eq_mult)

lemma bit_cmd: "bit CMD_S n \<longleftrightarrow> n = 28" "bit CMD_E n \<longleftrightarrow> n = 29"
  by (simp_all only: hdr_bits bit_push_bit_iff bit_1_iff) auto

lemma bit_masks: "bit CMD_MASK n \<longleftrightarrow> n = 28 \<or> n = 29" "bit LEN_MASK n \<longleftrightarrow> n < 20" "bit ERR_MASK n \<longleftrightarrow> n < 8"
  by (simp_all only: hdr_bits bit_push_bit_iff bit_mask_iff) auto

lemma cmd_distinct [simp]:
  "CMD_S \<noteq> CMD_Q" "CMD_Q \<noteq> CMD_S" "CMD_S \<noteq> CMD_E" "CMD_E \<noteq> CMD_S" "CMD_Q \<noteq> CMD_E" "CMD_E \<noteq> CMD_Q"
  by (simp_all add: hdr_defs)

lemma bit_getXid: "bit (getXid x) n \<longleftrightarrow> n < 8 \<and> bit x (n + 20)"
  by (auto simp: getXid_def hdr_bits bit_simps ac_simps)

lemma bit_getCmd: "bit (getCmd x) n \<longleftrightarrow> (n = 28 \<or> n = 29) \<and> bit x n"
  by (auto simp: getCmd_def hdr_bits bit_simps)

lemma bit_getVrs: "bit (getVrs x) n \<longleftrightarrow> (n = 30 \<or> n = 31) \<and> bit x n"
  by (auto simp: getVrs_def hdr_bits bit_simps dest: bit_imp_le_length)

lemma getLen_shift: "getCmd x = CMD_S \<Longrightarrow> getLen x = Inr (unat (take_bit 20 x) + 1)"
  by (simp add: getLen_def hdr_bits LEN_SHIFT_def take_bit_eq_mask)

subsection \<open>Transaction ids\<close>

lemma newXid_eq: "newXid x = (push_bit 20 (ucast (next_xid x)), next_xid x)"
  by (simp add: next_xid_def newXid_def Let_def XID_SHIFT_def)

lemma next_xid_eq: "next_xid x = (if x = 255 then 1 else x + 1)"
proof (cases "x = 255")
  case False
  have "x + 1 \<noteq> 0"
  proof
    assume "x + 1 = 0"
    then have "x = - 1" by (simp add: eq_neg_iff_add_eq_0)
    with False show False by simp
  qed
  with False show ?thesis by (simp add: next_xid_def newXid_def Let_def XID_ANY_def)
qed (simp add: next_xid_def newXid_def Let_def XID_ANY_def)

lemma next_xid_not_any [simp]: "next_xid x \<noteq> XID_ANY"
  by (auto simp: next_xid_def newXid_def Let_def XID_ANY_def)

lemma unat_next_xid: "x \<noteq> XID_ANY \<Longrightarrow> unat (next_xid x) = unat x mod 255 + 1"
proof (cases "x = 255")
  case False
  then have "unat x \<noteq> 255" by (simp add: word_unat_eq_iff)
  with unat_u8_less [of x] have "unat x < 255" by simp
  with False show ?thesis by (simp add: next_xid_eq unat_word_ariths)
qed (simp add: next_xid_eq)

lemma unat_next_xid_pow:
  "x \<noteq> XID_ANY \<Longrightarrow> unat ((next_xid ^^ n) x) = (unat x + n - 1) mod 255 + 1"
proof (induction n)
  case 0
  have "unat x < 256" by (rule unat_u8_less)
  moreover from 0 have "0 < unat x" by (simp add: XID_ANY_def unat_gt_0)
  ultimately show ?case by simp
next
  case (Suc n)
  have "0 < unat x" using Suc.prems by (simp add: XID_ANY_def unat_gt_0)
  have "(next_xid ^^ n) x \<noteq> XID_ANY" by (cases n) (use Suc.prems in simp_all)
  then have "unat ((next_xid ^^ Suc n) x) = ((unat x + n - 1) mod 255 + 1) mod 255 + 1"
    using Suc by (simp add: unat_next_xid)
  also have "\<dots> = (unat x + n - 1 + 1) mod 255 + 1" by (simp only: mod_add_left_eq)
  also have "unat x + n - 1 + 1 = unat x + Suc n - 1" using \<open>0 < unat x\<close> by simp
  finally show ?case .
qed

subsection \<open>Shift headers\<close>

lemma snd_mkShift [simp]: "snd (mkShift len xid) = next_xid xid"
  by (simp add: mkShift_def newXid_eq Let_def)

lemma bit_mkShift:
  "bit (fst (mkShift len xid)) n \<longleftrightarrow>
     n = 28 \<or> (20 \<le> n \<and> n < 28 \<and> bit (next_xid xid) (n - 20)) \<or> bit (len - 1) n"
  by (auto simp: mkShift_def newXid_eq Let_def bit_cmd PVERS_def PVER0_def LEN_SHIFT_def bit_simps
      dest: bit_imp_le_length)

lemma len_bits:
  assumes "1 \<le> unat len" and "unat len \<le> 2 ^ 20"
  shows "unat (len - 1) = unat len - 1" and "take_bit 20 (len - 1) = len - 1"
proof -
  from assms have "1 \<le> len" by (simp add: word_le_nat_alt)
  then show minus: "unat (len - 1) = unat len - 1" by (simp add: unat_sub)
  have "unat (take_bit 20 (len - 1)) = unat (len - 1)"
    using assms by (simp add: minus unsigned_take_bit_eq take_bit_nat_eq_self)
  then show "take_bit 20 (len - 1) = len - 1" by (simp only: unsigned_word_eqI)
qed

lemma bit_len_less:
  assumes "1 \<le> unat len" and "unat len \<le> 2 ^ 20" and "bit (len - 1) n"
  shows "n < 20"
  using assms(3) len_bits(2) [OF assms(1,2)] by (metis bit_take_bit_iff)

lemma mkShift_fields:
  fixes xid :: u8
  assumes "1 \<le> unat len" and "unat len \<le> 2 ^ 20"
  defines "h \<equiv> fst (mkShift len xid)"
  shows "getVrs h = PVER0" and "getCmd h = CMD_S" and "getXid h = next_xid xid"
    and "getLen h = Inr (unat len)" and "getErr h = 0"
proof -
  note small = bit_len_less [OF assms(1,2)]
  show "getVrs h = PVER0"
    by (rule bit_word_eqI) (auto simp: h_def bit_getVrs bit_mkShift PVER0_def dest: small)
  show cmd: "getCmd h = CMD_S"
    by (rule bit_word_eqI) (auto simp: h_def bit_getCmd bit_mkShift bit_cmd dest: small)
  show "getXid h = next_xid xid"
    by (rule bit_word_eqI) (auto simp: h_def bit_getXid bit_mkShift dest: small)
  have "take_bit 20 h = len - 1"
    by (rule bit_word_eqI) (auto simp: h_def bit_take_bit_iff bit_mkShift dest: small)
  with cmd show "getLen h = Inr (unat len)"
    using assms(1) by (simp add: getLen_shift len_bits(1) [OF assms(1,2)])
  from cmd show "getErr h = 0" by (simp add: getErr_def)
qed

subsection \<open>Query headers\<close>

lemma mkQuery_fields [simp]: "getXid mkQuery = XID_ANY" "getCmd mkQuery = CMD_Q" "getVrs mkQuery = PVER0"
  by (simp_all add: mkQuery_def getXid_def getCmd_def getVrs_def hdr_defs)

lemma wordSize_bounds: "1 \<le> wordSize h" "wordSize h \<le> 16"
proof -
  have "unat (h AND 0xf) \<le> unat (0xf :: u32)" by (rule word_and_le1 [THEN word_le_nat_alt [THEN iffD1]])
  then show "wordSize h \<le> 16" by (simp add: wordSize_def)
qed (simp add: wordSize_def)

lemma memDepth_bound: "memDepth h < 2 ^ 16"
proof -
  have "unat (drop_bit 4 h AND 0xffff) \<le> unat (0xffff :: u32)"
    by (rule word_and_le1 [THEN word_le_nat_alt [THEN iffD1]])
  then show ?thesis by (simp add: memDepth_def)
qed

subsection \<open>Header words in memory do not depend on the byte order of the platform\<close>

lemma getw32_le: "4 \<le> length buf \<Longrightarrow> getw32 le buf = Inr (le_word32 (take 4 buf))"
  by (simp add: getw32_def rd_mem_ok u32_of_mem_def bswap32_def)

lemma getHdr_le: "4 \<le> length buf \<Longrightarrow> getHdr le buf = Inr (le_word32 (take 4 buf))"
  by (simp add: getHdr_def getw32_le)

lemma setw32_le: "setw32 le buf w l = wr_mem buf 0 (take l (le_bytes32 w))"
  by (simp add: setw32_def Let_def mem_of_u32_def bswap32_def)

lemma setHdr_le:
  assumes "4 \<le> wsz" and "wsz < 2 ^ 32" and "wsz \<le> length buf"
  shows "setHdr le wsz buf h = Inr (le_bytes32 h @ replicate (wsz - 4) 0 @ drop wsz buf)"
proof -
  have "wsz + 2 ^ 32 - 4 = (wsz - 4) + 2 ^ 32" using assms by simp
  then have "c_unsigned (wsz + 2 ^ 32 - 4) = (wsz - 4) mod 2 ^ 32"
    by (simp only: c_unsigned_def mod_add_self2)
  also have "\<dots> = wsz - 4" using assms by simp
  finally have "c_unsigned (wsz + 2 ^ 32 - 4) = wsz - 4" .
  with assms show ?thesis
    by (simp add: setHdr_def Let_def setw32_le mem_simps)
qed

lemma setHdr_length: "setHdr le wsz buf h = Inr b \<Longrightarrow> length b = length buf"
  by (auto simp: setHdr_def setw32_def Let_def wr_mem_length)

subsection \<open>The TCK period\<close>

lemma c_round_eqI: "0 \<le> x \<Longrightarrow> real n - 1 / 2 \<le> x \<Longrightarrow> x < real n + 1 / 2 \<Longrightarrow> c_round x = int n"
  unfolding c_round_def by (simp, intro floor_unique) simp_all

lemma cvtPerNs_raw:
  assumes "raw = unat (drop_bit XID_SHIFT h AND 0xff)" and "raw \<noteq> 0"
  shows "cvtPerNs h = word_of_int (c_round (5 * 10 powr (real raw / 64)))"
proof -
  have "drop_bit XID_SHIFT h AND 0xff \<noteq> 0" using assms by (auto simp: unat_eq_0)
  moreover have "real raw * 4 / 256 = real raw / 64" by simp
  ultimately show ?thesis using assms(1) by (simp add: cvtPerNs_def Let_def REF_FREQ_HZ_def algebra_simps)
qed

lemma tenth_power: "(10 * 10 powr (real raw / 64)) ^ 64 = (10 :: real) ^ (64 + raw)"
proof -
  have "(10 powr (real raw / 64)) ^ 64 = (10 :: real) powr (real raw)"
    by (simp add: powr_realpow [symmetric] powr_powr)
  also have "\<dots> = 10 ^ raw" by (simp add: powr_realpow)
  finally show ?thesis by (simp only: power_mult_distrib power_add)
qed

lemma period_rounds:
  assumes "c_round (5 * 10 powr (real raw / 64)) = int n" and "1 \<le> n"
  shows "(2 * n - 1) ^ 64 \<le> 10 ^ (64 + raw)" and "10 ^ (64 + raw) < (2 * n + 1) ^ 64"
proof -
  define x :: real where "x = 10 * 10 powr (real raw / 64)"
  have x64: "x ^ 64 = real (10 ^ (64 + raw))" by (simp only: x_def tenth_power) simp
  have y: "5 * 10 powr (real raw / 64) = x / 2" and pos: "0 \<le> x" by (simp_all add: x_def)
  have "\<lfloor>x / 2 + 1 / 2\<rfloor> = int n" using assms(1) pos unfolding y by (simp add: c_round_def)
  then have "real n \<le> x / 2 + 1 / 2" "x / 2 + 1 / 2 < real n + 1" by linarith+
  then have "real (2 * n - 1) \<le> x" and upper: "x < real (2 * n + 1)" using assms(2) by (simp_all add: of_nat_diff)
  then have "real (2 * n - 1) ^ 64 \<le> x ^ 64" by (intro power_mono) simp_all
  then show "(2 * n - 1) ^ 64 \<le> 10 ^ (64 + raw)" unfolding x64 by (metis of_nat_le_iff of_nat_power)
  have "x ^ 64 < real (2 * n + 1) ^ 64" using upper pos by (intro power_strict_mono) simp_all
  then show "10 ^ (64 + raw) < (2 * n + 1) ^ 64" unfolding x64 by (metis of_nat_less_iff of_nat_power)
qed

lemma period_bounds:
  assumes "raw < 256"
  shows "5 \<le> c_round (5 * 10 powr (real raw / 64))" and "c_round (5 * 10 powr (real raw / 64)) \<le> 50000"
proof -
  define y :: real where "y = 10 powr (real raw / 64)"
  have "1 \<le> y" by (simp add: y_def ge_one_powr_ge_zero)
  have "y \<le> 10 powr 4" unfolding y_def by (rule powr_mono) (use assms in simp_all)
  also have "(10 :: real) powr 4 = 10000" by (simp add: powr_numeral)
  finally have "y \<le> 10000" .
  with \<open>1 \<le> y\<close> show "5 \<le> c_round (5 * 10 powr (real raw / 64))"
    and "c_round (5 * 10 powr (real raw / 64)) \<le> 50000"
    by (auto simp: c_round_def y_def [symmetric] le_floor_iff floor_le_iff)
qed

lemma raw_period_less: "unat (drop_bit XID_SHIFT h AND (0xff :: u32)) < 256"
proof -
  have "unat (drop_bit XID_SHIFT h AND 0xff) \<le> unat (0xff :: u32)"
    by (rule word_and_le1 [THEN word_le_nat_alt [THEN iffD1]])
  then show ?thesis by simp
qed

text \<open>The code of a period is off by at most half a step, which is less than two percent.\<close>

lemma half_step: "10 powr (1 / 128) \<le> (51 / 50 :: real)"
proof -
  have "(10 powr (1 / 128)) ^ 128 = (10 :: real)" by (simp add: powr_realpow [symmetric] powr_powr)
  also have "\<dots> \<le> (51 / 50) ^ 128" by (simp add: power_divide)
  finally show ?thesis by (rule power_le_imp_le_base [where n = 127, simplified]) simp
qed

lemma half_step_down: "49 / 50 \<le> (10 powr (- (1 / 128)) :: real)"
proof -
  have "49 / 50 * 10 powr (1 / 128) \<le> (1 :: real)" using half_step by simp
  then show ?thesis by (simp add: powr_minus divide_simps)
qed

lemma c_round_near: "0 \<le> x \<Longrightarrow> \<bar>real_of_int (c_round x) - x\<bar> \<le> 1 / 2"
  by (simp only: c_round_def if_True) linarith

definition period_code :: "nat \<Rightarrow> int" where
  "period_code p = c_round (64 * log 10 (real p / 5))"

lemma period_code_range:
  assumes "1 \<le> p" and "p < 256"
  shows "p \<le> 4 \<Longrightarrow> period_code p < 0" "p = 5 \<Longrightarrow> period_code p = 0" "6 \<le> p \<Longrightarrow> 1 \<le> period_code p \<and> period_code p \<le> 128"
proof -
  define q :: real where "q = real p / 5"
  have q: "0 < q" using assms(1) by (simp add: q_def)
  show "period_code p < 0" if "p \<le> 4"
  proof -
    have "q < 49 / 50" using that by (simp add: q_def)
    then have "q < 10 powr (- (1 / 128))" using half_step_down by simp
    then have "log 10 q < - (1 / 128)" using q by (simp add: log_less_iff)
    then show ?thesis by (simp add: period_code_def c_round_def q_def [symmetric] less_floor_iff le_floor_iff zero_less_floor)
  qed
  show "period_code p = 0" if "p = 5" using that by (simp add: period_code_def c_round_def)
  show "1 \<le> period_code p \<and> period_code p \<le> 128" if "6 \<le> p"
  proof -
    have "51 / 50 < q" "q < 10 powr 2" using that assms(2) by (simp_all add: q_def powr_numeral)
    moreover then have "10 powr (1 / 128) < q" using half_step by linarith
    ultimately have "1 / 128 < log 10 q" "log 10 q < 2" using q less_log_iff [of 10 q "1 / 128"] log_less_iff [of 10 q 2] by simp_all
    then show ?thesis by (simp add: period_code_def c_round_def q_def [symmetric] le_floor_iff floor_le_iff)
  qed
qed

lemma period_code_near:
  assumes "6 \<le> p" and "p < 256" and "period_code p = int r" and "c = c_round (5 * 10 powr (real r / 64))"
  shows "50 * \<bar>c - int p\<bar> \<le> int p + 25"
proof -
  define x where "x = 64 * log 10 (real p / 5)"
  have "0 \<le> log 10 (real p / 5)" using assms(1) by simp
  then have x: "0 \<le> x" "10 powr (x / 64) = real p / 5" using assms(1) by (simp_all add: x_def)
  have "\<bar>real r - x\<bar> \<le> 1 / 2" using c_round_near [OF x(1)] assms(3) by (simp add: period_code_def x_def)
  then have d: "(real r - x) / 64 \<le> 1 / 128" "- (1 / 128) \<le> (real r - x) / 64"
    using abs_le_D1 [of "real r - x" "1 / 2"] abs_le_D2 [of "real r - x" "1 / 2"] by simp_all
  define f :: real where "f = 10 powr ((real r - x) / 64)"
  have "f \<le> 10 powr (1 / 128)" "10 powr (- (1 / 128)) \<le> f" unfolding f_def using d by (auto intro: powr_mono)
  then have f: "f \<le> 51 / 50" "49 / 50 \<le> f" using half_step half_step_down by linarith+
  have "10 powr (real r / 64) = 10 powr (x / 64) * f" unfolding f_def by (simp add: powr_add [symmetric] diff_divide_distrib)
  then have y: "5 * 10 powr (real r / 64) = real p * f" using x(2) by simp
  have pf: "real p * f \<le> real p * (51 / 50)" "real p * (49 / 50) \<le> real p * f" using mult_left_mono [OF f(1), of "real p"] mult_left_mono [OF f(2), of "real p"] by simp_all
  have "0 \<le> real p * f" using f(2) by simp
  then have "\<bar>real_of_int c - real p * f\<bar> \<le> 1 / 2" using c_round_near assms(4) y by simp
  then have "real_of_int c - real p * f \<le> 1 / 2" "- (real_of_int c - real p * f) \<le> 1 / 2"
    by (rule abs_le_D1, rule abs_le_D2)
  then have "real_of_int c - real p \<le> (real p + 25) / 50" "- (real_of_int c - real p) \<le> (real p + 25) / 50"
    using pf by simp_all
  then have "\<bar>real_of_int c - real p\<bar> \<le> (real p + 25) / 50" by (rule abs_leI)
  then have "50 * \<bar>real_of_int c - real p\<bar> \<le> real p + 25" by simp
  then have "real_of_int (50 * \<bar>c - int p\<bar>) \<le> real_of_int (int p + 25)" by simp
  then show ?thesis by (simp only: of_int_le_iff)
qed

lemma encPerNs_code: "p \<noteq> UNKNOWN_PERIOD \<Longrightarrow>
    encPerNs p = (if period_code (unat p) < 0 then Inl (Fault ''negative double converted to uint32_t'') else Inr (word_of_int (period_code (unat p))))"
  by (simp add: encPerNs_def period_code_def Let_def REF_FREQ_HZ_def algebra_simps)

subsection \<open>Query replies\<close>

lemma bit_mkQueryReply:
  assumes "mkQueryReply v wsz depth p = Inr h" and "encPerNs p = Inr e"
  shows "bit h n \<longleftrightarrow> (n < 4 \<and> bit (wsz - 1) n) \<or> (4 \<le> n \<and> n < 20 \<and> bit depth (n - 4)) \<or>
    (20 \<le> n \<and> n < 28 \<and> bit e (n - 20))"
proof -
  have h: "h = PVER0 OR CMD_Q OR push_bit 20 (e AND 0xff) OR push_bit 4 (depth AND 0xffff)
      OR push_bit 0 ((wsz - 1) AND 0xf)"
    using assms by (auto simp: mkQueryReply_def split: if_splits)
  show ?thesis
    unfolding h by (auto simp: hdr_bits PVER0_def CMD_Q_def bit_simps)
qed

lemma unat_le_take_bit: "unat (w :: u32) < 2 ^ k \<Longrightarrow> take_bit k w = w"
  by (metis take_bit_nat_eq_self unsigned_take_bit_eq unsigned_word_eqI)

lemma mkQueryReply_fields:
  assumes "mkQueryReply v wsz depth p = Inr h" and "1 \<le> wsz" and "encPerNs p = Inr e"
  shows "wordSize h = unat wsz" and "memDepth h = unat depth"
    and "getCmd h = CMD_Q" and "getVrs h = PVER0" and "drop_bit XID_SHIFT h AND 0xff = e AND 0xff"
proof -
  note bits = bit_mkQueryReply [OF assms(1,3)]
  from assms have wsz: "wsz \<le> 16" and depth: "depth < 0x10000"
    by (auto simp: mkQueryReply_def split: if_splits)
  from assms(2) wsz have m1: "unat (wsz - 1) = unat wsz - 1" by (simp add: unat_sub)
  from wsz have "unat wsz \<le> 16" by (simp add: word_le_nat_alt)
  then have "take_bit 4 (wsz - 1) = wsz - 1" by (intro unat_le_take_bit) (simp add: m1)
  moreover have "h AND 0xf = take_bit 4 (wsz - 1)"
    by (rule bit_word_eqI) (auto simp: hdr_bits bits bit_simps)
  ultimately show "wordSize h = unat wsz"
    using assms(2) m1 by (simp add: wordSize_def word_le_nat_alt)
  have "take_bit 16 depth = depth" using depth by (intro unat_le_take_bit) (simp add: word_less_nat_alt)
  moreover have "drop_bit 4 h AND 0xffff = take_bit 16 depth"
    by (rule bit_word_eqI) (auto simp: hdr_bits bits bit_simps)
  ultimately show "memDepth h = unat depth" by (simp add: memDepth_def)
  show "getCmd h = CMD_Q" "getVrs h = PVER0" "drop_bit XID_SHIFT h AND 0xff = e AND 0xff"
    by (rule bit_word_eqI; auto simp: bit_getCmd bit_getVrs hdr_bits XID_SHIFT_def CMD_Q_def PVER0_def bits bit_simps)+
qed

lemma query_period:
  assumes "encPerNs p = Inr e" and "unat p < 256" and "drop_bit XID_SHIFT h AND 0xff = e AND 0xff"
  shows "if p = UNKNOWN_PERIOD \<or> p = 5 then cvtPerNs h = UNKNOWN_PERIOD
    else 50 * \<bar>int (unat (cvtPerNs h)) - int (unat p)\<bar> \<le> int (unat p) + 25"
proof (cases "p = UNKNOWN_PERIOD")
  case True
  then show ?thesis using assms(1,3) by (auto simp: encPerNs_def cvtPerNs_def)
next
  case False
  then have pos: "1 \<le> unat p" by (simp add: UNKNOWN_PERIOD_def unat_gt_0 Suc_le_eq)
  have e: "\<not> period_code (unat p) < 0" "e = word_of_int (period_code (unat p))"
    using assms(1) encPerNs_code [OF False] by (auto split: if_splits)
  note range = period_code_range [OF pos assms(2)]
  show ?thesis
  proof (cases "p = 5")
    case True
    then have "e = 0" using e(2) range(2) by simp
    then show ?thesis using True assms(3) by (simp add: cvtPerNs_def)
  next
    case p5: False
    have "unat p \<noteq> 5" using p5 by (auto simp: word_unat_eq_iff)
    then have p6: "6 \<le> unat p" using range(1) e(1) by linarith
    obtain r where r: "period_code (unat p) = int r" "1 \<le> r" "r \<le> 128" using range(3) [OF p6] by (intro that [of "nat (period_code (unat p))"]) (auto simp: nat_le_iff le_nat_iff)
    have ue: "unat e = r" using e(2) r by (simp add: unat_u32_of_nat)
    have "e AND 0xff = take_bit 8 e" by (simp add: take_bit_eq_mask mask_eq_exp_minus_1)
    also have "\<dots> = e" using ue r(3) by (intro unat_le_take_bit) simp
    finally have raw: "r = unat (drop_bit XID_SHIFT h AND 0xff)" using assms(3) ue by simp
    define c where "c = c_round (5 * 10 powr (real r / 64))"
    have c: "5 \<le> c" "c \<le> 50000" using period_bounds [of r] r(3) by (simp_all add: c_def)
    have "cvtPerNs h = word_of_int c" using cvtPerNs_raw [OF raw] r(2) by (simp add: c_def)
    then have "int (unat (cvtPerNs h)) = c" using c by (simp add: unsigned_of_int take_bit_int_eq_self)
    then show ?thesis using period_code_near [OF p6 assms(2) r(1) c_def] False p5 by simp
  qed
qed

section \<open>Properties\<close>

text \<open>
  C17.  A shift header for a vector of 1 to 2^20 bits carries the supported protocol version, the shift
  command, the fresh transaction id and the exact number of bits, and is no error header.
\<close>

theorem shift_header_fields:
  assumes "1 \<le> unat len" and "unat len \<le> 2 ^ 20"
  shows "let (h, xid') = mkShift len xid in
    getVrs h = PVER0 \<and> getCmd h = CMD_S \<and> getXid h = xid' \<and> xid' \<noteq> XID_ANY \<and>
    getLen h = Inr (unat len) \<and> getErr h = 0"
  using mkShift_fields [OF assms, of xid] snd_mkShift [of len xid]
  by (cases "mkShift len xid") auto

theorem shift_header_fields_witness:
  "let (h, xid') = mkShift 1000 255 in
    getVrs h = PVER0 \<and> getCmd h = CMD_S \<and> getXid h = xid' \<and> xid' \<noteq> XID_ANY \<and>
    getLen h = Inr (unat (1000 :: u32)) \<and> getErr h = 0"
  by (rule shift_header_fields) simp_all

text \<open>
  C26.  Beyond 2^20 bits the length is not masked and spills into the transaction id: the target is told
  to shift only the length modulo 2^20, under an id merged with the excess.
\<close>

theorem shift_header_overflow:
  assumes "2 ^ 20 < unat len" and "unat len \<le> 2 ^ 28"
  shows "let (h, xid') = mkShift len xid in
    getCmd h = CMD_S \<and> getLen h = Inr ((unat len - 1) mod 2 ^ 20 + 1) \<and>
    getXid h = xid' OR ucast (drop_bit 20 (len - 1))"
proof -
  from assms have "1 \<le> len" by (simp add: word_le_nat_alt)
  then have m1: "unat (len - 1) = unat len - 1" by (simp add: unat_sub)
  have "take_bit 28 (len - 1) = len - 1" by (rule unat_le_take_bit) (use assms m1 in simp)
  then have small: "n < 28" if "bit (len - 1) n" for n using that by (metis bit_take_bit_iff)
  obtain h xid' where hx: "mkShift len xid = (h, xid')" by (cases "mkShift len xid")
  then have h: "bit h n \<longleftrightarrow> n = 28 \<or> (20 \<le> n \<and> n < 28 \<and> bit xid' (n - 20)) \<or> bit (len - 1) n" for n
    using bit_mkShift [of len xid n] snd_mkShift [of len xid] by simp
  have cmd: "getCmd h = CMD_S" by (rule bit_word_eqI) (auto simp: bit_getCmd h bit_cmd dest: small)
  have xid: "getXid h = xid' OR ucast (drop_bit 20 (len - 1))"
    by (rule bit_word_eqI) (auto simp: bit_getXid h bit_simps ac_simps dest: small)
  have "take_bit 20 h = take_bit 20 (len - 1)" by (rule bit_word_eqI) (auto simp: h bit_simps dest: small)
  then have "unat (take_bit 20 h) = take_bit 20 (unat (len - 1))" by (simp only: unsigned_take_bit_eq)
  then have "unat (take_bit 20 h) = (unat len - 1) mod 2 ^ 20" by (simp only: m1 take_bit_eq_mod)
  with cmd xid hx show ?thesis by (simp add: getLen_shift)
qed

theorem shift_header_overflow_witness:
  "let (h, xid') = mkShift 0x300001 0 in
    getCmd h = CMD_S \<and> getLen h = Inr ((unat (0x300001 :: u32) - 1) mod 2 ^ 20 + 1) \<and>
    getXid h = xid' OR ucast (drop_bit 20 ((0x300001 :: u32) - 1))"
  by (rule shift_header_overflow) simp_all

text \<open>
  C19.  Whatever value the transaction id starts from, the ids of 255 consecutive shift headers are
  pairwise different and none of them is the wildcard id.
\<close>

theorem xid_sequence_fresh:
  assumes "i < j" and "j < i + 255"
  shows "(next_xid ^^ Suc i) x \<noteq> (next_xid ^^ Suc j) x \<and> (next_xid ^^ Suc i) x \<noteq> XID_ANY"
proof -
  define y where "y = next_xid x"
  have y: "y \<noteq> XID_ANY" by (simp add: y_def)
  have iter: "(next_xid ^^ Suc k) x = (next_xid ^^ k) y" for k by (simp add: y_def funpow_swap1)
  have "0 < unat y" using y by (simp add: XID_ANY_def unat_gt_0)
  have "(unat y + i - 1) mod 255 \<noteq> (unat y + j - 1) mod 255"
  proof
    assume eq: "(unat y + i - 1) mod 255 = (unat y + j - 1) mod 255"
    have le: "unat y + i - 1 \<le> unat y + j - 1" using assms(1) by simp
    from mod_eq_dvd_iff_nat [OF le, of 255] eq have "255 dvd (unat y + j - 1) - (unat y + i - 1)"
      by metis
    moreover have "(unat y + j - 1) - (unat y + i - 1) = j - i" using \<open>0 < unat y\<close> by simp
    ultimately have "255 dvd j - i" by simp
    with assms show False by (auto dest: dvd_imp_le)
  qed
  then have "unat ((next_xid ^^ i) y) \<noteq> unat ((next_xid ^^ j) y)"
    by (simp add: unat_next_xid_pow [OF y])
  then show ?thesis by (auto simp: iter y_def [symmetric] y simp del: funpow.simps) (cases i; simp add: y)
qed

theorem xid_sequence_fresh_witness:
  "(next_xid ^^ Suc 0) 254 \<noteq> (next_xid ^^ Suc 254) 254 \<and> (next_xid ^^ Suc 0) 254 \<noteq> XID_ANY"
  by (rule xid_sequence_fresh) simp_all

text \<open>
  C18.  A query reply built by \<^verbatim>\<open>mkQueryReply\<close> is read back by the functions that \<^verbatim>\<open>query()\<close> uses: word size
  and memory depth come back as they were given.  The period, which \<^verbatim>\<open>mkQueryReply\<close> accepts up to 255 ns, comes back within two
  percent and half a nanosecond, except for 5 ns: its code is zero, that of an unknown period, which comes back as unknown.
\<close>

theorem query_reply_roundtrip:
  assumes "mkQueryReply v wsz depth p = Inr h" and "1 \<le> wsz"
  shows "wordSize h = unat wsz \<and> memDepth h = unat depth \<and> getCmd h = CMD_Q \<and> getVrs h = v \<and>
    (if p = UNKNOWN_PERIOD \<or> p = 5 then cvtPerNs h = UNKNOWN_PERIOD
     else 50 * \<bar>int (unat (cvtPerNs h)) - int (unat p)\<bar> \<le> int (unat p) + 25)"
proof -
  from assms obtain e where e: "encPerNs p = Inr e" by (auto simp: mkQueryReply_def)
  from assms have v: "v = PVER0" and "p < 0x100" by (auto simp: mkQueryReply_def split: if_splits)
  then have p: "unat p < 256" by (simp add: word_less_nat_alt)
  note f = mkQueryReply_fields [OF assms e]
  have "if p = UNKNOWN_PERIOD \<or> p = 5 then cvtPerNs h = UNKNOWN_PERIOD
      else 50 * \<bar>int (unat (cvtPerNs h)) - int (unat p)\<bar> \<le> int (unat p) + 25"
    using query_period [OF e p f(5)] .
  with v f show ?thesis by blast
qed

theorem query_reply_roundtrip_witness:
  "(\<exists>h. mkQueryReply PVER0 4 180 100 = Inr h \<and> wordSize h = 4 \<and> memDepth h = 180 \<and> 98 \<le> unat (cvtPerNs h) \<and> unat (cvtPerNs h) \<le> 102)"
proof -
  have "(1 :: nat) \<le> 100" "(100 :: nat) < 256" "(6 :: nat) \<le> 100" by simp_all
  from period_code_range(3) [OF this] have "\<not> period_code 100 < 0" by simp
  moreover have "(100 :: u32) \<noteq> UNKNOWN_PERIOD" by (simp add: UNKNOWN_PERIOD_def)
  ultimately obtain h where h: "mkQueryReply PVER0 4 180 100 = Inr h"
    by (simp add: mkQueryReply_def encPerNs_code)
  have near: "50 * \<bar>int k - 100\<bar> \<le> 125 \<Longrightarrow> 98 \<le> k \<and> k \<le> 102" for k by arith
  from query_reply_roundtrip [OF h] have "wordSize h = 4 \<and> memDepth h = 180 \<and> 50 * \<bar>int (unat (cvtPerNs h)) - 100\<bar> \<le> 125"
    by (simp add: UNKNOWN_PERIOD_def)
  with h near show ?thesis by blast
qed

text \<open>
  C20.  A header word stored by \<^verbatim>\<open>setHdr\<close> is read back by \<^verbatim>\<open>getHdr\<close>, and the bytes in memory
  are little-endian and zero-padded to the word size on platforms of either byte order.
\<close>

theorem header_memory_portable:
  assumes "4 \<le> wsz" and "wsz < 2 ^ 32" and "wsz \<le> length buf"
  shows "\<exists>b. setHdr le wsz buf h = Inr b \<and> getHdr le' b = Inr h \<and>
    b = le_bytes32 h @ replicate (wsz - 4) 0 @ drop wsz buf"
  using assms by (simp add: setHdr_le getHdr_le)

theorem header_memory_portable_witness:
  "\<exists>b. setHdr False 8 [1, 2, 3, 4, 5, 6, 7, 8, 9] 0x10200003 = Inr b \<and> getHdr True b = Inr 0x10200003 \<and>
    b = le_bytes32 0x10200003 @ replicate (8 - 4) 0 @ drop 8 [1, 2, 3, 4, 5, 6, 7, 8, 9]"
  by (rule header_memory_portable) simp_all

text \<open>
  C28.  The period decoded from a query reply, exactly: the code zero, with which most targets answer, means an unknown period; for
  every other code \<open>raw\<close> the period is the integer nearest to 5 * 10^(raw/64) nanoseconds, stated with integer
  powers, and it lies between 5 and 50000 ns.
\<close>

theorem period_exact:
  "let raw = unat (drop_bit XID_SHIFT h AND 0xff); n = unat (cvtPerNs h) in
    if raw = 0 then cvtPerNs h = UNKNOWN_PERIOD
    else 5 \<le> n \<and> n \<le> 50000 \<and> (2 * n - 1) ^ 64 \<le> 10 ^ (64 + raw) \<and> 10 ^ (64 + raw) < (2 * n + 1) ^ 64"
proof -
  define raw where "raw = unat (drop_bit XID_SHIFT h AND 0xff)"
  show ?thesis
  proof (cases "raw = 0")
    case True
    then have "drop_bit XID_SHIFT h AND 0xff = 0" by (simp add: raw_def unat_eq_0)
    then show ?thesis by (simp add: cvtPerNs_def)
  next
    case False
    have "raw < 256" using raw_period_less [of h] by (simp add: raw_def)
    note b = period_bounds [OF this]
    then obtain n where n: "c_round (5 * 10 powr (real raw / 64)) = int n" "5 \<le> n" "n \<le> 50000"
      by (intro that [of "nat (c_round (5 * 10 powr (real raw / 64)))"]) (simp_all add: nat_le_iff le_nat_iff)
    have "cvtPerNs h = word_of_nat n" using cvtPerNs_raw [OF raw_def False] n(1) by simp
    then have u: "unat (cvtPerNs h) = n" using n(3) by (simp add: unat_of_nat)
    have "1 \<le> n" using n(2) by simp
    note rounds = period_rounds [OF n(1) this]
    show ?thesis unfolding Let_def raw_def [symmetric] u if_not_P [OF False] by (intro conjI n(2,3) rounds)
  qed
qed

end
