(* ===== verification/Jtag_Dump.thy ===== *)
theory Jtag_Dump
  imports Xvc_Prelude
begin

text \<open>
  The JTAG sniffer of \<^verbatim>\<open>jtagDump.h\<close> and \<^verbatim>\<open>jtagDump.cc\<close>: the register accumulator
  \<^verbatim>\<open>JtagRegType\<close>, the sixteen TAP states with their \<^verbatim>\<open>advance\<close> methods, and the context
  \<^verbatim>\<open>JtagDumpCtx\<close> that runs them over the TMS/TDO/TDI buffers of a transaction.  The text written
  to \<^verbatim>\<open>stderr\<close> is collected in the field \<open>m_stderr\<close>.  Here and in every other theory the
  record field \<open>m_x\<close> is the data member \<^verbatim>\<open>x_\<close> of the class.
\<close>

section \<open>Register accumulator\<close>

record jtagReg =
  m_bitpos :: nat
  m_v :: "u64 list"

definition jtagReg_new :: jtagReg where
  "jtagReg_new = \<lparr>m_bitpos = 0, m_v = [0]\<rparr>"

definition reg_clear :: "jtagReg \<Rightarrow> jtagReg" where
  "reg_clear r = r\<lparr>m_v := [0], m_bitpos := 0\<rparr>"

definition getNumBits :: "jtagReg \<Rightarrow> nat" where
  "getNumBits r = (length (m_v r) - 1) * 8 * 8 + m_bitpos r"

text \<open>
  \<^verbatim>\<open>v_.back() |= (1<<bitpos_)\<close> shifts an \<^verbatim>\<open>int\<close>: the result is sign-extended to 64 bits, and
  a shift by 32 or more is undefined.
\<close>

definition addBit :: "bool \<Rightarrow> jtagReg \<Rightarrow> jtagReg res" where
  "addBit b r =
     bindR
       (if b then
          (if m_bitpos r < 32
           then Inr (r\<lparr>m_v := butlast (m_v r) @
                  [last (m_v r) OR (scast (push_bit (m_bitpos r) 1 :: u32) :: u64)]\<rparr>)
           else Inl (Fault ''shift count exceeds width of int''))
        else Inr r)
       (\<lambda>r1. let p = m_bitpos r1 + 1
             in Inr (if 8 * 8 \<le> p then r1\<lparr>m_bitpos := 0, m_v := m_v r1 @ [0]\<rparr> else r1\<lparr>m_bitpos := p\<rparr>))"

definition reg_print :: "jtagReg \<Rightarrow> string" where
  "reg_print r =
     ''0x'' @ (if 0 < m_bitpos r then hex_string (unat (last (m_v r))) else []) @
     concat (map (\<lambda>w. hex16_string (unat w)) (tl (rev (m_v r))))"

section \<open>TAP states\<close>

datatype jtagState =
    TestLogicReset | RunTestIdle
  | SelectDRScan | CaptureDR | ShiftDR | Exit1DR | PauseDR | Exit2DR | UpdateDR
  | SelectIRScan | CaptureIR | ShiftIR | Exit1IR | PauseIR | Exit2IR | UpdateIR

definition state_name :: "jtagState \<Rightarrow> string" where
  "state_name s = (case s of
     TestLogicReset \<Rightarrow> ''TestLogicReset'' | RunTestIdle \<Rightarrow> ''RunTestIdle''
   | SelectDRScan \<Rightarrow> ''SelectDRScan'' | CaptureDR \<Rightarrow> ''CaptureDR'' | ShiftDR \<Rightarrow> ''ShiftDR''
   | Exit1DR \<Rightarrow> ''Exit1DR'' | PauseDR \<Rightarrow> ''PauseDR'' | Exit2DR \<Rightarrow> ''Exit2DR'' | UpdateDR \<Rightarrow> ''UpdateDR''
   | SelectIRScan \<Rightarrow> ''SelectIRScan'' | CaptureIR \<Rightarrow> ''CaptureIR'' | ShiftIR \<Rightarrow> ''ShiftIR''
   | Exit1IR \<Rightarrow> ''Exit1IR'' | PauseIR \<Rightarrow> ''PauseIR'' | Exit2IR \<Rightarrow> ''Exit2IR'' | UpdateIR \<Rightarrow> ''UpdateIR'')"

section \<open>Context\<close>

record jtagDumpCtx =
  m_iri :: jtagReg
  m_dri :: jtagReg
  m_iro :: jtagReg
  m_dro :: jtagReg
  m_state :: jtagState
  m_stderr :: string

definition jtagDumpCtx_new :: jtagDumpCtx where
  "jtagDumpCtx_new =
     \<lparr>m_iri = jtagReg_new, m_dri = jtagReg_new, m_iro = jtagReg_new, m_dro = jtagReg_new,
      m_state = TestLogicReset, m_stderr = []\<rparr>"

definition clearDR :: "jtagDumpCtx \<Rightarrow> jtagDumpCtx" where
  "clearDR c = c\<lparr>m_dri := reg_clear (m_dri c), m_dro := reg_clear (m_dro c)\<rparr>"

definition clearIR :: "jtagDumpCtx \<Rightarrow> jtagDumpCtx" where
  "clearIR c = c\<lparr>m_iri := reg_clear (m_iri c), m_iro := reg_clear (m_iro c)\<rparr>"

definition getDRLen :: "jtagDumpCtx \<Rightarrow> nat" where
  "getDRLen c = getNumBits (m_dri c)"

definition getIRLen :: "jtagDumpCtx \<Rightarrow> nat" where
  "getIRLen c = getNumBits (m_iri c)"

definition shiftDR :: "bool \<Rightarrow> bool \<Rightarrow> jtagDumpCtx \<Rightarrow> jtagDumpCtx res" where
  "shiftDR tdo tdi c =
     bindR (addBit tdo (m_dro c)) (\<lambda>ro. bindR (addBit tdi (m_dri c)) (\<lambda>ri.
       Inr (c\<lparr>m_dro := ro, m_dri := ri\<rparr>)))"

definition shiftIR :: "bool \<Rightarrow> bool \<Rightarrow> jtagDumpCtx \<Rightarrow> jtagDumpCtx res" where
  "shiftIR tdo tdi c =
     bindR (addBit tdo (m_iro c)) (\<lambda>ro. bindR (addBit tdi (m_iri c)) (\<lambda>ri.
       Inr (c\<lparr>m_iro := ro, m_iri := ri\<rparr>)))"

definition changeState :: "jtagState \<Rightarrow> jtagDumpCtx \<Rightarrow> jtagDumpCtx" where
  "changeState s c = c\<lparr>m_state := s\<rparr>"

definition puts_stderr :: "string \<Rightarrow> jtagDumpCtx \<Rightarrow> jtagDumpCtx" where
  "puts_stderr s c = c\<lparr>m_stderr := m_stderr c @ s\<rparr>"

text \<open>The message of \<^verbatim>\<open>JtagState_UpdateDR::advance\<close> and of \<^verbatim>\<open>JtagState_UpdateIR::advance\<close>.\<close>

definition report_DR :: "jtagDumpCtx \<Rightarrow> string" where
  "report_DR c =
     state_name UpdateDR @ '': DR[IR = '' @ reg_print (m_iro c) @ ''], nbits: '' @
     dec_string (getDRLen c) @ [char_of (10 :: nat)] @
     ''  sent: '' @ reg_print (m_dro c) @ [char_of (10 :: nat)] @
     ''  rcvd: '' @ reg_print (m_dri c) @ [char_of (10 :: nat)]"

definition report_IR :: "jtagDumpCtx \<Rightarrow> string" where
  "report_IR c =
     state_name UpdateIR @ '': IR sent: '' @ reg_print (m_iro c) @ '', recv: '' @
     reg_print (m_iri c) @ '' (nbits: '' @ dec_string (getIRLen c) @ '')'' @ [char_of (10 :: nat)]"

text \<open>The \<^verbatim>\<open>advance\<close> methods of the sixteen state classes.\<close>

fun state_advance :: "jtagState \<Rightarrow> bool \<Rightarrow> bool \<Rightarrow> bool \<Rightarrow> jtagDumpCtx \<Rightarrow> jtagDumpCtx res" where
  "state_advance TestLogicReset tms tdo tdi c = Inr (if \<not> tms then changeState RunTestIdle c else c)"
| "state_advance RunTestIdle tms tdo tdi c = Inr (if tms then changeState SelectDRScan c else c)"
| "state_advance SelectDRScan tms tdo tdi c =
     Inr (if tms then changeState SelectIRScan c else changeState CaptureDR c)"
| "state_advance CaptureDR tms tdo tdi c =
     (let c = clearDR c in Inr (if tms then changeState Exit1DR c else changeState ShiftDR c))"
| "state_advance ShiftDR tms tdo tdi c =
     bindR (shiftDR tdo tdi c) (\<lambda>c. Inr (if tms then changeState Exit1DR c else c))"
| "state_advance Exit1DR tms tdo tdi c =
     Inr (if tms then changeState UpdateDR c else changeState PauseDR c)"
| "state_advance PauseDR tms tdo tdi c = Inr (if tms then changeState Exit2DR c else c)"
| "state_advance Exit2DR tms tdo tdi c =
     Inr (if tms then changeState UpdateDR c else changeState ShiftDR c)"
| "state_advance UpdateDR tms tdo tdi c =
     (let c = puts_stderr (report_DR c) c
      in Inr (if tms then changeState SelectDRScan c else changeState RunTestIdle c))"
| "state_advance SelectIRScan tms tdo tdi c =
     Inr (if tms then changeState TestLogicReset c else changeState CaptureIR c)"
| "state_advance CaptureIR tms tdo tdi c =
     (let c = clearIR c in Inr (if tms then changeState Exit1IR c else changeState ShiftIR c))"
| "state_advance ShiftIR tms tdo tdi c =
     bindR (shiftIR tdo tdi c) (\<lambda>c. Inr (if tms then changeState Exit1IR c else c))"
| "state_advance Exit1IR tms tdo tdi c =
     Inr (if tms then changeState UpdateIR c else changeState PauseIR c)"
| "state_advance PauseIR tms tdo tdi c = Inr (if tms then changeState Exit2IR c else c)"
| "state_advance Exit2IR tms tdo tdi c =
     Inr (if tms then changeState UpdateIR c else changeState ShiftIR c)"
| "state_advance UpdateIR tms tdo tdi c =
     (let c = puts_stderr (report_IR c) c
      in Inr (if tms then changeState SelectDRScan c else changeState RunTestIdle c))"

definition advance :: "bool \<Rightarrow> bool \<Rightarrow> bool \<Rightarrow> jtagDumpCtx \<Rightarrow> jtagDumpCtx res" where
  "advance tms tdo tdi c = state_advance (m_state c) tms tdo tdi c"

section \<open>Running over buffers\<close>

text \<open>
  The inner loop over the bits \<open>i, \<dots>, k - 1\<close> of the current bytes.  It returns whether the target
  state was met, the number of bits left and the context.
\<close>

fun pb_bits :: "jtagState option \<Rightarrow> u8 list \<Rightarrow> u8 list \<Rightarrow> u8 list \<Rightarrow> nat \<Rightarrow> nat \<Rightarrow> nat \<Rightarrow>
    jtagDumpCtx \<Rightarrow> (bool \<times> nat \<times> jtagDumpCtx) res" where
  "pb_bits until tmsb tdob tdib i 0 nbits c = Inr (False, nbits, c)"
| "pb_bits until tmsb tdob tdib i (Suc k) nbits c =
     (if until = Some (m_state c) then Inr (True, nbits, c)
      else (case (tmsb, tdob, tdib) of
          (a # _, b # _, d # _) \<Rightarrow>
            bindR (advance (bit a i) (bit b i) (bit d i) c)
              (pb_bits until tmsb tdob tdib (Suc i) k (nbits - 1))
        | _ \<Rightarrow> Inl (Fault ''read out of bounds'')))"

lemma pb_bits_left:
  "pb_bits until tmsb tdob tdib i k nbits c = Inr (stop, n, c') \<Longrightarrow> k \<le> nbits \<Longrightarrow>
   n \<le> nbits \<and> (\<not> stop \<longrightarrow> n = nbits - k)"
proof (induction until tmsb tdob tdib i k nbits c rule: pb_bits.induct)
  case (2 until tmsb tdob tdib i k nbits c)
  then show ?case by (fastforce split: if_splits list.splits)
qed simp

text \<open>The outer loop over the bytes; \<open>processBuf\<close> takes the \<^verbatim>\<open>int nbits\<close> of the source.\<close>

function pb_bytes :: "jtagState option \<Rightarrow> nat \<Rightarrow> u8 list \<Rightarrow> u8 list \<Rightarrow> u8 list \<Rightarrow> jtagDumpCtx \<Rightarrow>
    (nat \<times> jtagDumpCtx) res" where
  "pb_bytes until nbits tmsb tdob tdib c =
     (if nbits = 0 then Inr (0, c)
      else (case pb_bits until tmsb tdob tdib 0 (min nbits 8) nbits c of
          Inl e \<Rightarrow> Inl e
        | Inr (True, n, c') \<Rightarrow> Inr (n, c')
        | Inr (False, n, c') \<Rightarrow> pb_bytes until n (tl tmsb) (tl tdob) (tl tdib) c'))"
  by pat_completeness auto
termination
  by (relation "measure (\<lambda>(u, n, a, b, d, c). n)") (auto dest!: pb_bits_left)

declare pb_bytes.simps [simp del]

definition processBuf :: "int \<Rightarrow> u8 list \<Rightarrow> u8 list \<Rightarrow> u8 list \<Rightarrow> jtagState option \<Rightarrow> jtagDumpCtx \<Rightarrow>
    (nat \<times> jtagDumpCtx) res" where
  "processBuf nbits tmsb tdob tdib until c = pb_bytes until (nat nbits) tmsb tdob tdib c"

section \<open>Specification\<close>

text \<open>
  The TAP controller of IEEE 1149.1 as a table: successor for TMS low and for TMS high.  The order of
  the rows is that of the constructors.
\<close>

fun tap_next :: "jtagState \<Rightarrow> bool \<Rightarrow> jtagState" where
  "tap_next TestLogicReset tms = (if tms then TestLogicReset else RunTestIdle)"
| "tap_next RunTestIdle tms = (if tms then SelectDRScan else RunTestIdle)"
| "tap_next SelectDRScan tms = (if tms then SelectIRScan else CaptureDR)"
| "tap_next CaptureDR tms = (if tms then Exit1DR else ShiftDR)"
| "tap_next ShiftDR tms = (if tms then Exit1DR else ShiftDR)"
| "tap_next Exit1DR tms = (if tms then UpdateDR else PauseDR)"
| "tap_next PauseDR tms = (if tms then Exit2DR else PauseDR)"
| "tap_next Exit2DR tms = (if tms then UpdateDR else ShiftDR)"
| "tap_next UpdateDR tms = (if tms then SelectDRScan else RunTestIdle)"
| "tap_next SelectIRScan tms = (if tms then TestLogicReset else CaptureIR)"
| "tap_next CaptureIR tms = (if tms then Exit1IR else ShiftIR)"
| "tap_next ShiftIR tms = (if tms then Exit1IR else ShiftIR)"
| "tap_next Exit1IR tms = (if tms then UpdateIR else PauseIR)"
| "tap_next PauseIR tms = (if tms then Exit2IR else PauseIR)"
| "tap_next Exit2IR tms = (if tms then UpdateIR else ShiftIR)"
| "tap_next UpdateIR tms = (if tms then SelectDRScan else RunTestIdle)"

definition tap_run :: "bool list \<Rightarrow> jtagState \<Rightarrow> jtagState" where
  "tap_run tms s = fold (\<lambda>t s. tap_next s t) tms s"

text \<open>A run over single bits: the triples are TMS, TDO and TDI of one TCK period.\<close>

primrec run_bits :: "(bool \<times> bool \<times> bool) list \<Rightarrow> jtagDumpCtx \<Rightarrow> jtagDumpCtx res" where
  "run_bits [] c = Inr c"
| "run_bits (t # ts) c = (case t of (tms, tdo, tdi) \<Rightarrow> bindR (advance tms tdo tdi c) (run_bits ts))"

text \<open>The same with a target state, which is looked for before every period: the number of periods left, and the context.\<close>

primrec run_until :: "jtagState \<Rightarrow> (bool \<times> bool \<times> bool) list \<Rightarrow> jtagDumpCtx \<Rightarrow> (nat \<times> jtagDumpCtx) res" where
  "run_until s [] c = Inr (0, c)"
| "run_until s (t # ts) c =
     (if m_state c = s then Inr (Suc (length ts), c)
      else case t of (tms, tdo, tdi) \<Rightarrow> bindR (advance tms tdo tdi c) (run_until s ts))"

text \<open>The triples of three buffers, in the order of the bits on the wire.\<close>

definition triples :: "u8 list \<Rightarrow> u8 list \<Rightarrow> u8 list \<Rightarrow> (bool \<times> bool \<times> bool) list" where
  "triples tmsb tdob tdib = zip (bits_of_bytes tmsb) (zip (bits_of_bytes tdob) (bits_of_bytes tdib))"

text \<open>
  A complete data-register scan from \<^verbatim>\<open>RunTestIdle\<close> and back: select, capture, one period per pair
  of bits with TMS raised on the last, update.
\<close>

definition dr_scan :: "(bool \<times> bool) list \<Rightarrow> (bool \<times> bool \<times> bool) list" where
  "dr_scan ps =
     [(True, False, False), (False, False, False), (False, False, False)] @
     zip (replicate (length ps - 1) False @ [True]) ps @
     [(True, False, False), (False, False, False)]"

primrec addBits :: "bool list \<Rightarrow> jtagReg \<Rightarrow> jtagReg res" where
  "addBits [] r = Inr r"
| "addBits (b # bs) r = bindR (addBit b r) (addBits bs)"

text \<open>The well-formedness of a register: a non-empty vector and a bit position inside its last word.\<close>

definition reg_wf :: "jtagReg \<Rightarrow> bool" where
  "reg_wf r \<longleftrightarrow> m_v r \<noteq> [] \<and> m_bitpos r < 64"

definition ctx_wf :: "jtagDumpCtx \<Rightarrow> bool" where
  "ctx_wf c \<longleftrightarrow> reg_wf (m_iri c) \<and> reg_wf (m_dri c) \<and> reg_wf (m_iro c) \<and> reg_wf (m_dro c)"

section \<open>Lemmas\<close>

subsection \<open>Registers\<close>

lemma reg_wf_init [simp, intro]: "reg_wf jtagReg_new" "reg_wf (reg_clear r)"
  by (simp_all add: reg_wf_def jtagReg_new_def reg_clear_def)

lemma addBit_wf: "addBit b r = Inr r' \<Longrightarrow> reg_wf r \<Longrightarrow> reg_wf r'"
  by (auto simp: addBit_def reg_wf_def Let_def split: if_splits)

lemma addBit_numBits: "addBit b r = Inr r' \<Longrightarrow> reg_wf r \<Longrightarrow> getNumBits r' = Suc (getNumBits r)"
  by (cases "m_v r" rule: rev_cases) (auto simp: addBit_def reg_wf_def getNumBits_def Let_def split: if_splits)

lemma addBit_fault: "addBit b r = Inl e \<longleftrightarrow> b \<and> 32 \<le> m_bitpos r \<and> e = Fault ''shift count exceeds width of int''"
  by (auto simp: addBit_def Let_def)

lemma bitpos_numBits: "reg_wf r \<Longrightarrow> m_bitpos r = getNumBits r mod 64"
  by (simp add: reg_wf_def getNumBits_def)

lemma addBits_append: "addBits (as @ bs) r = bindR (addBits as r) (addBits bs)"
  by (induction as arbitrary: r) (simp_all add: bindR_def split: sum.splits)

lemma addBits_wf: "addBits bs r = Inr r' \<Longrightarrow> reg_wf r \<Longrightarrow> reg_wf r' \<and> getNumBits r' = getNumBits r + length bs"
proof (induction bs arbitrary: r)
  case (Cons b bs)
  from Cons.prems obtain r1 where "addBit b r = Inr r1" "addBits bs r1 = Inr r'" by auto
  with Cons.IH [of r1] Cons.prems show ?case by (simp add: addBit_wf addBit_numBits)
qed simp

lemma addBits_fault_iff:
  "reg_wf r \<Longrightarrow> (\<exists>e. addBits bs r = Inl e) \<longleftrightarrow> (\<exists>i<length bs. bs ! i \<and> 32 \<le> (getNumBits r + i) mod 64)"
proof (induction bs arbitrary: r)
  case (Cons b bs)
  show ?case
  proof (cases "addBit b r")
    case (Inl e)
    then have "b" "32 \<le> getNumBits r mod 64"
      using Cons.prems by (auto simp: addBit_fault bitpos_numBits [symmetric])
    with Inl show ?thesis by (auto intro!: exI [of _ 0])
  next
    case (Inr r')
    have head: "\<not> (b \<and> 32 \<le> getNumBits r mod 64)"
      using Inr Cons.prems by (metis Inl_Inr_False addBit_fault bitpos_numBits)
    have "reg_wf r'" "getNumBits r' = Suc (getNumBits r)"
      using Inr Cons.prems by (simp_all add: addBit_wf addBit_numBits)
    with Cons.IH [of r'] Inr head show ?thesis
      by (auto simp: Ex_less_Suc2)
  qed
qed simp

text \<open>Below 31 bits the shifted \<^verbatim>\<open>int\<close> is not negative, and the word collects exactly the bits.\<close>

lemma bit_scast_one:
  assumes "p < 31"
  shows "bit (scast ((2 :: u32) ^ p) :: u64) n \<longleftrightarrow> n = p"
proof -
  have "bit (scast (push_bit p (1 :: u32)) :: u64) n \<longleftrightarrow> n = p"
    using assms by (auto simp: bit_signed_iff bit_simps simp del: push_bit_of_1)
  then show ?thesis by simp
qed

lemma addBits_small:
  assumes "length bs \<le> 31"
  shows "\<exists>w. addBits bs jtagReg_new = Inr \<lparr>m_bitpos = length bs, m_v = [w]\<rparr> \<and>
    (\<forall>i. bit w i \<longleftrightarrow> i < length bs \<and> bs ! i)"
  using assms
proof (induction bs rule: rev_induct)
  case Nil
  then show ?case by (simp add: jtagReg_new_def)
next
  case (snoc b bs)
  then obtain w where w: "addBits bs jtagReg_new = Inr \<lparr>m_bitpos = length bs, m_v = [w]\<rparr>"
    and bits: "\<And>i. bit w i \<longleftrightarrow> i < length bs \<and> bs ! i" by auto
  define w' where "w' = (if b then w OR (scast (push_bit (length bs) (1 :: u32)) :: u64) else w)"
  have "addBits (bs @ [b]) jtagReg_new = Inr \<lparr>m_bitpos = length (bs @ [b]), m_v = [w']\<rparr>"
    using snoc.prems w by (simp add: addBits_append addBit_def w'_def)
  moreover have "bit w' i \<longleftrightarrow> i < length (bs @ [b]) \<and> (bs @ [b]) ! i" for i
    using snoc.prems by (auto simp: w'_def bits bit_or_iff bit_scast_one nth_append less_Suc_eq)
  ultimately show ?case by blast
qed

lemma reg_clear_eq: "reg_clear r = jtagReg_new"
  by (simp add: reg_clear_def jtagReg_new_def)

subsection \<open>States\<close>

lemma advance_state:
  "advance tms tdo tdi c = Inr c' \<Longrightarrow> m_state c' = tap_next (m_state c) tms"
  unfolding advance_def
  by (cases "m_state c")
    (auto simp: changeState_def clearDR_def clearIR_def puts_stderr_def shiftDR_def shiftIR_def Let_def)

lemma advance_wf:
  "advance tms tdo tdi c = Inr c' \<Longrightarrow> ctx_wf c \<Longrightarrow> ctx_wf c'"
  unfolding advance_def
  by (cases "m_state c")
    (auto simp: ctx_wf_def changeState_def clearDR_def clearIR_def puts_stderr_def shiftDR_def shiftIR_def
      Let_def dest: addBit_wf)

lemma run_bits_append: "run_bits (as @ bs) c = bindR (run_bits as c) (run_bits bs)"
  by (induction as arbitrary: c) (simp_all add: bindR_def split: sum.splits prod.splits)

lemma run_bits_state: "run_bits ts c = Inr c' \<Longrightarrow> m_state c' = tap_run (map fst ts) (m_state c)"
proof (induction ts arbitrary: c)
  case (Cons t ts)
  then show ?case by (cases t) (auto simp: tap_run_def dest!: advance_state)
qed (simp add: tap_run_def)

lemma tap_run_simps [simp]:
  "tap_run [] s = s" "tap_run (t # ts) s = tap_run ts (tap_next s t)"
  by (simp_all add: tap_run_def)

lemma tap_run_reset: "5 \<le> n \<Longrightarrow> tap_run (replicate n True) s = TestLogicReset"
proof (induction n rule: nat_induct_at_least)
  case base
  show ?case by (cases s) (simp_all add: numeral_eq_Suc)
next
  case (Suc n)
  have "tap_run (replicate n True @ [True]) s = tap_next (tap_run (replicate n True) s) True"
    by (simp add: tap_run_def)
  with Suc.IH show ?case by (simp only: replicate_append_same [symmetric] replicate_Suc tap_next.simps if_True)
qed

subsection \<open>Buffers\<close>

lemma triples_Cons:
  "triples (a # as) (b # bs) (d # ds) =
     map (\<lambda>j. (bit a j, bit b j, bit d j)) [0..<8] @ triples as bs ds"
  by (simp add: triples_def bits_of_byte_def zip_map_map map_zip_map map_zip_map2 flip: zip_append)
    (simp add: zip_same_conv_map zip_map1 zip_map2 comp_def)

lemma pb_bits_run:
  "pb_bits None (a # as) (b # bs) (d # ds) i k nbits c =
     bindR (run_bits (map (\<lambda>j. (bit a j, bit b j, bit d j)) [i..<i + k]) c) (\<lambda>c'. Inr (False, nbits - k, c'))"
proof (induction k arbitrary: i nbits c)
  case (Suc k)
  have "[i..<i + Suc k] = i # [Suc i..<Suc i + k]" by (simp add: upt_conv_Cons)
  then show ?case using Suc.IH by (simp add: bindR_def split: sum.splits)
qed simp

lemma pb_bytes_run:
  assumes "nbits \<le> 8 * length as" and "length bs = length as" and "length ds = length as"
  shows "pb_bytes None nbits as bs ds c = bindR (run_bits (take nbits (triples as bs ds)) c) (\<lambda>c'. Inr (0, c'))"
  using assms
proof (induction as arbitrary: nbits bs ds c)
  case Nil
  then show ?case by (simp add: pb_bytes.simps)
next
  case (Cons a as)
  then obtain b bs' d ds' where bs: "bs = b # bs'" and ds: "ds = d # ds'"
    by (metis length_Suc_conv)
  have len: "length bs' = length as" "length ds' = length as" using Cons.prems by (simp_all add: bs ds)
  let ?m = "\<lambda>j. (bit a j, bit b j, bit d j)"
  have upt: "take nbits [0..<8] = [0..<min nbits 8]"
    by (cases "nbits \<le> 8") (simp_all add: min_def)
  have split: "take nbits (triples (a # as) bs ds) =
      map ?m [0..<min nbits 8] @ take (nbits - 8) (triples as bs' ds')"
    by (simp add: bs ds triples_Cons take_map upt)
  have IH: "pb_bytes None (nbits - min nbits 8) as bs' ds' c' =
      bindR (run_bits (take (nbits - 8) (triples as bs' ds')) c') (\<lambda>c'. Inr (0, c'))" for c'
  proof -
    have "nbits - min nbits 8 = nbits - 8" by simp
    then show ?thesis using Cons.IH [OF _ len, of "nbits - 8"] Cons.prems(1) by simp
  qed
  show ?case
  proof (cases "nbits = 0")
    case False
    then have "pb_bytes None nbits (a # as) bs ds c =
        bindR (run_bits (map ?m [0..<min nbits 8]) c) (pb_bytes None (nbits - min nbits 8) as bs' ds')"
      by (simp add: pb_bytes.simps [of None nbits] bs ds pb_bits_run bindR_def split: sum.splits)
    then show ?thesis
      by (simp add: split run_bits_append) (simp add: IH bindR_def split: sum.splits)
  qed (simp add: pb_bytes.simps)
qed

lemma pb_bits_until:
  "bindR (pb_bits (Some s) (a # as) (b # bs) (d # ds) i k (k + length ts) c)
       (\<lambda>(stop, n, c'). if stop then Inr (n, c') else run_until s ts c') =
     run_until s (map (\<lambda>j. (bit a j, bit b j, bit d j)) [i..<i + k] @ ts) c"
proof (induction k arbitrary: i c)
  case (Suc k)
  have upt: "[i..<i + Suc k] = i # [Suc i..<Suc i + k]" by (simp add: upt_conv_Cons)
  show ?case
  proof (cases "m_state c = s")
    case True
    then show ?thesis unfolding upt by (simp add: bindR_def)
  next
    case False
    then show ?thesis unfolding upt using Suc.IH [of "Suc i"]
      by (cases "advance (bit a i) (bit b i) (bit d i) c") (simp_all add: upt_rec del: upt_Suc)
  qed
qed simp

lemma pb_bytes_until:
  assumes "nbits \<le> 8 * length as" and "length bs = length as" and "length ds = length as"
  shows "pb_bytes (Some s) nbits as bs ds c = run_until s (take nbits (triples as bs ds)) c"
  using assms
proof (induction as arbitrary: nbits bs ds c)
  case Nil
  then show ?case by (simp add: pb_bytes.simps)
next
  case (Cons a as)
  then obtain b bs' d ds' where bs: "bs = b # bs'" and ds: "ds = d # ds'"
    by (metis length_Suc_conv)
  have len: "length bs' = length as" "length ds' = length as" using Cons.prems by (simp_all add: bs ds)
  let ?m = "\<lambda>j. (bit a j, bit b j, bit d j)"
  let ?ts = "take (nbits - 8) (triples as bs' ds')"
  have upt: "take nbits [0..<8] = [0..<0 + min nbits 8]"
    by (cases "nbits \<le> 8") (simp_all add: min_def)
  have split: "take nbits (triples (a # as) bs ds) = map ?m [0..<0 + min nbits 8] @ ?ts"
    by (simp only: bs ds triples_Cons take_append take_map upt length_map length_upt) simp
  have n: "min nbits 8 + length ?ts = nbits" using Cons.prems(1) len by (simp add: triples_def)
  show ?case
  proof (cases "nbits = 0")
    case False
    have "pb_bytes (Some s) nbits (a # as) bs ds c =
        bindR (pb_bits (Some s) (a # as) (b # bs') (d # ds') 0 (min nbits 8) nbits c)
          (\<lambda>(stop, n, c'). if stop then Inr (n, c') else pb_bytes (Some s) n as bs' ds' c')"
      using False by (simp add: pb_bytes.simps [of "Some s" nbits] bs ds bindR_def split: sum.splits bool.splits)
    also have "\<dots> = bindR (pb_bits (Some s) (a # as) (b # bs') (d # ds') 0 (min nbits 8) nbits c)
          (\<lambda>(stop, n, c'). if stop then Inr (n, c') else run_until s ?ts c')"
    proof -
      have "pb_bytes (Some s) m as bs' ds' c' = run_until s ?ts c'"
        if "pb_bits (Some s) (a # as) (b # bs') (d # ds') 0 (min nbits 8) nbits c = Inr (False, m, c')" for m c'
      proof -
        have "m = nbits - 8" using pb_bits_left [OF that] by simp
        then show ?thesis using Cons.IH [OF _ len, of "nbits - 8"] Cons.prems(1) by simp
      qed
      then show ?thesis by (auto simp: bindR_def split: sum.splits)
    qed
    also have "\<dots> = run_until s (take nbits (triples (a # as) bs ds)) c"
      unfolding split using pb_bits_until [of s a as b bs' d ds' 0 "min nbits 8" ?ts c, unfolded n] .
    finally show ?thesis .
  qed (simp add: pb_bytes.simps)
qed

text \<open>Where the target state is met is decided by the TMS bits alone.\<close>

lemma run_until_run:
  assumes "k \<le> length ts" and "\<And>j. j < k \<Longrightarrow> tap_run (map fst (take j ts)) (m_state c) \<noteq> s"
    and "k = length ts \<or> tap_run (map fst (take k ts)) (m_state c) = s"
  shows "run_until s ts c = bindR (run_bits (take k ts) c) (\<lambda>c'. Inr (length ts - k, c'))"
  using assms
proof (induction ts arbitrary: k c)
  case (Cons t ts)
  obtain tms tdo tdi where t: "t = (tms, tdo, tdi)" by (cases t)
  show ?case
  proof (cases k)
    case 0
    then show ?thesis using Cons.prems(3) by simp
  next
    case (Suc k')
    have ne: "m_state c \<noteq> s" using Cons.prems(2) [of 0] Suc by simp
    have "run_until s ts c' = bindR (run_bits (take k' ts) c') (\<lambda>c'. Inr (length ts - k', c'))"
      if "advance tms tdo tdi c = Inr c'" for c'
    proof (rule Cons.IH)
      note st = advance_state [OF that]
      show "tap_run (map fst (take j ts)) (m_state c') \<noteq> s" if "j < k'" for j
        using Cons.prems(2) [of "Suc j"] that Suc st by (simp add: t)
      show "k' = length ts \<or> tap_run (map fst (take k' ts)) (m_state c') = s" using Cons.prems(3) Suc st by (simp add: t)
    qed (use Cons.prems(1) Suc in simp)
    then show ?thesis using ne by (auto simp: t Suc bindR_def split: sum.splits)
  qed
qed simp

lemma map_fst_triples:
  assumes "length bs = length as" and "length ds = length as"
  shows "map fst (triples as bs ds) = bits_of_bytes as"
  using assms by (simp add: triples_def)

text \<open>With TMS high the sniffer leaves the shift states at once, so at most one bit is collected.\<close>

definition room_to_shift :: "jtagDumpCtx \<Rightarrow> bool" where
  "room_to_shift c \<longleftrightarrow>
     (m_state c = ShiftDR \<longrightarrow> m_bitpos (m_dro c) < 32 \<and> m_bitpos (m_dri c) < 32) \<and>
     (m_state c = ShiftIR \<longrightarrow> m_bitpos (m_iro c) < 32 \<and> m_bitpos (m_iri c) < 32)"

lemma addBit_room: "m_bitpos r < 32 \<Longrightarrow> \<exists>r'. addBit b r = Inr r'"
  by (cases "addBit b r") (auto simp: addBit_fault)

lemma advance_high:
  assumes "room_to_shift c"
  shows "\<exists>c'. advance True tdo tdi c = Inr c' \<and> room_to_shift c'"
proof -
  have "\<exists>c'. advance True tdo tdi c = Inr c'"
    using assms addBit_room [of "m_dro c" tdo] addBit_room [of "m_dri c" tdi] addBit_room [of "m_iro c" tdo] addBit_room [of "m_iri c" tdi]
    unfolding advance_def room_to_shift_def by (cases "m_state c") (auto simp: shiftDR_def shiftIR_def Let_def)
  then obtain c' where c': "advance True tdo tdi c = Inr c'" by blast
  have "tap_next s True \<noteq> ShiftDR" "tap_next s True \<noteq> ShiftIR" for s by (cases s; simp)+
  then have "room_to_shift c'" using advance_state [OF c'] by (simp add: room_to_shift_def)
  with c' show ?thesis by blast
qed

lemma run_high:
  "room_to_shift c \<Longrightarrow> list_all fst ts \<Longrightarrow> \<exists>c'. run_bits ts c = Inr c'"
proof (induction ts arbitrary: c)
  case (Cons t ts)
  obtain tdo tdi where t: "t = (True, tdo, tdi)" using Cons.prems(2) by (cases t) auto
  obtain c1 where "advance True tdo tdi c = Inr c1" "room_to_shift c1" using advance_high [OF Cons.prems(1)] by blast
  then show ?case using Cons.IH [of c1] Cons.prems(2) by (simp add: t)
qed simp

subsection \<open>Scans\<close>

lemma shift_DR_run:
  assumes "m_state c = ShiftDR" and "addBits (map fst ps) (m_dro c) = Inr ro"
    and "addBits (map snd ps) (m_dri c) = Inr ri"
  shows "run_bits (map (\<lambda>p. (False, p)) ps) c = Inr (c\<lparr>m_dro := ro, m_dri := ri\<rparr>)"
  using assms
proof (induction ps arbitrary: c)
  case (Cons p ps)
  obtain o' i' where p: "p = (o', i')" by (cases p)
  from Cons.prems obtain ro1 ri1 where step: "addBit o' (m_dro c) = Inr ro1" "addBit i' (m_dri c) = Inr ri1"
    and rest: "addBits (map fst ps) ro1 = Inr ro" "addBits (map snd ps) ri1 = Inr ri"
    by (auto simp: p)
  show ?case
    using Cons.IH [of "c\<lparr>m_dro := ro1, m_dri := ri1\<rparr>"] rest Cons.prems(1)
    by (simp add: p advance_def shiftDR_def step)
qed simp

lemma shift_DR_last:
  assumes "m_state c = ShiftDR" and "ps \<noteq> []" and "addBits (map fst ps) (m_dro c) = Inr ro"
    and "addBits (map snd ps) (m_dri c) = Inr ri"
  shows "run_bits (zip (replicate (length ps - 1) False @ [True]) ps) c =
    Inr (c\<lparr>m_dro := ro, m_dri := ri, m_state := Exit1DR\<rparr>)"
proof -
  obtain qs q where ps: "ps = qs @ [q]" using assms(2) by (cases ps rule: rev_cases) auto
  obtain o' i' where q: "q = (o', i')" by (cases q)
  obtain ro1 ri1 where r1: "addBits (map fst qs) (m_dro c) = Inr ro1" "addBits (map snd qs) (m_dri c) = Inr ri1"
    "addBit o' ro1 = Inr ro" "addBit i' ri1 = Inr ri"
    using assms(3,4) by (auto simp: ps q addBits_append)
  have "zip (replicate (length ps - 1) False @ [True]) ps = map (\<lambda>p. (False, p)) qs @ [(True, o', i')]"
    by (simp add: ps q zip_append zip_replicate1)
  with shift_DR_run [OF assms(1) r1(1,2)] r1(3,4) assms(1) show ?thesis
    by (simp add: run_bits_append advance_def shiftDR_def changeState_def)
qed

lemma run_dr_scan:
  assumes "m_state c = RunTestIdle" and "ps \<noteq> []" and "addBits (map fst ps) jtagReg_new = Inr ro"
    and "addBits (map snd ps) jtagReg_new = Inr ri"
  shows "run_bits (dr_scan ps) c =
    Inr (c\<lparr>m_dro := ro, m_dri := ri,
           m_stderr := m_stderr c @ report_DR (c\<lparr>m_dro := ro, m_dri := ri, m_state := UpdateDR\<rparr>)\<rparr>)"
proof -
  define c1 where "c1 = c\<lparr>m_dro := jtagReg_new, m_dri := jtagReg_new, m_state := ShiftDR\<rparr>"
  have pre: "run_bits [(True, False, False), (False, False, False), (False, False, False)] c = Inr c1"
    using assms(1) by (simp add: advance_def changeState_def clearDR_def c1_def reg_clear_eq Let_def)
  have mid: "run_bits (zip (replicate (length ps - 1) False @ [True]) ps) c1 =
      Inr (c1\<lparr>m_dro := ro, m_dri := ri, m_state := Exit1DR\<rparr>)"
    by (rule shift_DR_last) (use assms in \<open>simp_all add: c1_def\<close>)
  show ?thesis
    unfolding dr_scan_def run_bits_append pre bindR_simps mid
    using assms(1) by (simp add: advance_def changeState_def puts_stderr_def c1_def Let_def)
qed

section \<open>Properties\<close>

text \<open>
  C21.  The sniffer follows the TAP controller of IEEE 1149.1 over a whole buffer: \<^verbatim>\<open>processBuf\<close>
  without a target state is the bit-by-bit run over the first \<open>n\<close> bits of the three buffers, consumes
  all of them, and leaves the state that the TMS bits lead to.
\<close>

theorem processBuf_follows_tap:
  assumes "n \<le> 8 * length as" and "length bs = length as" and "length ds = length as"
  shows "processBuf (int n) as bs ds None c =
      bindR (run_bits (take n (triples as bs ds)) c) (\<lambda>c'. Inr (0, c')) \<and>
    (case processBuf (int n) as bs ds None c of
       Inl _ \<Rightarrow> True
     | Inr (m, c') \<Rightarrow> m = 0 \<and> m_state c' = tap_run (take n (bits_of_bytes as)) (m_state c))"
proof -
  have eq: "processBuf (int n) as bs ds None c =
      bindR (run_bits (take n (triples as bs ds)) c) (\<lambda>c'. Inr (0, c'))"
    using pb_bytes_run [OF assms] by (simp add: processBuf_def)
  have "map fst (take n (triples as bs ds)) = take n (bits_of_bytes as)"
    using assms by (simp add: triples_def take_map [symmetric])
  with eq show ?thesis
    by (cases "run_bits (take n (triples as bs ds)) c") (auto dest!: run_bits_state)
qed

theorem processBuf_follows_tap_witness:
  "processBuf (int 6) [0x1f] [0] [0] None jtagDumpCtx_new =
      bindR (run_bits (take 6 (triples [0x1f] [0] [0])) jtagDumpCtx_new) (\<lambda>c'. Inr (0, c')) \<and>
    (case processBuf (int 6) [0x1f] [0] [0] None jtagDumpCtx_new of
       Inl _ \<Rightarrow> True
     | Inr (m, c') \<Rightarrow> m = 0 \<and> m_state c' = tap_run (take 6 (bits_of_bytes [0x1f])) (m_state jtagDumpCtx_new))"
  by (rule processBuf_follows_tap) simp_all

text \<open>
  C23.  Five or more TCK periods with TMS high bring the sniffer into \<^verbatim>\<open>TestLogicReset\<close>: \<^verbatim>\<open>processBuf\<close> returns and has
  consumed all bits, from every state and whatever the data lines carry.  In the two shift states the registers
  that are being shifted must have their next position below 32, as the bit of the first period is still added to them.
\<close>

theorem five_tms_reset:
  assumes "room_to_shift c" and "5 \<le> n" and "n \<le> 8 * length as" and "length bs = length as" and "length ds = length as"
    and "take n (bits_of_bytes as) = replicate n True"
  shows "\<exists>c'. processBuf (int n) as bs ds None c = Inr (0, c') \<and> m_state c' = TestLogicReset"
proof -
  define ts where "ts = take n (triples as bs ds)"
  have tms: "map fst ts = replicate n True" using assms(6) map_fst_triples [OF assms(4,5)] by (simp add: ts_def take_map [symmetric])
  then have "list_all fst ts" by (metis in_set_replicate list_all_iff list.set_map imageI)
  then obtain c' where r: "run_bits ts c = Inr c'" using run_high [OF assms(1)] by blast
  have "m_state c' = TestLogicReset" using run_bits_state [OF r] tap_run_reset [OF assms(2)] tms by simp
  then show ?thesis using r pb_bytes_run [OF assms(3-5)] by (simp add: processBuf_def ts_def)
qed

theorem five_tms_reset_witness:
  "\<exists>c'. processBuf (int 5) [0xff] [0xff] [0] None (jtagDumpCtx_new\<lparr>m_state := ShiftDR, m_dro := \<lparr>m_bitpos = 31, m_v = [0]\<rparr>\<rparr>) = Inr (0, c') \<and>
    m_state c' = TestLogicReset"
  by (rule five_tms_reset)
    (simp_all add: room_to_shift_def jtagDumpCtx_new_def jtagReg_new_def bits_of_byte_def numeral_eq_Suc)

text \<open>
  C27.  A register accumulator that is filled from empty leaves the defined behaviour exactly when some
  set bit lands on position 32 or above of a 64-bit word: \<^verbatim>\<open>1<<bitpos_\<close> shifts an \<^verbatim>\<open>int\<close>.
\<close>

theorem addBits_undefined_iff:
  "(\<exists>e. addBits bs jtagReg_new = Inl e) \<longleftrightarrow> (\<exists>i<length bs. bs ! i \<and> 32 \<le> i mod 64)"
  using addBits_fault_iff [of jtagReg_new bs] by (simp add: jtagReg_new_def getNumBits_def reg_wf_def)

text \<open>
  C22.  A data-register scan of up to 31 bits from \<^verbatim>\<open>RunTestIdle\<close> returns to \<^verbatim>\<open>RunTestIdle\<close>,
  collects exactly the bits sent and received, counts them, and appends one report.
\<close>

theorem dr_scan_reported:
  assumes "m_state c = RunTestIdle" and "ps \<noteq> []" and "length ps \<le> 31"
  shows "\<exists>c' w r. run_bits (dr_scan ps) c = Inr c' \<and> m_state c' = RunTestIdle \<and>
    m_v (m_dro c') = [w] \<and> (\<forall>i. bit w i \<longleftrightarrow> i < length ps \<and> fst (ps ! i)) \<and>
    m_v (m_dri c') = [r] \<and> (\<forall>i. bit r i \<longleftrightarrow> i < length ps \<and> snd (ps ! i)) \<and>
    getDRLen c' = length ps \<and>
    m_stderr c' = m_stderr c @ report_DR (c'\<lparr>m_state := UpdateDR\<rparr>)"
proof -
  obtain w where w: "addBits (map fst ps) jtagReg_new = Inr \<lparr>m_bitpos = length ps, m_v = [w]\<rparr>"
    and wb: "\<forall>i. bit w i \<longleftrightarrow> i < length ps \<and> map fst ps ! i"
    using addBits_small [of "map fst ps"] assms(3) by auto
  obtain r where r: "addBits (map snd ps) jtagReg_new = Inr \<lparr>m_bitpos = length ps, m_v = [r]\<rparr>"
    and rb: "\<forall>i. bit r i \<longleftrightarrow> i < length ps \<and> map snd ps ! i"
    using addBits_small [of "map snd ps"] assms(3) by auto
  define c1 where "c1 = c\<lparr>m_dro := \<lparr>m_bitpos = length ps, m_v = [w]\<rparr>, m_dri := \<lparr>m_bitpos = length ps, m_v = [r]\<rparr>\<rparr>"
  define c' where "c' = c1\<lparr>m_stderr := m_stderr c @ report_DR (c1\<lparr>m_state := UpdateDR\<rparr>)\<rparr>"
  have run: "run_bits (dr_scan ps) c = Inr c'"
    using run_dr_scan [OF assms(1,2) w r] by (simp add: c'_def c1_def)
  have "report_DR (c1\<lparr>m_state := UpdateDR\<rparr>) = report_DR (c'\<lparr>m_state := UpdateDR\<rparr>)"
    by (simp add: c'_def report_DR_def getDRLen_def)
  then have err: "m_stderr c' = m_stderr c @ report_DR (c'\<lparr>m_state := UpdateDR\<rparr>)" by (simp add: c'_def)
  have "m_state c' = RunTestIdle" "m_v (m_dro c') = [w]" "m_v (m_dri c') = [r]" "getDRLen c' = length ps"
    using assms(1) by (simp_all add: c'_def c1_def getDRLen_def getNumBits_def)
  moreover have "\<forall>i. bit w i \<longleftrightarrow> i < length ps \<and> fst (ps ! i)" using wb by (metis nth_map)
  moreover have "\<forall>i. bit r i \<longleftrightarrow> i < length ps \<and> snd (ps ! i)" using rb by (metis nth_map)
  ultimately show ?thesis using run err
    by - (rule exI [of _ c'], rule exI [of _ w], rule exI [of _ r], intro conjI, assumption+)
qed

theorem dr_scan_reported_witness:
  "\<exists>c' w r. run_bits (dr_scan [(True, False), (False, True)]) (jtagDumpCtx_new\<lparr>m_state := RunTestIdle\<rparr>) = Inr c' \<and>
    m_state c' = RunTestIdle \<and>
    m_v (m_dro c') = [w] \<and> (\<forall>i. bit w i \<longleftrightarrow> i < length [(True, False), (False, True)] \<and> fst ([(True, False), (False, True)] ! i)) \<and>
    m_v (m_dri c') = [r] \<and> (\<forall>i. bit r i \<longleftrightarrow> i < length [(True, False), (False, True)] \<and> snd ([(True, False), (False, True)] ! i)) \<and>
    getDRLen c' = length [(True, False), (False, True)] \<and>
    m_stderr c' = m_stderr (jtagDumpCtx_new\<lparr>m_state := RunTestIdle\<rparr>) @ report_DR (c'\<lparr>m_state := UpdateDR\<rparr>)"
  by (rule dr_scan_reported) simp_all

text \<open>
  C24.  With a target state, \<^verbatim>\<open>processBuf\<close> stops at the first bit before which the TAP controller is in that state:
  it has processed exactly the \<open>k\<close> bits before it, and returns the number of bits left.  When the state is not met before
  the last bit, all bits are processed and none is left.
\<close>

theorem processBuf_stops_in_target:
  assumes "n \<le> 8 * length as" and "length bs = length as" and "length ds = length as" and "k \<le> n"
    and "\<And>j. j < k \<Longrightarrow> tap_run (take j (bits_of_bytes as)) (m_state c) \<noteq> s"
    and "k = n \<or> tap_run (take k (bits_of_bytes as)) (m_state c) = s"
  shows "processBuf (int n) as bs ds (Some s) c = bindR (run_bits (take k (triples as bs ds)) c) (\<lambda>c'. Inr (n - k, c'))"
proof -
  define ts where "ts = take n (triples as bs ds)"
  have len: "length ts = n" using assms(1-3) by (simp add: ts_def triples_def)
  have fst: "map fst (take j ts) = take j (bits_of_bytes as)" if "j \<le> n" for j
    using that map_fst_triples [OF assms(2,3)] by (simp add: ts_def take_map [symmetric] min_def)
  have "run_until s ts c = bindR (run_bits (take k ts) c) (\<lambda>c'. Inr (length ts - k, c'))"
    by (rule run_until_run) (use assms(4-6) len fst in auto)
  then show ?thesis using pb_bytes_until [OF assms(1-3)] assms(4) len by (simp add: processBuf_def ts_def min_def)
qed

theorem processBuf_stops_in_target_witness:
  "processBuf (int 8) [6] [0] [0] (Some SelectIRScan) jtagDumpCtx_new =
    bindR (run_bits (take 3 (triples [6] [0] [0])) jtagDumpCtx_new) (\<lambda>c'. Inr (8 - 3, c'))"
proof (rule processBuf_stops_in_target)
  fix j :: nat assume "j < 3"
  then consider "j = 0" | "j = 1" | "j = 2" by linarith
  then show "tap_run (take j (bits_of_bytes [6])) (m_state jtagDumpCtx_new) \<noteq> SelectIRScan"
    by cases (simp_all add: jtagDumpCtx_new_def bits_of_byte_def numeral_eq_Suc)
qed (simp_all add: jtagDumpCtx_new_def bits_of_byte_def numeral_eq_Suc)

end
