(* ===== verification/Xvc_Driver.thy ===== *)
theory Xvc_Driver
  imports Xvc_Header Jtag_Dump
begin

text \<open>
  The driver classes of \<^verbatim>\<open>xvcDriver.h\<close>/\<^verbatim>\<open>xvcSrv.cc\<close>: the abstract \<^verbatim>\<open>JtagDriver\<close> and
  \<^verbatim>\<open>JtagDriverAxisToJtag\<close>, which speaks the stream protocol over a virtual method \<^verbatim>\<open>xfer\<close>.

  A class is a record and a subclass an extension of the record of its base class, so the methods of a
  base class work on the scheme of its record.  The virtual method \<^verbatim>\<open>xfer\<close> is an argument of the
  methods that call it.  It gets the transmit buffer, the number of bytes to send, the header buffer
  with its size, the receive buffer with its size and the object, and returns the number of payload
  bytes or an exception, the two buffers and the object.  A pointer to a buffer is the list of the
  bytes from it on; the null pointer passed with size zero is the empty list.  Text printed for
  debugging is not part of the state.
\<close>

section \<open>JtagDriver\<close>

record jtagDriver =
  m_debug :: u32
  m_drop :: u32
  m_drEn :: bool
  m_snif :: jtagDumpCtx

definition jtagDriver_new :: "u32 \<Rightarrow> jtagDriver" where
  "jtagDriver_new debug = \<lparr>m_debug = debug, m_drop = 0, m_drEn = False, m_snif = jtagDumpCtx_new\<rparr>"

definition setDebug :: "u32 \<Rightarrow> 'a jtagDriver_scheme \<Rightarrow> 'a jtagDriver_scheme" where
  "setDebug debug d = d\<lparr>m_debug := debug\<rparr>"

definition setTestMode :: "u32 \<Rightarrow> 'a jtagDriver_scheme \<Rightarrow> 'a jtagDriver_scheme" where
  "setTestMode flags d = d\<lparr>m_drEn := (flags AND 1 \<noteq> 0)\<rparr>"

definition getDebug :: "'a jtagDriver_scheme \<Rightarrow> u32" where
  "getDebug d = m_debug d AND 0xff"

definition getSniff :: "'a jtagDriver_scheme \<Rightarrow> bool" where
  "getSniff d = (m_debug d AND 0x100 \<noteq> 0)"

section \<open>JtagDriverAxisToJtag\<close>

definition hdBufMax :: nat where
  "hdBufMax = 16"

record axisToJtag = jtagDriver +
  m_host :: platform
  m_wordSize :: nat
  m_memDepth :: nat
  m_txBuf :: "u8 list"
  m_hdBuf :: "u8 list"
  m_bufSz :: nat
  m_retry :: nat
  m_xid :: u8
  m_periodNs :: u32

text \<open>
  The constructor.  The member \<^verbatim>\<open>xid_\<close> is not initialised there: its first value is an argument.
  \<^verbatim>\<open>txBuf_\<close> is reserved but never written before use: it is raw memory.
\<close>

definition axisToJtag_new :: "platform \<Rightarrow> u8 \<Rightarrow> u32 \<Rightarrow> axisToJtag" where
  "axisToJtag_new host xid0 debug =
     jtagDriver.extend (jtagDriver_new debug)
       (axisToJtag.fields host 4 1 (alloc_raw host 2048) (replicate hdBufMax 0) 2048 5 xid0 UNKNOWN_PERIOD)"

type_synonym 'd xfer_fn =
  "u8 list \<Rightarrow> nat \<Rightarrow> u8 list \<Rightarrow> nat \<Rightarrow> u8 list \<Rightarrow> nat \<Rightarrow> 'd \<Rightarrow> (int res \<times> u8 list \<times> u8 list) \<times> 'd"

definition getWordSize :: "'a axisToJtag_scheme \<Rightarrow> nat" where
  "getWordSize d = m_wordSize d"

definition getMemDepth :: "'a axisToJtag_scheme \<Rightarrow> nat" where
  "getMemDepth d = m_memDepth d"

definition getPeriodNs :: "'a axisToJtag_scheme \<Rightarrow> u32" where
  "getPeriodNs d = m_periodNs d"

text \<open>The message of the \<^verbatim>\<open>ProtoErr\<close> for an error reply.\<close>

definition err_reply_msg :: "u32 \<Rightarrow> string" where
  "err_reply_msg e =
     ''Got error response from server -- '' @
     (case getMsg e of Some msg \<Rightarrow> msg | None \<Rightarrow> ''error '' @ dec_string (unat e))"

text \<open>
  The retry loop of \<^verbatim>\<open>xferRel\<close>; the first argument after \<open>xf\<close> counts the attempts left.  A
  \<^verbatim>\<open>TimeoutErr\<close> and a reply with a foreign transaction id are retried, every other exception
  leaves the loop.  The header of the reply is returned beside the number of payload bytes.
\<close>

primrec xferRel_loop :: "'a axisToJtag_scheme xfer_fn \<Rightarrow> nat \<Rightarrow> u8 \<Rightarrow> u8 list \<Rightarrow> nat \<Rightarrow> nat \<Rightarrow> u8 list \<Rightarrow>
    'a axisToJtag_scheme \<Rightarrow> ((int \<times> u32) res \<times> u8 list) \<times> 'a axisToJtag_scheme" where
  "xferRel_loop xf 0 xid txb txBytes sizeBytes rxb d = ((Inl (TimeoutErr []), rxb), d)"
| "xferRel_loop xf (Suc n) xid txb txBytes sizeBytes rxb d =
     (case xf txb txBytes (m_hdBuf d) (getWordSize d) rxb sizeBytes d of
        ((r, hb, rxb'), d') \<Rightarrow>
          let d1 = d'\<lparr>m_hdBuf := hb\<rparr> in
          (case r of
             Inl (TimeoutErr _) \<Rightarrow> xferRel_loop xf n xid txb txBytes sizeBytes rxb' d1
           | Inl e \<Rightarrow> ((Inl e, rxb'), d1)
           | Inr got \<Rightarrow>
               (case getHdr (isLE (m_host d1)) hb of
                  Inl e \<Rightarrow> ((Inl e, rxb'), d1)
                | Inr hdr \<Rightarrow>
                    if getErr hdr \<noteq> 0 then ((Inl (ProtoErr (err_reply_msg (getErr hdr))), rxb'), d1)
                    else if xid = XID_ANY \<or> xid = getXid hdr then ((Inr (got, hdr), rxb'), d1)
                    else xferRel_loop xf n xid txb txBytes sizeBytes rxb' d1)))"

declare xferRel_loop.simps(2) [simp del]

definition xferRel :: "'a axisToJtag_scheme xfer_fn \<Rightarrow> u8 list \<Rightarrow> nat \<Rightarrow> u8 list \<Rightarrow> nat \<Rightarrow>
    'a axisToJtag_scheme \<Rightarrow> ((int \<times> u32) res \<times> u8 list) \<times> 'a axisToJtag_scheme" where
  "xferRel xf txb txBytes rxb sizeBytes d =
     (case getHdr (isLE (m_host d)) txb of
        Inl e \<Rightarrow> ((Inl e, rxb), d)
      | Inr h \<Rightarrow> xferRel_loop xf (m_retry d + 1) (getXid h) txb txBytes sizeBytes rxb d)"

text \<open>
  \<^verbatim>\<open>query()\<close>.  A failing word size check leaves the invalid word size in the object, as in the code.
  A larger \<^verbatim>\<open>reserve\<close> of the empty vector \<^verbatim>\<open>txBuf_\<close> yields fresh raw memory.
\<close>

definition query_update :: "u32 \<Rightarrow> 'a axisToJtag_scheme \<Rightarrow> nat res \<times> 'a axisToJtag_scheme" where
  "query_update hdr d =
     (let d1 = d\<lparr>m_wordSize := wordSize hdr\<rparr> in
      if m_wordSize d1 < 4 then (Inl (ProtoErr ''Received invalid word size''), d1)
      else
        let d2 = d1\<lparr>m_memDepth := memDepth hdr, m_periodNs := cvtPerNs hdr\<rparr>;
            d3 = d2\<lparr>m_retry := (if 0 = m_memDepth d2 then 0 else 5)\<rparr>;
            siz = c_unsigned ((2 * m_memDepth d3 + 1) * m_wordSize d3);
            d4 = (if m_bufSz d3 < siz
                  then d3\<lparr>m_bufSz := siz, m_txBuf := alloc_raw (m_host d3) siz\<rparr> else d3)
        in (Inr (c_unsigned (m_memDepth d4 * m_wordSize d4)), d4))"

definition query :: "'a axisToJtag_scheme xfer_fn \<Rightarrow> 'a axisToJtag_scheme \<Rightarrow>
    nat res \<times> 'a axisToJtag_scheme" where
  "query xf d =
     (case setHdr (isLE (m_host d)) (getWordSize d) (m_txBuf d) mkQuery of
        Inl e \<Rightarrow> (Inl e, d)
      | Inr tx \<Rightarrow>
          (case xferRel xf tx (getWordSize d) [] 0 (d\<lparr>m_txBuf := tx\<rparr>) of
             ((Inl e, _), d2) \<Rightarrow> (Inl e, d2)
           | ((Inr (_, hdr), _), d2) \<Rightarrow> query_update hdr d2))"

definition init_drv :: "'a axisToJtag_scheme xfer_fn \<Rightarrow> 'a axisToJtag_scheme \<Rightarrow>
    unit res \<times> 'a axisToJtag_scheme" where
  "init_drv xf d = (case query xf d of (r, d') \<Rightarrow> (bindR r (\<lambda>_. Inr ()), d'))"

definition setPeriodNs :: "u32 \<Rightarrow> 'a axisToJtag_scheme \<Rightarrow> u32" where
  "setPeriodNs requestedPeriod d =
     (let currentPeriod = getPeriodNs d
      in if 0 = requestedPeriod then currentPeriod
         else if UNKNOWN_PERIOD = currentPeriod then requestedPeriod else currentPeriod)"

text \<open>
  The reformatting loop of \<^verbatim>\<open>sendVectors\<close>: the first argument counts the whole words left, \<open>idx\<close>
  and \<open>wp\<close> are the source offset and the write position.
\<close>

primrec pack_words :: "nat \<Rightarrow> nat \<Rightarrow> u8 list \<Rightarrow> u8 list \<Rightarrow> nat \<Rightarrow> nat \<Rightarrow> u8 list \<Rightarrow> u8 list res" where
  "pack_words 0 wsz tms tdi idx wp tx = Inr tx"
| "pack_words (Suc n) wsz tms tdi idx wp tx =
     bindR (rd_mem tms idx wsz) (\<lambda>a. bindR (wr_mem tx wp a) (\<lambda>tx1.
     bindR (rd_mem tdi idx wsz) (\<lambda>b. bindR (wr_mem tx1 (wp + wsz) b) (\<lambda>tx2.
       pack_words n wsz tms tdi (idx + wsz) (wp + wsz + wsz) tx2))))"

definition pack_rest :: "nat \<Rightarrow> nat \<Rightarrow> u8 list \<Rightarrow> u8 list \<Rightarrow> nat \<Rightarrow> nat \<Rightarrow> u8 list \<Rightarrow> u8 list res" where
  "pack_rest bytesLeft wsz tms tdi idx wp tx =
     (if bytesLeft \<noteq> 0 then
        bindR (rd_mem tms idx bytesLeft) (\<lambda>a. bindR (wr_mem tx wp a) (\<lambda>tx1.
        bindR (rd_mem tdi idx bytesLeft) (\<lambda>b. wr_mem tx1 (wp + wsz) b)))
      else Inr tx)"

text \<open>The message in the transmit buffer: header, whole words, the rest.\<close>

definition pack_msg :: "bool \<Rightarrow> nat \<Rightarrow> nat \<Rightarrow> nat \<Rightarrow> nat \<Rightarrow> u32 \<Rightarrow> u8 list \<Rightarrow> u8 list \<Rightarrow> u8 list \<Rightarrow> u8 list res" where
  "pack_msg le wsz wholeWords wholeWordBytes bytesLeft hdr tms tdi txBuf =
     bindR (setHdr le wsz txBuf hdr) (\<lambda>tx1.
     bindR (pack_words wholeWords wsz tms tdi 0 wsz tx1) (\<lambda>tx2.
       pack_rest bytesLeft wsz tms tdi wholeWordBytes (wsz + 2 * wholeWordBytes) tx2))"

text \<open>The end of \<^verbatim>\<open>sendVectors\<close>: the sniffer sees the vectors and the received TDO.\<close>

definition send_sniff :: "nat \<Rightarrow> u8 list \<Rightarrow> u8 list \<Rightarrow> ((int \<times> u32) res \<times> u8 list) \<times> 'a axisToJtag_scheme \<Rightarrow>
    (unit res \<times> u8 list) \<times> 'a axisToJtag_scheme" where
  "send_sniff bits tms tdi result =
     (case result of
        ((Inl e, tdo), d) \<Rightarrow> ((Inl e, tdo), d)
      | ((Inr _, tdo), d) \<Rightarrow>
          if getSniff d then
            (case processBuf (c_int bits) tms tdi tdo None (m_snif d) of
               Inl e \<Rightarrow> ((Inl e, tdo), d)
             | Inr (_, s) \<Rightarrow> ((Inr (), tdo), d\<lparr>m_snif := s\<rparr>))
          else ((Inr (), tdo), d))"

definition sendVectors :: "'a axisToJtag_scheme xfer_fn \<Rightarrow> nat \<Rightarrow> u8 list \<Rightarrow> u8 list \<Rightarrow> u8 list \<Rightarrow>
    'a axisToJtag_scheme \<Rightarrow> (unit res \<times> u8 list) \<times> 'a axisToJtag_scheme" where
  "sendVectors xf bits tms tdi tdo d =
     (let wsz = getWordSize d;
          bytesCeil = (bits + 8 - 1) div 8;
          wholeWords = c_unsigned (bytesCeil div wsz);
          wholeWordBytes = c_unsigned (wholeWords * wsz);
          wordCeilBytes = c_unsigned ((bytesCeil + wsz - 1) div wsz * wsz);
          bytesLeft = c_unsigned (bytesCeil - wholeWordBytes);
          bytesTot = c_unsigned (wsz + 2 * wordCeilBytes);
          (hdr, xid') = mkShift (word_of_nat bits) (m_xid d);
          d1 = d\<lparr>m_xid := xid'\<rparr>
      in case
           pack_msg (isLE (m_host d1)) wsz wholeWords wholeWordBytes bytesLeft hdr tms tdi (m_txBuf d1)
         of
           Inl e \<Rightarrow> ((Inl e, tdo), d1)
         | Inr tx \<Rightarrow>
             send_sniff bits tms tdi (xferRel xf tx bytesTot tdo bytesCeil (d1\<lparr>m_txBuf := tx\<rparr>)))"

text \<open>\<^verbatim>\<open>dumpInfo\<close> prints to a file; the argument \<open>maxVec\<close> is the result of \<^verbatim>\<open>getMaxVectorSize()\<close>.\<close>

definition dumpInfo :: "nat \<Rightarrow> 'a axisToJtag_scheme \<Rightarrow> string" where
  "dumpInfo maxVec d =
     ''Word size:                  '' @ dec_string (getWordSize d) @ [char_of (10 :: nat)] @
     ''Target Memory Depth (bytes) '' @ dec_string (c_unsigned (getWordSize d * getMemDepth d)) @ [char_of (10 :: nat)] @
     ''Max. Vector Length  (bytes) '' @ dec_string maxVec @ [char_of (10 :: nat)] @
     ''TCK Period             (ns) '' @ dec_string (unat (getPeriodNs d)) @ [char_of (10 :: nat)]"

section \<open>SockSd\<close>

text \<open>
  The socket helper.  The results of the system calls that set up a socket are given by the
  environment, for \<^verbatim>\<open>bind\<close> as a function of the port; a \<^verbatim>\<open>SockSd\<close> is its descriptor.
  \<open>bind_local\<close> is what the constructors of \<^verbatim>\<open>XvcServer\<close> and \<^verbatim>\<open>UdpLoopBack\<close> do with it first.
\<close>

record sock_env =
  sys_socket :: int
  sys_setsockopt :: int
  sys_bind :: "16 word \<Rightarrow> int"
  sys_listen :: int

definition sockSd_new :: "sock_env \<Rightarrow> int res" where
  "sockSd_new env = (if sys_socket env < 0 then Inl (SysErr ''Unable to create Socket'') else Inr (sys_socket env))"

definition bind_local :: "sock_env \<Rightarrow> 16 word \<Rightarrow> unit res" where
  "bind_local env port =
     (if sys_setsockopt env \<noteq> 0 then Inl (SysErr ''setsockopt(SO_REUSEADDR) failed'')
      else if sys_bind env port \<noteq> 0 then Inl (SysErr ''Unable to bind Stream socket to local address'')
      else Inr ())"

section \<open>Interface seen by a client\<close>

text \<open>
  The virtual methods of \<^verbatim>\<open>JtagDriver\<close> that the server calls, as a record of operations, and its
  instance for a subclass of \<^verbatim>\<open>JtagDriverAxisToJtag\<close>.
\<close>

record 'd jtag_ops =
  op_query :: "'d \<Rightarrow> nat res \<times> 'd"
  op_getMaxVectorSize :: "'d \<Rightarrow> nat"
  op_setPeriodNs :: "u32 \<Rightarrow> 'd \<Rightarrow> u32"
  op_sendVectors :: "nat \<Rightarrow> u8 list \<Rightarrow> u8 list \<Rightarrow> u8 list \<Rightarrow> 'd \<Rightarrow> (unit res \<times> u8 list) \<times> 'd"

definition axisToJtag_ops :: "'a axisToJtag_scheme xfer_fn \<Rightarrow> ('a axisToJtag_scheme \<Rightarrow> nat) \<Rightarrow>
    'a axisToJtag_scheme jtag_ops" where
  "axisToJtag_ops xf maxVec =
     \<lparr>op_query = query xf, op_getMaxVectorSize = maxVec, op_setPeriodNs = setPeriodNs,
      op_sendVectors = sendVectors xf\<rparr>"

section \<open>Specification\<close>

text \<open>Positions in a message of a byte of the TMS vector and of the TDI vector, for word size \<open>w\<close>.\<close>

definition tms_pos :: "nat \<Rightarrow> nat \<Rightarrow> nat" where
  "tms_pos w j = w + 2 * w * (j div w) + j mod w"

definition tdi_pos :: "nat \<Rightarrow> nat \<Rightarrow> nat" where
  "tdi_pos w j = w + 2 * w * (j div w) + w + j mod w"

text \<open>The size of a message that carries vectors of \<open>n\<close> bytes.\<close>

definition msg_size :: "nat \<Rightarrow> nat \<Rightarrow> nat" where
  "msg_size w n = w + 2 * ((n + w - 1) div w * w)"

text \<open>\<open>tx\<close> is a shift message with header \<open>h\<close> for the first \<open>n\<close> bytes of the two vectors.\<close>

definition shift_msg :: "nat \<Rightarrow> u32 \<Rightarrow> nat \<Rightarrow> u8 list \<Rightarrow> u8 list \<Rightarrow> u8 list \<Rightarrow> bool" where
  "shift_msg w h n tms tdi tx \<longleftrightarrow>
     msg_size w n \<le> length tx \<and> take w tx = le_bytes32 h @ replicate (w - 4) 0 \<and>
     (\<forall>j<n. tx ! tms_pos w j = tms ! j \<and> tx ! tdi_pos w j = tdi ! j)"

text \<open>
  One attempt of \<^verbatim>\<open>xferRel\<close> on its own: what it decides, and the buffer and the object it leaves.
\<close>

datatype outcome = Retry | Fail xerr | Done int u32

definition outcome_of :: "u8 \<Rightarrow> bool \<Rightarrow> int res \<Rightarrow> u8 list \<Rightarrow> outcome" where
  "outcome_of xid le r hb =
     (case r of
        Inl (TimeoutErr _) \<Rightarrow> Retry
      | Inl e \<Rightarrow> Fail e
      | Inr got \<Rightarrow>
          (case getHdr le hb of
             Inl e \<Rightarrow> Fail e
           | Inr h \<Rightarrow> if getErr h \<noteq> 0 then Fail (ProtoErr (err_reply_msg (getErr h)))
                      else if xid = XID_ANY \<or> xid = getXid h then Done got h else Retry))"

definition attempt :: "'a axisToJtag_scheme xfer_fn \<Rightarrow> u8 \<Rightarrow> u8 list \<Rightarrow> nat \<Rightarrow> nat \<Rightarrow>
    u8 list \<times> 'a axisToJtag_scheme \<Rightarrow> outcome \<times> u8 list \<times> 'a axisToJtag_scheme" where
  "attempt xf xid txb txBytes sz s =
     (case s of (rxb, d) \<Rightarrow>
        case xf txb txBytes (m_hdBuf d) (getWordSize d) rxb sz d of
          ((r, hb, rxb'), d') \<Rightarrow> (outcome_of xid (isLE (m_host d')) r hb, rxb', d'\<lparr>m_hdBuf := hb\<rparr>))"

text \<open>The buffer and the object after \<open>k\<close> attempts, and the decision of attempt number \<open>k\<close>.\<close>

definition after_attempts :: "'a axisToJtag_scheme xfer_fn \<Rightarrow> u8 \<Rightarrow> u8 list \<Rightarrow> nat \<Rightarrow> nat \<Rightarrow>
    u8 list \<times> 'a axisToJtag_scheme \<Rightarrow> nat \<Rightarrow> u8 list \<times> 'a axisToJtag_scheme" where
  "after_attempts xf xid txb txBytes sz s k = ((\<lambda>s. snd (attempt xf xid txb txBytes sz s)) ^^ k) s"

definition decision :: "'a axisToJtag_scheme xfer_fn \<Rightarrow> u8 \<Rightarrow> u8 list \<Rightarrow> nat \<Rightarrow> nat \<Rightarrow>
    u8 list \<times> 'a axisToJtag_scheme \<Rightarrow> nat \<Rightarrow> outcome" where
  "decision xf xid txb txBytes sz s k =
     fst (attempt xf xid txb txBytes sz (after_attempts xf xid txb txBytes sz s k))"

text \<open>What a transport may not touch: the private members of the base class.\<close>

definition drv_frame :: "'a axisToJtag_scheme \<Rightarrow>
    u32 \<times> jtagDumpCtx \<times> platform \<times> nat \<times> nat \<times> u8 list \<times> nat \<times> nat \<times> u8 \<times> u32" where
  "drv_frame d =
     (m_debug d, m_snif d, m_host d, m_wordSize d, m_memDepth d, m_txBuf d, m_bufSz d, m_retry d, m_xid d, m_periodNs d)"

text \<open>
  The invariant of the class: the buffers have the sizes the members say, the word size is one the
  protocol knows, and the transmit buffer holds a header and two vectors of the target's memory depth.
\<close>

definition drv_wf :: "'a axisToJtag_scheme \<Rightarrow> bool" where
  "drv_wf d \<longleftrightarrow>
     length (m_txBuf d) = m_bufSz d \<and> length (m_hdBuf d) = hdBufMax \<and>
     4 \<le> m_wordSize d \<and> m_wordSize d \<le> 16 \<and> m_memDepth d < 2 ^ 16 \<and> 2048 \<le> m_bufSz d \<and>
     (2 * m_memDepth d + 1) * m_wordSize d \<le> m_bufSz d"

text \<open>
  The states of a driver object that the server can reach: as it is made, and after any sequence of the
  operations that change it, whether they succeed or throw.
\<close>

inductive driver_reach :: "('d \<Rightarrow> bool) \<Rightarrow> 'd jtag_ops \<Rightarrow> ('d, unit) sm \<Rightarrow> 'd \<Rightarrow> bool"
  for made ops init where
  reach_new: "made d \<Longrightarrow> driver_reach made ops init d"
| reach_init: "driver_reach made ops init d \<Longrightarrow> init d = (r, d') \<Longrightarrow> driver_reach made ops init d'"
| reach_query: "driver_reach made ops init d \<Longrightarrow> op_query ops d = (q, d') \<Longrightarrow> driver_reach made ops init d'"
| reach_send: "driver_reach made ops init d \<Longrightarrow> op_sendVectors ops bits tms tdi tdo d = (t, d') \<Longrightarrow> driver_reach made ops init d'"

text \<open>For concrete runs: a little-endian platform, a fresh driver, and a target that never answers.\<close>

definition le_platform :: platform where
  "le_platform = \<lparr>isLE = True, raw_mem = \<lambda>_. 0\<rparr>"

definition fresh_drv :: axisToJtag where
  "fresh_drv = axisToJtag_new le_platform 7 0"

definition silent_xfer :: "axisToJtag xfer_fn" where
  "silent_xfer txb n hb hs rxb sz d = ((Inl (TimeoutErr []), hb, rxb), d)"

section \<open>Lemmas\<close>

subsection \<open>Packing\<close>

lemma pos_arith:
  assumes "0 < (w :: nat)" and "j < n * w"
  shows "2 * w * (j div w) + j mod w + w < 2 * w * n"
proof -
  have "j div w < n" using assms by (simp add: less_mult_imp_div_less)
  then have "w * Suc (j div w) \<le> w * n" by (intro mult_le_mono2) simp
  then have "2 * w * (j div w) + 2 * w \<le> 2 * w * n" by simp
  moreover have "j mod w < w" using assms(1) by simp
  ultimately show ?thesis by linarith
qed

lemma pack_words_spec:
  assumes "0 < w" and "idx + n * w \<le> length tms" and "idx + n * w \<le> length tdi"
    and "wp + 2 * w * n \<le> length tx"
  shows "\<exists>tx'. pack_words n w tms tdi idx wp tx = Inr tx' \<and> length tx' = length tx \<and>
    (\<forall>k<length tx. k < wp \<or> wp + 2 * w * n \<le> k \<longrightarrow> tx' ! k = tx ! k) \<and>
    (\<forall>j<n * w. tx' ! (wp + 2 * w * (j div w) + j mod w) = tms ! (idx + j) \<and>
               tx' ! (wp + 2 * w * (j div w) + w + j mod w) = tdi ! (idx + j))"
  using assms(2-4)
proof (induction n arbitrary: idx wp tx)
  case (Suc n)
  have len: "wp + w \<le> length tx" "wp + w + w \<le> length tx" "idx + w \<le> length tms" "idx + w \<le> length tdi"
    using Suc.prems by simp_all
  define tx1 where "tx1 = take wp tx @ take w (drop idx tms) @ drop (wp + w) tx"
  define tx2 where "tx2 = take (wp + w) tx1 @ take w (drop idx tdi) @ drop (wp + w + w) tx1"
  have wr: "wr_mem tx wp (take w (drop idx tms)) = Inr tx1" "length tx1 = length tx"
    "wr_mem tx1 (wp + w) (take w (drop idx tdi)) = Inr tx2" "length tx2 = length tx"
    using len by (simp_all add: tx1_def tx2_def mem_simps)
  have step: "pack_words (Suc n) w tms tdi idx wp tx = pack_words n w tms tdi (idx + w) (wp + w + w) tx2"
    using len wr by (simp add: rd_mem_ok)
  have tx2_nth: "tx2 ! k = (if wp \<le> k \<and> k < wp + w then tms ! (idx + (k - wp))
      else if wp + w \<le> k \<and> k < wp + 2 * w then tdi ! (idx + (k - (wp + w))) else tx ! k)"
    if "k < length tx" for k
    using that len wr_mem_nth [OF wr(1), of k] wr_mem_nth [OF wr(3), of k] wr(2) by auto
  obtain tx' where tx': "pack_words n w tms tdi (idx + w) (wp + w + w) tx2 = Inr tx'" "length tx' = length tx2"
    and frame: "\<forall>k<length tx2. k < wp + w + w \<or> wp + w + w + 2 * w * n \<le> k \<longrightarrow> tx' ! k = tx2 ! k"
    and words: "\<forall>j<n * w. tx' ! (wp + w + w + 2 * w * (j div w) + j mod w) = tms ! (idx + w + j) \<and>
               tx' ! (wp + w + w + 2 * w * (j div w) + w + j mod w) = tdi ! (idx + w + j)"
    using Suc.IH [of "idx + w" "wp + w + w" tx2] Suc.prems wr(4) by (auto simp: algebra_simps)
  have "tx' ! (wp + 2 * w * (j div w) + j mod w) = tms ! (idx + j) \<and>
      tx' ! (wp + 2 * w * (j div w) + w + j mod w) = tdi ! (idx + j)" if j: "j < Suc n * w" for j
  proof (cases "j < w")
    case True
    then show ?thesis using len frame tx2_nth [of "wp + j"] tx2_nth [of "wp + w + j"] wr(4) by simp
  next
    case False
    then have jw: "j - w < n * w" "j = w + (j - w)" using j by simp_all
    have "j div w = Suc ((j - w) div w)" "j mod w = (j - w) mod w"
      using False assms(1) by (simp_all add: le_div_geq le_mod_geq)
    then show ?thesis using words [rule_format, OF jw(1)] jw(2) by (simp add: algebra_simps)
  qed
  moreover have "\<forall>k<length tx. k < wp \<or> wp + 2 * w * Suc n \<le> k \<longrightarrow> tx' ! k = tx ! k"
    using frame tx2_nth wr(4) by (auto simp: algebra_simps)
  ultimately show ?case using step tx' wr(4) by auto
qed simp

lemma pack_words_overflow:
  assumes "length tx < wp + 2 * w * n" and "wp \<le> length tx"
    and "idx + n * w \<le> length tms" and "idx + n * w \<le> length tdi"
  shows "pack_words n w tms tdi idx wp tx = Inl (Fault ''write out of bounds'')"
  using assms
proof (induction n arbitrary: idx wp tx)
  case (Suc n)
  have src: "idx + w \<le> length tms" "idx + w \<le> length tdi" using Suc.prems by simp_all
  show ?case
  proof (cases "wp + w + w \<le> length tx")
    case True
    define tx1 where "tx1 = take wp tx @ take w (drop idx tms) @ drop (wp + w) tx"
    define tx2 where "tx2 = take (wp + w) tx1 @ take w (drop idx tdi) @ drop (wp + w + w) tx1"
    have "pack_words (Suc n) w tms tdi idx wp tx = pack_words n w tms tdi (idx + w) (wp + w + w) tx2"
      using src True by (simp add: mem_simps tx1_def tx2_def)
    also have "\<dots> = Inl (Fault ''write out of bounds'')"
      by (rule Suc.IH) (use Suc.prems True src in \<open>simp_all add: tx1_def tx2_def algebra_simps\<close>)
    finally show ?thesis .
  next
    case False
    then show ?thesis using src by (auto simp: rd_mem_ok wr_mem_def)
  qed
qed simp

lemma pack_rest_spec:
  assumes "r \<le> w" and "idx + r \<le> length tms" and "idx + r \<le> length tdi"
    and "r \<noteq> 0 \<Longrightarrow> wp + 2 * w \<le> length tx"
  shows "\<exists>tx'. pack_rest r w tms tdi idx wp tx = Inr tx' \<and> length tx' = length tx \<and>
    (\<forall>k<length tx. k < wp \<longrightarrow> tx' ! k = tx ! k) \<and>
    (\<forall>i<r. tx' ! (wp + i) = tms ! (idx + i) \<and> tx' ! (wp + w + i) = tdi ! (idx + i))"
proof (cases "r = 0")
  case False
  note fit = assms(4) [OF False]
  define tx1 where "tx1 = take wp tx @ take r (drop idx tms) @ drop (wp + r) tx"
  define tx2 where "tx2 = take (wp + w) tx1 @ take r (drop idx tdi) @ drop (wp + w + r) tx1"
  have wr: "wr_mem tx wp (take r (drop idx tms)) = Inr tx1" "length tx1 = length tx"
    "wr_mem tx1 (wp + w) (take r (drop idx tdi)) = Inr tx2" "length tx2 = length tx"
    using assms fit by (simp_all add: tx1_def tx2_def mem_simps)
  have "pack_rest r w tms tdi idx wp tx = Inr tx2"
    using assms wr False by (simp add: pack_rest_def rd_mem_ok)
  moreover have "tx2 ! k = (if wp \<le> k \<and> k < wp + r then tms ! (idx + (k - wp))
      else if wp + w \<le> k \<and> k < wp + w + r then tdi ! (idx + (k - (wp + w))) else tx ! k)"
    if "k < length tx" for k
    using that assms fit wr_mem_nth [OF wr(1), of k] wr_mem_nth [OF wr(3), of k] wr(2) by auto
  ultimately show ?thesis using wr(4) assms(1) fit by auto
qed (simp add: pack_rest_def)

lemma ceil_words:
  assumes "0 < (w :: nat)"
  shows "(n + w - 1) div w * w = n div w * w + (if n mod w = 0 then 0 else w)"
proof -
  have "n + w - 1 = (n mod w + w - 1) + n div w * w" using assms div_mult_mod_eq [of n w] by linarith
  then have "(n + w - 1) div w = n div w + (n mod w + w - 1) div w"
    using assms by (metis add.commute div_mult_self1 less_not_refl)
  moreover have "(n mod w + w - 1) div w = (if n mod w = 0 then 0 else 1)"
  proof (cases "n mod w = 0")
    case False
    then have "n mod w + w - 1 = (n mod w - 1) + w" by simp
    then have "(n mod w + w - 1) div w = (n mod w - 1) div w + 1" using assms by (simp only: div_add_self2)
    moreover have "n mod w - 1 < w" using assms by (meson less_imp_diff_less mod_less_divisor)
    ultimately show ?thesis using False by simp
  qed (use assms in simp)
  ultimately show ?thesis by (simp add: algebra_simps)
qed

lemma pack_spec:
  assumes "4 \<le> w" and "w < 2 ^ 32" and "n \<le> length tms" and "n \<le> length tdi"
    and "msg_size w n \<le> length tx0"
  shows "\<exists>tx. pack_msg le w (n div w) (n div w * w) (n - n div w * w) h tms tdi tx0 = Inr tx \<and>
    length tx = length tx0 \<and> shift_msg w h n tms tdi tx"
proof -
  define q where "q = n div w"
  have w0: "0 < w" and qn: "q * w \<le> n" and rest: "n - q * w = n mod w"
    and split: "q * w + n mod w = n"
    using assms(1) by (simp_all add: q_def minus_div_mult_eq_mod)
  have size: "w + 2 * (q * w) + (if n mod w = 0 then 0 else 2 * w) \<le> length tx0"
    using assms(5) unfolding msg_size_def ceil_words [OF w0] by (simp add: q_def split: if_splits)
  define tx1 where "tx1 = le_bytes32 h @ replicate (w - 4) 0 @ drop w tx0"
  have hdr: "setHdr le w tx0 h = Inr tx1" and len1: "length tx1 = length tx0"
    using assms size by (simp_all add: setHdr_le tx1_def)
  obtain tx2 where tx2: "pack_words q w tms tdi 0 w tx1 = Inr tx2" "length tx2 = length tx1"
    "\<forall>k<length tx1. k < w \<or> w + 2 * w * q \<le> k \<longrightarrow> tx2 ! k = tx1 ! k"
    "\<forall>j<q * w. tx2 ! (w + 2 * w * (j div w) + j mod w) = tms ! j \<and> tx2 ! (w + 2 * w * (j div w) + w + j mod w) = tdi ! j"
    using pack_words_spec [of w 0 q tms tdi w tx1] assms w0 qn len1 size by (auto simp: algebra_simps split: if_splits)
  obtain tx3 where tx3: "pack_rest (n mod w) w tms tdi (q * w) (w + 2 * (q * w)) tx2 = Inr tx3" "length tx3 = length tx2"
    "\<forall>k<length tx2. k < w + 2 * (q * w) \<longrightarrow> tx3 ! k = tx2 ! k"
    "\<forall>i<n mod w. tx3 ! (w + 2 * (q * w) + i) = tms ! (q * w + i) \<and> tx3 ! (w + 2 * (q * w) + w + i) = tdi ! (q * w + i)"
    using pack_rest_spec [of "n mod w" w "q * w" tms tdi "w + 2 * (q * w)" tx2] assms w0 split size len1 tx2(2)
    by (auto simp: algebra_simps split: if_splits)
  have data: "tx3 ! tms_pos w j = tms ! j \<and> tx3 ! tdi_pos w j = tdi ! j" if "j < n" for j
  proof (cases "j < q * w")
    case True
    have "2 * w * (j div w) + j mod w + w < 2 * w * q" by (rule pos_arith [OF w0 True])
    then show ?thesis using True tx2(2,4) tx3(3) len1 size by (auto simp: tms_pos_def tdi_pos_def algebra_simps)
  next
    case False
    then have "j = q * w + (j - q * w)" "j - q * w < n mod w" using that rest by simp_all
    moreover have "j - q * w < w" using calculation(2) w0 by (meson mod_less_divisor order.strict_trans)
    ultimately have "j div w = q" "j mod w = j - q * w"
      using w0 by (metis add.commute div_less div_mult_self1 add_0 not_less0, metis mod_less mod_mult_self3)
    then show ?thesis using tx3(4) [rule_format, OF \<open>j - q * w < n mod w\<close>] False
      by (simp add: tms_pos_def tdi_pos_def algebra_simps)
  qed
  have "take w tx3 = take w tx1"
    using tx2(2,3) tx3(2,3) len1 size by (intro nth_equalityI) auto
  also have "\<dots> = le_bytes32 h @ replicate (w - 4) 0" using assms(1) by (simp add: tx1_def)
  finally have "shift_msg w h n tms tdi tx3"
    using data assms(5) tx2(2) tx3(2) len1 by (simp add: shift_msg_def)
  then show ?thesis using hdr tx2(1,2) tx3(1,2) len1 rest by (simp add: q_def pack_msg_def)
qed

lemma pack_msg_overflow:
  assumes "4 \<le> w" and "w \<le> 16" and "n \<le> length tms" and "n \<le> length tdi" and "w \<le> length tx" and "length tx < w + 2 * w * (n div w)"
  shows "pack_msg le w (n div w) (n div w * w) (n - n div w * w) h tms tdi tx = Inl (Fault ''write out of bounds'')"
proof -
  have w: "w < 2 ^ 32" using assms(2) by simp
  have "n div w * w \<le> n" by simp
  with assms(3,4) have src: "n div w * w \<le> length tms" "n div w * w \<le> length tdi" by (meson order.trans)+
  have "pack_words (n div w) w tms tdi 0 w (le_bytes32 h @ replicate (w - 4) 0 @ drop w tx) = Inl (Fault ''write out of bounds'')"
    by (rule pack_words_overflow) (use assms(1,5,6) src in simp_all)
  then show ?thesis by (simp add: pack_msg_def setHdr_le [OF assms(1) w assms(5)])
qed

lemma pack_words_length: "pack_words k w tms tdi i wp tx = Inr tx' \<Longrightarrow> length tx' = length tx"
  by (induction k arbitrary: i wp tx) (auto simp: wr_mem_length)

lemma pack_rest_length: "pack_rest r w tms tdi i wp tx = Inr tx' \<Longrightarrow> length tx' = length tx"
  by (auto simp: pack_rest_def wr_mem_length split: if_splits)

lemma pack_msg_length: "pack_msg le w q qb r h tms tdi tx = Inr tx' \<Longrightarrow> length tx' = length tx"
  by (auto simp: pack_msg_def setHdr_length pack_words_length pack_rest_length)

lemma msg_size_le:
  assumes "0 < w" and "n \<le> k * w"
  shows "msg_size w n \<le> (2 * k + 1) * w"
proof -
  have "(n + w - 1) div w \<le> (k * w + w - 1) div w" using assms by (intro div_le_mono) simp
  also have "k * w + w - 1 = (w - 1) + k * w" using assms(1) by simp
  also have "((w - 1) + k * w) div w = k" using assms(1) by (subst div_mult_self1) simp_all
  finally have "(n + w - 1) div w * w \<le> k * w" by (rule mult_le_mono1)
  then show ?thesis by (simp add: msg_size_def algebra_simps)
qed

lemma msg_fits:
  assumes "drv_wf d" and "n \<le> m_memDepth d * m_wordSize d"
  shows "msg_size (m_wordSize d) n \<le> length (m_txBuf d)"
  using msg_size_le [OF _ assms(2)] assms(1) by (simp add: drv_wf_def)

lemma drv_wf_new [simp]: "drv_wf (axisToJtag_new host xid0 debug)"
  by (simp add: drv_wf_def axisToJtag_new_def axisToJtag.defs jtagDriver.defs jtagDriver_new_def)

lemma fresh_drv_simps [simp]:
  "m_wordSize fresh_drv = 4" "m_memDepth fresh_drv = 1" "m_retry fresh_drv = 5" "m_xid fresh_drv = 7"
  "length (m_txBuf fresh_drv) = 2048" "m_host fresh_drv = le_platform" "m_bufSz fresh_drv = 2048"
  "m_debug fresh_drv = 0" "drv_wf fresh_drv"
  by (simp_all add: fresh_drv_def)
    (simp_all add: axisToJtag_new_def axisToJtag.defs jtagDriver.defs jtagDriver_new_def)

subsection \<open>Reliable transfers\<close>

lemma xferRel_loop_unfold:
  "xferRel_loop xf (Suc n) xid txb txBytes sz rxb d =
     (case attempt xf xid txb txBytes sz (rxb, d) of
        (Retry, rxb', d') \<Rightarrow> xferRel_loop xf n xid txb txBytes sz rxb' d'
      | (Fail e, rxb', d') \<Rightarrow> ((Inl e, rxb'), d')
      | (Done got h, rxb', d') \<Rightarrow> ((Inr (got, h), rxb'), d'))"
  by (simp add: attempt_def outcome_of_def Let_def xferRel_loop.simps(2) split: prod.splits sum.splits xerr.splits)

lemma after_attempts_Suc:
  "after_attempts xf xid txb txBytes sz s (Suc k) =
     after_attempts xf xid txb txBytes sz (snd (attempt xf xid txb txBytes sz s)) k"
  by (simp add: after_attempts_def funpow_Suc_right del: funpow.simps)

lemma decision_Suc:
  "decision xf xid txb txBytes sz s (Suc k) =
     decision xf xid txb txBytes sz (snd (attempt xf xid txb txBytes sz s)) k"
  by (simp add: decision_def after_attempts_Suc)

lemma decision_0: "decision xf xid txb txBytes sz s 0 = fst (attempt xf xid txb txBytes sz s)"
  by (simp add: decision_def after_attempts_def)

lemma after_attempts_0 [simp]: "after_attempts xf xid txb txBytes sz s 0 = s"
  by (simp add: after_attempts_def)

lemma xferRel_loop_result:
  fixes xf :: "'a axisToJtag_scheme xfer_fn" and xid :: u8 and txb :: "u8 list" and txBytes sz :: nat
  defines "out \<equiv> decision xf xid txb txBytes sz" and "aft \<equiv> after_attempts xf xid txb txBytes sz"
  assumes "xferRel_loop xf n xid txb txBytes sz rxb d = ((res, rxb'), d')"
  shows "(\<exists>k<n. (\<forall>i<k. out (rxb, d) i = Retry) \<and> aft (rxb, d) (Suc k) = (rxb', d') \<and>
            (case out (rxb, d) k of Retry \<Rightarrow> False | Fail e \<Rightarrow> res = Inl e | Done got h \<Rightarrow> res = Inr (got, h)))
       \<or> (\<forall>i<n. out (rxb, d) i = Retry) \<and> aft (rxb, d) n = (rxb', d') \<and> res = Inl (TimeoutErr [])"
  using assms(3)
proof (induction n arbitrary: rxb d)
  case 0
  then show ?case by (simp add: aft_def)
next
  case (Suc n)
  obtain o1 rxb1 d1 where a: "attempt xf xid txb txBytes sz (rxb, d) = (o1, rxb1, d1)"
    by (cases "attempt xf xid txb txBytes sz (rxb, d)") auto
  have first: "out (rxb, d) 0 = o1" "aft (rxb, d) (Suc 0) = (rxb1, d1)"
    by (simp_all add: out_def aft_def decision_0 after_attempts_Suc a)
  have shift: "out (rxb, d) (Suc k) = out (rxb1, d1) k" "aft (rxb, d) (Suc k) = aft (rxb1, d1) k" for k
    by (simp_all add: out_def aft_def decision_Suc after_attempts_Suc a)
  show ?case
  proof (cases o1)
    case Retry
    then have "xferRel_loop xf n xid txb txBytes sz rxb1 d1 = ((res, rxb'), d')"
      using Suc.prems by (simp add: xferRel_loop_unfold a)
    from Suc.IH [OF this] show ?thesis
      using Retry first(1) by (auto simp: shift All_less_Suc2 Ex_less_Suc2)
  next
    case (Fail e)
    then show ?thesis using Suc.prems first
      by (intro disjI1 exI [of _ 0]) (simp add: xferRel_loop_unfold a)
  next
    case (Done got h)
    then show ?thesis using Suc.prems first
      by (intro disjI1 exI [of _ 0]) (simp add: xferRel_loop_unfold a)
  qed
qed

subsection \<open>Sending vectors\<close>

text \<open>For vectors that the server can ask for, no intermediate result is truncated to 32 bits.\<close>

lemma send_sizes:
  assumes "bits < 2 ^ 32" and "w \<le> 16" and "n = (bits + 7) div 8"
  shows "c_unsigned (n div w) = n div w" and "c_unsigned (n div w * w) = n div w * w"
    and "c_unsigned ((n + w - 1) div w * w) = (n + w - 1) div w * w"
    and "c_unsigned (n - n div w * w) = n - n div w * w"
    and "c_unsigned (w + 2 * ((n + w - 1) div w * w)) = msg_size w n"
proof -
  have n: "n \<le> 2 ^ 29" using assms(1,3) by simp
  define c where "c = (n + w - 1) div w * w"
  have "c \<le> n + w - 1" unfolding c_def by simp
  then have c: "c \<le> n + w" by simp
  have q: "n div w \<le> n" "n div w * w \<le> n" "n - n div w * w \<le> n" by simp_all
  have n32: "n < 2 ^ 32" and c32: "c < 2 ^ 32" and t32: "w + 2 * c < 2 ^ 32"
    using n c assms(2) by simp_all
  show "c_unsigned (n div w) = n div w" "c_unsigned (n div w * w) = n div w * w"
    "c_unsigned (n - n div w * w) = n - n div w * w"
    by (rule c_unsigned_less, rule le_less_trans [OF _ n32], rule q)+
  show "c_unsigned ((n + w - 1) div w * w) = (n + w - 1) div w * w"
    "c_unsigned (w + 2 * ((n + w - 1) div w * w)) = msg_size w n"
    unfolding msg_size_def c_def [symmetric] by (rule c_unsigned_less, fact c32, rule c_unsigned_less, fact t32)
qed

lemma sendVectors_eq:
  assumes "bits < 2 ^ 32" and "n = (bits + 7) div 8" and "w = m_wordSize d" and "w \<le> 16"
    and "h = fst (mkShift (word_of_nat bits) (m_xid d))"
  shows "sendVectors xf bits tms tdi tdo d =
    (case pack_msg (isLE (m_host d)) w (n div w) (n div w * w) (n - n div w * w) h tms tdi (m_txBuf d) of
       Inl e \<Rightarrow> ((Inl e, tdo), d\<lparr>m_xid := next_xid (m_xid d)\<rparr>)
     | Inr tx \<Rightarrow> send_sniff bits tms tdi
         (xferRel xf tx (msg_size w n) tdo n (d\<lparr>m_xid := next_xid (m_xid d), m_txBuf := tx\<rparr>)))"
proof -
  have n: "(bits + 8 - 1) div 8 = n" using assms(2) by simp
  have hx: "mkShift (word_of_nat bits) (m_xid d) = (h, next_xid (m_xid d))"
    using assms(5) snd_mkShift [of "word_of_nat bits" "m_xid d"] by (metis prod.collapse)
  show ?thesis
    unfolding sendVectors_def getWordSize_def Let_def n assms(3) [symmetric] hx
    by (simp only: send_sizes [OF assms(1,4,2)] prod.case) simp
qed

lemma sendVectors_msg:
  assumes "bits < 2 ^ 32" and "n = (bits + 7) div 8" and "w = m_wordSize d" and "4 \<le> w" and "w \<le> 16"
    and "n \<le> length tms" and "n \<le> length tdi" and "msg_size w n \<le> length (m_txBuf d)"
  obtains tx where "length tx = length (m_txBuf d)"
    and "shift_msg w (fst (mkShift (word_of_nat bits) (m_xid d))) n tms tdi tx"
    and "sendVectors xf bits tms tdi tdo d = send_sniff bits tms tdi
      (xferRel xf tx (msg_size w n) tdo n (d\<lparr>m_xid := next_xid (m_xid d), m_txBuf := tx\<rparr>))"
proof -
  have "w < 2 ^ 32" using assms(5) by simp
  from pack_spec [OF assms(4) this assms(6-8)] obtain tx where
    tx: "pack_msg (isLE (m_host d)) w (n div w) (n div w * w) (n - n div w * w)
        (fst (mkShift (word_of_nat bits) (m_xid d))) tms tdi (m_txBuf d) = Inr tx"
    and len: "length tx = length (m_txBuf d)"
    and msg: "shift_msg w (fst (mkShift (word_of_nat bits) (m_xid d))) n tms tdi tx"
    by blast
  show thesis
    by (rule that [OF len msg]) (simp add: sendVectors_eq [OF assms(1,2,3,5) refl] tx)
qed

lemma shift_msg_hdr:
  assumes "shift_msg w h n tms tdi tx" and "4 \<le> w"
  shows "take 4 tx = le_bytes32 h" and "4 \<le> length tx"
proof -
  from assms have "take w tx = le_bytes32 h @ replicate (w - 4) 0" "w \<le> length tx"
    by (simp_all add: shift_msg_def msg_size_def)
  moreover have "take 4 tx = take 4 (take w tx)" using assms(2) by (simp add: min_def)
  ultimately show "take 4 tx = le_bytes32 h" "4 \<le> length tx" using assms(2) by simp_all
qed

lemma xferRel_accept:
  assumes "4 \<le> length txb" and "h = le_word32 (take 4 txb)"
    and "xf txb txBytes (m_hdBuf d) (m_wordSize d) rxb sz d = ((Inr got, hb, rxb'), d')"
    and "4 \<le> length hb" and "getErr (le_word32 (take 4 hb)) = 0"
    and "getXid h \<noteq> XID_ANY \<Longrightarrow> getXid (le_word32 (take 4 hb)) = getXid h"
  shows "xferRel xf txb txBytes rxb sz d = ((Inr (got, le_word32 (take 4 hb)), rxb'), d'\<lparr>m_hdBuf := hb\<rparr>)"
  using assms by (auto simp: xferRel_def getHdr_le xferRel_loop.simps(2) getWordSize_def Let_def)

subsection \<open>The contract of a transport\<close>

text \<open>
  What the base class relies on in an implementation of \<^verbatim>\<open>xfer\<close>, for every outcome: it writes inside
  the two buffers it is given, so that they keep their sizes, and it leaves the private members alone.
\<close>

locale xfer_transport =
  fixes xf :: "'a axisToJtag_scheme xfer_fn"
  assumes xfer_frame: "xf txb n hb hs rxb sz d = ((r, hb', rxb'), d') \<Longrightarrow> drv_frame d' = drv_frame d"
    and xfer_hd_length: "xf txb n hb hs rxb sz d = ((r, hb', rxb'), d') \<Longrightarrow> length hb' = length hb"
    and xfer_rx_length: "xf txb n hb hs rxb sz d = ((r, hb', rxb'), d') \<Longrightarrow> length rxb' = length rxb"
begin

lemma attempt_frame:
  assumes "attempt xf xid txb txBytes sz (rxb, d) = (o1, rxb1, d1)"
  shows "drv_frame d1 = drv_frame d \<and> length rxb1 = length rxb \<and> length (m_hdBuf d1) = length (m_hdBuf d)"
  using assms xfer_frame xfer_hd_length xfer_rx_length
  by (auto simp: attempt_def drv_frame_def split: prod.splits)

lemma loop_frame:
  assumes "xferRel_loop xf n xid txb txBytes sz rxb d = ((r, rxb'), d')"
  shows "drv_frame d' = drv_frame d \<and> length rxb' = length rxb \<and> length (m_hdBuf d') = length (m_hdBuf d)"
  using assms
proof (induction n arbitrary: rxb d)
  case (Suc n)
  obtain o1 rxb1 d1 where a: "attempt xf xid txb txBytes sz (rxb, d) = (o1, rxb1, d1)"
    by (cases "attempt xf xid txb txBytes sz (rxb, d)") auto
  note f = attempt_frame [OF a]
  show ?case
  proof (cases o1)
    case Retry
    with Suc.prems have "xferRel_loop xf n xid txb txBytes sz rxb1 d1 = ((r, rxb'), d')"
      by (simp add: xferRel_loop_unfold a)
    from Suc.IH [OF this] f show ?thesis by simp
  qed (use Suc.prems f in \<open>auto simp: xferRel_loop_unfold a\<close>)
qed simp

lemma xferRel_frame:
  assumes "xferRel xf txb txBytes rxb sz d = ((r, rxb'), d')"
  shows "drv_frame d' = drv_frame d" and "length rxb' = length rxb" and "length (m_hdBuf d') = length (m_hdBuf d)"
  using assms by (auto simp: xferRel_def split: sum.splits dest: loop_frame)

lemma query_wf:
  assumes "query xf d = (Inr n, d')" and "drv_wf d"
  shows "drv_wf d' \<and> n = m_memDepth d' * m_wordSize d' \<and> m_retry d' = (if m_memDepth d' = 0 then 0 else 5) \<and>
    m_xid d' = m_xid d \<and> m_host d' = m_host d \<and> m_snif d' = m_snif d \<and> m_debug d' = m_debug d"
proof -
  obtain tx rxb hdr got d2 where tx: "setHdr (isLE (m_host d)) (m_wordSize d) (m_txBuf d) mkQuery = Inr tx"
    and x: "xferRel xf tx (m_wordSize d) [] 0 (d\<lparr>m_txBuf := tx\<rparr>) = ((Inr (got, hdr), rxb), d2)"
    and q: "query_update hdr d2 = (Inr n, d')"
    using assms(1) by (auto simp: query_def getWordSize_def split: sum.splits prod.splits)
  have "length tx = m_bufSz d"
    using setHdr_length [OF tx] assms(2) by (simp add: drv_wf_def)
  with xferRel_frame [OF x] assms(2)
  have d2: "length (m_txBuf d2) = m_bufSz d2" "length (m_hdBuf d2) = hdBufMax" "2048 \<le> m_bufSz d2"
    "m_xid d2 = m_xid d" "m_host d2 = m_host d" "m_snif d2 = m_snif d" "m_debug d2 = m_debug d"
    by (auto simp: drv_frame_def drv_wf_def)
  have ws: "4 \<le> wordSize hdr" using q by (auto simp: query_update_def Let_def split: if_splits)
  have mul: "memDepth hdr * wordSize hdr \<le> 2 ^ 16 * 16"
    using memDepth_bound [of hdr] wordSize_bounds [of hdr] by (intro mult_le_mono) simp_all
  then have "(2 * memDepth hdr + 1) * wordSize hdr < 2 ^ 32"
    using wordSize_bounds(2) [of hdr] by (simp add: algebra_simps)
  moreover have "memDepth hdr * wordSize hdr < 2 ^ 32" using mul by simp
  ultimately have siz: "c_unsigned ((2 * memDepth hdr + 1) * wordSize hdr) = (2 * memDepth hdr + 1) * wordSize hdr"
    "c_unsigned (memDepth hdr * wordSize hdr) = memDepth hdr * wordSize hdr" by (simp_all only: c_unsigned_less)
  show ?thesis
    using q ws siz d2 wordSize_bounds [of hdr] memDepth_bound [of hdr]
    by (auto simp: query_update_def Let_def drv_wf_def split: if_splits)
qed

lemma send_sniff_frame:
  assumes "send_sniff bits tms tdi ((r, rx), d) = ((r', tdo'), d')"
  shows "tdo' = rx \<and> m_hdBuf d' = m_hdBuf d \<and> drv_frame (d'\<lparr>m_snif := s\<rparr>) = drv_frame (d\<lparr>m_snif := s\<rparr>)"
  using assms by (auto simp: send_sniff_def drv_frame_def split: sum.splits if_splits)

lemma sendVectors_frame:
  assumes "sendVectors xf bits tms tdi tdo d = ((r, tdo'), d')" and "drv_wf d" and "bits < 2 ^ 32"
  shows "drv_wf d' \<and> length tdo' = length tdo \<and> m_xid d' = next_xid (m_xid d) \<and> m_host d' = m_host d \<and>
    m_wordSize d' = m_wordSize d \<and> m_memDepth d' = m_memDepth d \<and> m_bufSz d' = m_bufSz d \<and>
    m_retry d' = m_retry d \<and> m_periodNs d' = m_periodNs d \<and> m_debug d' = m_debug d"
proof -
  define w n h where whn: "w = m_wordSize d" "n = (bits + 7) div 8" "h = fst (mkShift (word_of_nat bits) (m_xid d))"
  have w16: "w \<le> 16" using assms(2) by (simp add: drv_wf_def whn)
  note eq = sendVectors_eq [OF assms(3) whn(2,1) w16 whn(3), of xf tms tdi tdo]
  show ?thesis
  proof (cases "pack_msg (isLE (m_host d)) w (n div w) (n div w * w) (n - n div w * w) h tms tdi (m_txBuf d)")
    case (Inl e)
    then show ?thesis using assms(1,2) eq by (auto simp: drv_wf_def)
  next
    case (Inr tx)
    define d1 where "d1 = d\<lparr>m_xid := next_xid (m_xid d), m_txBuf := tx\<rparr>"
    obtain r1 rx d2 where x: "xferRel xf tx (msg_size w n) tdo n d1 = ((r1, rx), d2)"
      by (cases "xferRel xf tx (msg_size w n) tdo n d1") auto
    have "length tx = m_bufSz d" using pack_msg_length [OF Inr] assms(2) by (simp add: drv_wf_def)
    moreover have "send_sniff bits tms tdi ((r1, rx), d2) = ((r, tdo'), d')"
      using assms(1) eq Inr x by (simp add: d1_def)
    ultimately show ?thesis
      using xferRel_frame [OF x] send_sniff_frame [of bits tms tdi r1 rx d2 r tdo' d'] assms(2)
      by (simp add: d1_def drv_frame_def drv_wf_def)
  qed
qed

end

text \<open>An invariant of what a subclass adds to the object, kept by its transfer, is kept by the operations of the class.\<close>

locale xfer_invariant =
  fixes xf :: "'a axisToJtag_scheme xfer_fn" and K :: "'a axisToJtag_scheme \<Rightarrow> bool"
  assumes K_more: "axisToJtag.more d' = axisToJtag.more d \<Longrightarrow> K d' = K d"
    and K_xfer: "K d \<Longrightarrow> xf txb n hb hs rxb sz d = ((r, hb', rxb'), d') \<Longrightarrow> K d'"
begin

lemma K_upd [simp]:
  "K (d\<lparr>m_hdBuf := hb\<rparr>) = K d" "K (d\<lparr>m_txBuf := tx\<rparr>) = K d" "K (d\<lparr>m_xid := x\<rparr>) = K d" "K (d\<lparr>m_snif := s\<rparr>) = K d"
  by (rule K_more, simp)+

lemma K_loop: "K d \<Longrightarrow> xferRel_loop xf n xid txb txBytes sz rxb d = ((r, rxb'), d') \<Longrightarrow> K d'"
proof (induction n arbitrary: rxb d)
  case (Suc n)
  obtain o1 rxb1 d1 where a: "attempt xf xid txb txBytes sz (rxb, d) = (o1, rxb1, d1)"
    by (cases "attempt xf xid txb txBytes sz (rxb, d)") auto
  have "K d1" using a Suc.prems(1) by (auto simp: attempt_def split: prod.splits dest: K_xfer)
  then show ?case using Suc.prems(2) Suc.IH [of d1 rxb1] by (cases o1) (auto simp: xferRel_loop_unfold a)
qed simp

lemma K_xferRel: "K d \<Longrightarrow> xferRel xf txb txBytes rxb sz d = ((r, rxb'), d') \<Longrightarrow> K d'"
  by (auto simp: xferRel_def split: sum.splits dest: K_loop)

lemma K_query: "K d \<Longrightarrow> query xf d = (r, d') \<Longrightarrow> K d'"
proof -
  assume a: "K d" "query xf d = (r, d')"
  have u: "query_update h e = (r, d') \<Longrightarrow> K e \<Longrightarrow> K d'" for h e
    using K_more [of d' e] by (auto simp: query_update_def Let_def split: if_splits)
  have x: "xferRel xf tx k rx sz (d\<lparr>m_txBuf := tx'\<rparr>) = ((r1, rx'), e) \<Longrightarrow> K e" for tx tx' k rx sz r1 rx' e
    using K_xferRel [of "d\<lparr>m_txBuf := tx'\<rparr>"] a(1) by simp
  show "K d'" using a by (auto simp: query_def split: sum.splits prod.splits dest: x u)
qed

lemma K_init: "K d \<Longrightarrow> init_drv xf d = (r, d') \<Longrightarrow> K d'"
  by (auto simp: init_drv_def split: prod.splits dest: K_query)

lemma K_send: "K d \<Longrightarrow> sendVectors xf bits tms tdi tdo d = ((r, tdo'), d') \<Longrightarrow> K d'"
proof -
  assume a: "K d" "sendVectors xf bits tms tdi tdo d = ((r, tdo'), d')"
  have s: "send_sniff bits tms tdi ((r1, rx), e) = ((r, tdo'), d') \<Longrightarrow> K e \<Longrightarrow> K d'" for r1 rx e
    by (auto simp: send_sniff_def split: sum.splits if_splits prod.splits)
  obtain h x where m: "mkShift (word_of_nat bits) (m_xid d) = (h, x)" by fastforce
  show "K d'"
  proof (cases "sendVectors xf bits tms tdi tdo d = ((r, tdo), d\<lparr>m_xid := x\<rparr>)")
    case True
    then show ?thesis using a by simp
  next
    case False
    with a(2) m obtain tx k n where "send_sniff bits tms tdi (xferRel xf tx k tdo n (d\<lparr>m_xid := x, m_txBuf := tx\<rparr>)) = ((r, tdo'), d')"
      by (auto simp: sendVectors_def Let_def split: sum.splits)
    moreover obtain r1 rx e where x: "xferRel xf tx k tdo n (d\<lparr>m_xid := x, m_txBuf := tx\<rparr>) = ((r1, rx), e)"
      by (metis prod.collapse)
    ultimately show ?thesis using s K_xferRel [OF _ x] a(1) by simp
  qed
qed

end

subsection \<open>The contract of a driver\<close>

text \<open>
  What the server relies on in a driver: in a valid state a query and a shift of vectors of at most
  \<open>vlim\<close> bytes stay within the defined behaviour and keep the state valid, TDO is written inside the
  buffer given, and a shift of zero bits is not accepted.
\<close>

locale jtag_driver =
  fixes ops :: "'d jtag_ops" and valid :: "'d \<Rightarrow> bool" and vlim :: nat
  assumes query_safe: "valid d \<Longrightarrow> op_query ops d = (q, d') \<Longrightarrow> no_fault q"
    and query_wf: "valid d \<Longrightarrow> op_query ops d = (Inr n, d') \<Longrightarrow> valid d'"
    and send_safe: "valid d \<Longrightarrow> (bits + 7) div 8 \<le> vlim \<Longrightarrow> (bits + 7) div 8 \<le> length tms \<Longrightarrow>
      (bits + 7) div 8 \<le> length tdi \<Longrightarrow> (bits + 7) div 8 \<le> length tdo \<Longrightarrow>
      op_sendVectors ops bits tms tdi tdo d = ((r, tdo'), d') \<Longrightarrow> no_fault r \<and> length tdo' = length tdo"
    and send_wf: "valid d \<Longrightarrow> (bits + 7) div 8 \<le> vlim \<Longrightarrow> (bits + 7) div 8 \<le> length tms \<Longrightarrow>
      (bits + 7) div 8 \<le> length tdi \<Longrightarrow> (bits + 7) div 8 \<le> length tdo \<Longrightarrow>
      op_sendVectors ops bits tms tdi tdo d = ((Inr (), tdo'), d') \<Longrightarrow> valid d'"
    and send_zero: "valid d \<Longrightarrow> fst (fst (op_sendVectors ops 0 tms tdi tdo d)) \<noteq> Inr ()"

text \<open>
  A driver that is a faithful wire to a device: the device is a transducer that gives one TDO bit for a
  pair of a TMS and a TDI bit.  \<open>dev\<close> is the state of the device behind the driver, \<open>period\<close> the
  answer to a request for a clock period.
\<close>

locale serial_driver = jtag_driver ops valid vlim
  for ops :: "'d jtag_ops" and valid :: "'d \<Rightarrow> bool" and vlim :: nat +
  fixes dev :: "'d \<Rightarrow> 's" and step :: "bool \<times> bool \<Rightarrow> 's \<Rightarrow> bool \<times> 's" and period :: "u32 \<Rightarrow> u32"
  assumes query_dev: "valid d \<Longrightarrow> \<exists>n d'. op_query ops d = (Inr n, d') \<and> dev d' = dev d"
    and period_dev: "valid d \<Longrightarrow> op_setPeriodNs ops p d = period p"
    and send_dev: "valid d \<Longrightarrow> 1 \<le> bits \<Longrightarrow> n = (bits + 7) div 8 \<Longrightarrow> n \<le> vlim \<Longrightarrow> n \<le> length tms \<Longrightarrow>
      n \<le> length tdi \<Longrightarrow> n \<le> length tdo \<Longrightarrow>
      \<exists>tdo' d'. op_sendVectors ops bits tms tdi tdo d = ((Inr (), tdo'), d') \<and> drop n tdo' = drop n tdo \<and>
        (take bits (bits_of_bytes tdo'), dev d') =
          dev_run step (zip (take bits (bits_of_bytes tms)) (take bits (bits_of_bytes tdi))) (dev d)"

section \<open>Properties\<close>

text \<open>
  C16.  \<^verbatim>\<open>xferRel\<close> makes at most \<^verbatim>\<open>retry_\<close> + 1 attempts.  It stops at the first attempt that is
  neither a timeout nor a reply with a foreign transaction id, and gives that attempt's reply or
  exception; when every attempt is to be retried it throws \<^verbatim>\<open>TimeoutErr\<close> after exactly
  \<^verbatim>\<open>retry_\<close> + 1 attempts.
\<close>

theorem xferRel_attempts:
  assumes "getHdr (isLE (m_host d)) txb = Inr h"
  shows "case xferRel xf txb txBytes rxb sz d of ((res, rxb'), d') \<Rightarrow>
    (\<exists>k\<le>m_retry d.
       (\<forall>i<k. decision xf (getXid h) txb txBytes sz (rxb, d) i = Retry) \<and>
       after_attempts xf (getXid h) txb txBytes sz (rxb, d) (Suc k) = (rxb', d') \<and>
       (case decision xf (getXid h) txb txBytes sz (rxb, d) k of
          Retry \<Rightarrow> False | Fail e \<Rightarrow> res = Inl e | Done got hdr \<Rightarrow> res = Inr (got, hdr))) \<or>
    (\<forall>i\<le>m_retry d. decision xf (getXid h) txb txBytes sz (rxb, d) i = Retry) \<and>
       after_attempts xf (getXid h) txb txBytes sz (rxb, d) (Suc (m_retry d)) = (rxb', d') \<and>
       res = Inl (TimeoutErr [])"
proof -
  obtain res rxb' d' where x: "xferRel xf txb txBytes rxb sz d = ((res, rxb'), d')"
    by (cases "xferRel xf txb txBytes rxb sz d") auto
  then have "xferRel_loop xf (Suc (m_retry d)) (getXid h) txb txBytes sz rxb d = ((res, rxb'), d')"
    using assms by (simp add: xferRel_def)
  from xferRel_loop_result [OF this] x show ?thesis by (simp add: less_Suc_eq_le)
qed

theorem xferRel_attempts_witness:
  "case xferRel silent_xfer [0, 0, 128, 16] 4 [] 0 fresh_drv of ((res, rxb'), d') \<Rightarrow>
    (\<exists>k\<le>m_retry fresh_drv.
       (\<forall>i<k. decision silent_xfer (getXid 0x10800000) [0, 0, 128, 16] 4 0 ([], fresh_drv) i = Retry) \<and>
       after_attempts silent_xfer (getXid 0x10800000) [0, 0, 128, 16] 4 0 ([], fresh_drv) (Suc k) = (rxb', d') \<and>
       (case decision silent_xfer (getXid 0x10800000) [0, 0, 128, 16] 4 0 ([], fresh_drv) k of
          Retry \<Rightarrow> False | Fail e \<Rightarrow> res = Inl e | Done got hdr \<Rightarrow> res = Inr (got, hdr))) \<or>
    (\<forall>i\<le>m_retry fresh_drv. decision silent_xfer (getXid 0x10800000) [0, 0, 128, 16] 4 0 ([], fresh_drv) i = Retry) \<and>
       after_attempts silent_xfer (getXid 0x10800000) [0, 0, 128, 16] 4 0 ([], fresh_drv) (Suc (m_retry fresh_drv)) = (rxb', d') \<and>
       res = Inl (TimeoutErr [])"
  by (rule xferRel_attempts) (simp add: getHdr_le le_word32_def)

text \<open>
  C15.  \<^verbatim>\<open>sendVectors\<close> puts the two vectors into the transmit buffer in the layout of the stream
  protocol, whatever the word size: the header word, then alternating TMS and TDI words, every byte of
  either vector at its place; it sends exactly the message of that size under the next transaction id.
\<close>

theorem sendVectors_layout:
  assumes "bits < 2 ^ 32" and "n = (bits + 7) div 8" and "w = m_wordSize d" and "4 \<le> w" and "w \<le> 16"
    and "n \<le> length tms" and "n \<le> length tdi" and "msg_size w n \<le> length (m_txBuf d)"
  shows "\<exists>tx. shift_msg w (fst (mkShift (word_of_nat bits) (m_xid d))) n tms tdi tx \<and>
    sendVectors xf bits tms tdi tdo d = send_sniff bits tms tdi
      (xferRel xf tx (msg_size w n) tdo n (d\<lparr>m_xid := next_xid (m_xid d), m_txBuf := tx\<rparr>))"
  using sendVectors_msg [OF assms] by blast

theorem sendVectors_layout_witness:
  "\<exists>tx. shift_msg 4 (fst (mkShift (word_of_nat 42) (m_xid fresh_drv))) 6 [1, 2, 3, 4, 5, 6] [7, 8, 9, 10, 11, 12] tx \<and>
    sendVectors silent_xfer 42 [1, 2, 3, 4, 5, 6] [7, 8, 9, 10, 11, 12] [0, 0, 0, 0, 0, 0] fresh_drv =
      send_sniff 42 [1, 2, 3, 4, 5, 6] [7, 8, 9, 10, 11, 12]
      (xferRel silent_xfer tx (msg_size 4 6) [0, 0, 0, 0, 0, 0] 6 (fresh_drv\<lparr>m_xid := next_xid (m_xid fresh_drv), m_txBuf := tx\<rparr>))"
  by (rule sendVectors_layout)
    (simp_all add: msg_size_def)

text \<open>
  C25.  \<^verbatim>\<open>sendVectors\<close> does not check the capacity of \<^verbatim>\<open>txBuf_\<close>: when the whole words of the two
  vectors do not fit behind the header it writes past the end of the buffer, over any transport.
\<close>

theorem sendVectors_overflow:
  assumes "bits < 2 ^ 32" and "n = (bits + 7) div 8" and "w = m_wordSize d" and "4 \<le> w" and "w \<le> 16"
    and "n \<le> length tms" and "n \<le> length tdi"
    and "w \<le> length (m_txBuf d)" and "length (m_txBuf d) < w + 2 * w * (n div w)"
  shows "fst (fst (sendVectors xf bits tms tdi tdo d)) = Inl (Fault ''write out of bounds'')"
proof -
  have "pack_msg (isLE (m_host d)) w (n div w) (n div w * w) (n - n div w * w) h tms tdi (m_txBuf d) =
      Inl (Fault ''write out of bounds'')" for h
    by (rule pack_msg_overflow) (use assms in simp_all)
  then show ?thesis by (simp add: sendVectors_eq [OF assms(1-3,5) refl])
qed

theorem sendVectors_overflow_witness:
  "fst (fst (sendVectors silent_xfer 8192 (replicate 1024 0) (replicate 1024 0) (replicate 1024 0) fresh_drv)) = Inl (Fault ''write out of bounds'')"
  by (rule sendVectors_overflow [where n = 1024 and w = 4]) simp_all

end
