(* ===== verification/Xvc_Conn.thy ===== *)
theory Xvc_Conn
  imports Xvc_Driver
begin

text \<open>
  The connection with an XVC client: class \<^verbatim>\<open>XvcConn\<close> of \<^verbatim>\<open>xvcConn.h\<close>/\<^verbatim>\<open>xvcConn.cc\<close>.

  The object is a record over the type of the driver object; the virtual methods of the driver are an
  argument.  The pointer \<^verbatim>\<open>rp_\<close> is its offset in \<^verbatim>\<open>rxb_\<close>.  \<^verbatim>\<open>maxVecLen_\<close> comes from a 32-bit
  member of the server, so the sums of \<^verbatim>\<open>unsigned long\<close> (64 bits) below do not overflow; where a
  difference could, and in the 32-bit computations of the shift command, the wrap-around is written out.

  The environment is part of the state.  \<open>c_in\<close> holds what \<^verbatim>\<open>select\<close> and \<^verbatim>\<open>read\<close> will see: bytes of
  the client (the empty list is the end of the stream; what a \<^verbatim>\<open>read\<close> does not take stays in the
  socket), errors, and attempts of other clients to connect, with the success of \<^verbatim>\<open>accept\<close>.  A
  \<^verbatim>\<open>select\<close> that reports both descriptors is the attempt followed by the bytes.  When the list is used
  up the server waits forever: \<open>Blocked\<close>.  \<open>c_wr\<close> gives the result of every \<^verbatim>\<open>write\<close>: an error
  or end (not positive), or the number of bytes the socket takes, of which no more than offered are
  used.  \<open>c_out\<close> collects the bytes sent and \<open>c_rejected\<close> counts the other clients turned away.
\<close>

section \<open>State\<close>

datatype net_event =
    Data "u8 list"
  | ReadErr
  | SelectErr
  | NewClient bool

record 'd xvcConn =
  c_drv :: 'd
  c_rxb :: "u8 list"
  c_rp :: nat
  c_rl :: nat
  c_tl :: nat
  c_txb :: "u8 list"
  c_maxVecLen :: nat
  c_supVecLen :: nat
  c_chunk :: nat
  c_in :: "net_event list"
  c_wr :: "nat \<Rightarrow> int"
  c_wn :: nat
  c_nodelay :: int
  c_out :: "u8 list"
  c_rejected :: nat

text \<open>
  The constructor; \<open>accepted\<close> is the result of \<^verbatim>\<open>accept\<close>.  The buffers are allocated, and the
  members that describe them set, by \<open>allocBufs\<close>; before, their values are not used.
\<close>

definition xvcConn_new :: "int \<Rightarrow> net_event list \<Rightarrow> (nat \<Rightarrow> int) \<Rightarrow> int \<Rightarrow> 'd \<Rightarrow> nat \<Rightarrow> 'd xvcConn res" where
  "xvcConn_new accepted evs wr nodelay drv maxVecLen =
     (if accepted < 0 then Inl (SysErr ''Unable to accept connection'')
      else Inr \<lparr>c_drv = drv, c_rxb = [], c_rp = 0, c_rl = 0, c_tl = 0, c_txb = [], c_maxVecLen = maxVecLen,
        c_supVecLen = 0, c_chunk = 0, c_in = evs, c_wr = wr, c_wn = 0, c_nodelay = nodelay, c_out = [],
        c_rejected = 0\<rparr>)"

section \<open>Buffers\<close>

text \<open>
  \<^verbatim>\<open>read\<close>: what the loop around \<^verbatim>\<open>select\<close> and the final \<^verbatim>\<open>::read\<close> of at most \<open>l\<close> bytes do with the
  events.  The result is the return value with the bytes, the events left and the clients rejected.
\<close>

fun sock_read :: "nat \<Rightarrow> net_event list \<Rightarrow> (int \<times> u8 list) res \<times> net_event list \<times> nat" where
  "sock_read l [] = (Inl Blocked, [], 0)"
| "sock_read l (SelectErr # evs) = (Inl (SysErr ''select failed''), evs, 0)"
| "sock_read l (NewClient ok # evs) =
     (case sock_read l evs of (r, evs', n) \<Rightarrow> (r, evs', (if ok then Suc n else n)))"
| "sock_read l (ReadErr # evs) = (Inr (-1, []), evs, 0)"
| "sock_read l (Data bs # evs) =
     (Inr (int (min l (length bs)), take l bs), (if l < length bs then Data (drop l bs) # evs else evs), 0)"

definition conn_read :: "nat \<Rightarrow> nat \<Rightarrow> ('d xvcConn, int) sm" where
  "conn_read off l c =
     (case sock_read l (c_in c) of
        (r, evs, n) \<Rightarrow>
          let c1 = c\<lparr>c_in := evs, c_rejected := c_rejected c + n\<rparr> in
          (case r of
             Inl e \<Rightarrow> (Inl e, c1)
           | Inr (got, bs) \<Rightarrow>
               (case wr_mem (c_rxb c1) off bs of
                  Inl e \<Rightarrow> (Inl e, c1)
                | Inr rxb \<Rightarrow> (Inr got, c1\<lparr>c_rxb := rxb\<rparr>))))"

function fill_loop :: "nat \<Rightarrow> nat \<Rightarrow> ('d xvcConn, unit) sm" where
  "fill_loop k p c =
     (if k > 0 then
        (case conn_read p k c of
           (Inl e, c') \<Rightarrow> (Inl e, c')
         | (Inr got, c') \<Rightarrow>
             if got \<le> 0 then (Inl (SysErr ''Unable to read from socket''), c')
             else fill_loop (k - nat got) (p + nat got) c')
      else (Inr (), c))"
  by pat_completeness auto
termination
  by (relation "measure (\<lambda>(k, p, c). k)") auto

declare fill_loop.simps [simp del]

definition fill :: "nat \<Rightarrow> ('d xvcConn, unit) sm" where
  "fill n c =
     (if n \<le> c_rl c then (Inr (), c)
      else bindS (fill_loop (n - c_rl c) (c_rp c + c_rl c)) (\<lambda>_ c. (Inr (), c\<lparr>c_rl := n\<rparr>)) c)"

definition bump :: "nat \<Rightarrow> 'd xvcConn \<Rightarrow> 'd xvcConn" where
  "bump n c =
     (let c1 = c\<lparr>c_rp := c_rp c + n, c_rl := (c_rl c + 2 ^ 64 - n) mod 2 ^ 64\<rparr>
      in if c_rl c1 = 0 then c1\<lparr>c_rp := 0\<rparr> else c1)"

definition vec_resize :: "nat \<Rightarrow> u8 list \<Rightarrow> u8 list" where
  "vec_resize n v = take n v @ replicate (n - length v) 0"

text \<open>
  The length of the vectors for the driver: what the target holds (zero: no limit, so what the server
  holds), but no more than the driver supports (zero: no limit).
\<close>

definition sup_len :: "nat \<Rightarrow> nat \<Rightarrow> nat \<Rightarrow> nat" where
  "sup_len n maxVecLen drvMax =
     (let tgtVecLen = (if 0 = n then maxVecLen else n)
      in if drvMax = 0 then tgtVecLen else if tgtVecLen < drvMax then tgtVecLen else drvMax)"

definition allocBufs :: "'d jtag_ops \<Rightarrow> ('d xvcConn, unit) sm" where
  "allocBufs ops c =
     (case op_query ops (c_drv c) of
        (Inl e, d) \<Rightarrow> (Inl e, c\<lparr>c_drv := d\<rparr>)
      | (Inr n, d) \<Rightarrow>
          let overhead = 128;
              sup' = sup_len n (c_maxVecLen c) (op_getMaxVectorSize ops d);
              chunk = 2 * c_maxVecLen c + overhead
          in (Inr (), c\<lparr>c_drv := d, c_supVecLen := sup', c_chunk := chunk,
                c_rxb := vec_resize (2 * chunk) (c_rxb c), c_txb := vec_resize (c_maxVecLen c + overhead) (c_txb c),
                c_rp := 0, c_rl := 0, c_tl := 0\<rparr>))"

function flush_loop :: "nat \<Rightarrow> ('d xvcConn, unit) sm" where
  "flush_loop p c =
     (if c_tl c > 0 then
        (let put = c_wr c (c_wn c); c1 = c\<lparr>c_wn := Suc (c_wn c)\<rparr> in
         if put \<le> 0 then (Inl (SysErr ''Unable to send from socket''), c1)
         else
           let n = min (nat put) (c_tl c) in
           (case rd_mem (c_txb c1) p n of
              Inl e \<Rightarrow> (Inl e, c1)
            | Inr bs \<Rightarrow> flush_loop (p + n) (c1\<lparr>c_out := c_out c1 @ bs, c_tl := c_tl c1 - n\<rparr>)))
      else (Inr (), c))"
  by pat_completeness auto
termination
  by (relation "measure (\<lambda>(p, c). c_tl c)") auto

declare flush_loop.simps [simp del]

definition flush :: "('d xvcConn, unit) sm" where
  "flush = flush_loop 0"

section \<open>Messages\<close>

text \<open>The bytes of a string.\<close>

definition ascii :: "string \<Rightarrow> u8 list" where
  "ascii s = map (\<lambda>ch. word_of_nat (of_char ch)) s"

definition info_text :: "nat \<Rightarrow> u8 list" where
  "info_text maxVecLen = ascii (''xvcServer_v1.0:'' @ dec_string maxVecLen @ [char_of (10 :: nat)])"

text \<open>Writing the transmit buffer and the handlers of \<^verbatim>\<open>getinfo\<close> and \<^verbatim>\<open>settck\<close>.\<close>

definition put_tx :: "u8 list \<Rightarrow> ('d xvcConn, unit) sm" where
  "put_tx bs c =
     (case wr_mem (c_txb c) 0 bs of Inl e \<Rightarrow> (Inl e, c) | Inr t \<Rightarrow> (Inr (), c\<lparr>c_txb := t\<rparr>))"

definition get_rx :: "nat \<Rightarrow> nat \<Rightarrow> ('d xvcConn, u8 list) sm" where
  "get_rx off n c = (rd_mem (c_rxb c) (c_rp c + off) n, c)"

definition msg_getinfo :: "'d jtag_ops \<Rightarrow> ('d xvcConn, unit) sm" where
  "msg_getinfo ops =
     bindS (fill 8) (\<lambda>_.
     bindS (\<lambda>c. case op_query ops (c_drv c) of (r, d) \<Rightarrow> (r, c\<lparr>c_drv := d\<rparr>)) (\<lambda>_ c.
     bindS (put_tx (info_text (c_maxVecLen c) @ [0])) (\<lambda>_ c.
       (Inr (), bump 8 (c\<lparr>c_tl := length (info_text (c_maxVecLen c))\<rparr>))) c))"

definition msg_settck :: "'d jtag_ops \<Rightarrow> ('d xvcConn, unit) sm" where
  "msg_settck ops =
     bindS (fill 11) (\<lambda>_.
     bindS (get_rx 7 4) (\<lambda>bs c.
     bindS (put_tx (le_bytes32 (op_setPeriodNs ops (le_word32 bs) (c_drv c)))) (\<lambda>_ c.
       (Inr (), bump 11 (c\<lparr>c_tl := 4\<rparr>))) c))"

text \<open>
  One pass of the loop over the chunks of a vector: the driver gets the bits from the receive buffer
  and writes TDO to the transmit buffer.  The loop does not end when no bit is sent in a pass and the
  driver does not throw: then its value is \<open>None\<close>.
\<close>

definition send_chunk :: "'d jtag_ops \<Rightarrow> nat \<Rightarrow> nat \<Rightarrow> nat \<Rightarrow> ('d xvcConn, unit) sm" where
  "send_chunk ops bitsSent bytes off c =
     (case op_sendVectors ops bitsSent (drop (c_rp c + off) (c_rxb c)) (drop (c_rp c + bytes + off) (c_rxb c))
             (drop off (c_txb c)) (c_drv c) of
        ((r, tdo), d) \<Rightarrow> (r, c\<lparr>c_drv := d, c_txb := take off (c_txb c) @ tdo\<rparr>))"

definition chunk_bits :: "nat \<Rightarrow> u32 \<Rightarrow> u32" where
  "chunk_bits vecLen bitsLeft =
     (let bitsSent = word_of_nat (8 * vecLen) in if bitsLeft < bitsSent then bitsLeft else bitsSent)"

partial_function (option) shift_loop :: "'d jtag_ops \<Rightarrow> nat \<Rightarrow> nat \<Rightarrow> nat \<Rightarrow> u32 \<Rightarrow> 'd xvcConn \<Rightarrow>
    (unit res \<times> 'd xvcConn) option" where
  "shift_loop ops vecLen bytes off bitsLeft c =
     (if bitsLeft > 0 then
        let bitsSent = chunk_bits vecLen bitsLeft
        in (case send_chunk ops (unat bitsSent) bytes off c of
              (Inl e, c') \<Rightarrow> Some (Inl e, c')
            | (Inr _, c') \<Rightarrow> shift_loop ops vecLen bytes (off + vecLen) (bitsLeft - bitsSent) c')
      else Some (Inr (), c))"

definition msg_shift :: "'d jtag_ops \<Rightarrow> 'd xvcConn \<Rightarrow> (unit res \<times> 'd xvcConn) option" where
  "msg_shift ops c0 =
     (case bindS (fill 10) (\<lambda>_. get_rx 6 4) c0 of
        (Inl e, c) \<Rightarrow> Some (Inl e, c)
      | (Inr bs, c) \<Rightarrow>
          let bits = le_word32 bs; bytes = unat ((bits + 7) div 8) in
          if bytes > c_maxVecLen c then Some (Inl (ProtoErr ''Requested bit vector length too big''), c)
          else
            (case fill (2 * bytes) (bump 10 c) of
               (Inl e, c) \<Rightarrow> Some (Inl e, c)
             | (Inr _, c) \<Rightarrow>
                 let vecLen = (if bytes > c_supVecLen c then c_supVecLen c else bytes) in
                 Option.bind (shift_loop ops vecLen bytes 0 bits c) (\<lambda>(r, c).
                   case r of
                     Inl e \<Rightarrow> Some (Inl e, c)
                   | Inr _ \<Rightarrow> Some (Inr (), bump (2 * bytes) (c\<lparr>c_tl := bytes\<rparr>)))))"

definition conn_msg :: "'d jtag_ops \<Rightarrow> 'd xvcConn \<Rightarrow> (unit res \<times> 'd xvcConn) option" where
  "conn_msg ops c0 =
     (case bindS (fill 2) (\<lambda>_. get_rx 0 2) c0 of
        (Inl e, c) \<Rightarrow> Some (Inl e, c)
      | (Inr tag, c) \<Rightarrow>
          if tag = ascii ''ge'' then Some (msg_getinfo ops c)
          else if tag = ascii ''se'' then Some (msg_settck ops c)
          else if tag = ascii ''sh'' then msg_shift ops c
          else Some (Inl (ProtoErr ''unsupported message received''), c))"

text \<open>The inner loop over the messages in the buffer and the outer loop of \<^verbatim>\<open>run\<close>.\<close>

partial_function (option) msg_loop :: "'d jtag_ops \<Rightarrow> 'd xvcConn \<Rightarrow> (unit res \<times> 'd xvcConn) option" where
  "msg_loop ops c0 =
     Option.bind (conn_msg ops c0) (\<lambda>rc.
       case rc of
         (Inl e, c) \<Rightarrow> Some (Inl e, c)
       | (Inr _, c) \<Rightarrow>
           (case flush c of
              (Inl e, c) \<Rightarrow> Some (Inl e, c)
            | (Inr _, c) \<Rightarrow> if c_rl c > 0 then msg_loop ops c else Some (Inr (), c)))"

partial_function (option) conn_loop :: "'d jtag_ops \<Rightarrow> 'd xvcConn \<Rightarrow> (xerr \<times> 'd xvcConn) option" where
  "conn_loop ops c0 =
     (case conn_read (c_rp c0) (c_chunk c0) c0 of
        (Inl e, c) \<Rightarrow> Some (e, c)
      | (Inr got, c) \<Rightarrow>
          if got \<le> 0 then Some (SysErr ''Unable to read from socket'', c)
          else
            Option.bind (msg_loop ops (c\<lparr>c_rl := nat got\<rparr>)) (\<lambda>rc.
              case rc of
                (Inl e, c) \<Rightarrow> Some (e, c)
              | (Inr _, c) \<Rightarrow> conn_loop ops c))"

text \<open>\<^verbatim>\<open>run\<close> leaves its endless loop only by an exception.\<close>

definition conn_run :: "'d jtag_ops \<Rightarrow> 'd xvcConn \<Rightarrow> (xerr \<times> 'd xvcConn) option" where
  "conn_run ops c0 =
     (case allocBufs ops c0 of
        (Inl e, c) \<Rightarrow> Some (e, c)
      | (Inr _, c) \<Rightarrow>
          if c_nodelay c \<noteq> 0 then Some (SysErr ''Unable to set TCP_NODELAY'', c)
          else conn_loop ops c)"

section \<open>Specification\<close>

text \<open>
  The bytes a list of events will deliver, a well-behaved client (no errors; it may close the
  stream at the end: \<open>eof\<close>), and the bytes the connection has not consumed yet, in the buffer and still to come.
\<close>

fun ev_bytes :: "net_event list \<Rightarrow> u8 list" where
  "ev_bytes [] = []"
| "ev_bytes (Data bs # evs) = bs @ ev_bytes evs"
| "ev_bytes (_ # evs) = ev_bytes evs"

fun clean :: "net_event list \<Rightarrow> bool" where
  "clean [] = True"
| "clean (Data bs # evs) = (if bs = [] then evs = [] else clean evs)"
| "clean (NewClient _ # evs) = clean evs"
| "clean (_ # evs) = False"

definition eof :: "net_event list \<Rightarrow> bool" where
  "eof evs \<longleftrightarrow> Data [] \<in> set evs"

definition clean_kept :: "net_event list \<Rightarrow> net_event list \<Rightarrow> bool" where
  "clean_kept evs evs' \<longleftrightarrow> (clean evs \<longrightarrow> clean evs' \<and> (eof evs' \<longleftrightarrow> eof evs))"

definition avail :: "'d xvcConn \<Rightarrow> u8 list" where
  "avail c = take (c_rl c) (drop (c_rp c) (c_rxb c)) @ ev_bytes (c_in c)"

text \<open>
  The invariant of a connection between two messages: the buffers have the sizes \<open>allocBufs\<close> gave
  them, and what is left over lies in the first half of the receive buffer.
\<close>

definition conn_bufs :: "'d xvcConn \<Rightarrow> bool" where
  "conn_bufs c \<longleftrightarrow>
     c_chunk c = 2 * c_maxVecLen c + 128 \<and> length (c_rxb c) = 2 * c_chunk c \<and>
     length (c_txb c) = c_maxVecLen c + 128 \<and> c_maxVecLen c < 2 ^ 32 \<and>
     (c_supVecLen c = 0 \<longrightarrow> c_maxVecLen c = 0)"

definition conn_at :: "'d xvcConn \<Rightarrow> bool" where
  "conn_at c \<longleftrightarrow> c_rp c + c_rl c \<le> c_chunk c \<and> (c_rl c = 0 \<longrightarrow> c_rp c = 0)"

text \<open>The vectors the connection passes to the driver will not be longer than \<open>vlim\<close> bytes.\<close>

definition chunks_fit :: "'d jtag_ops \<Rightarrow> nat \<Rightarrow> nat \<Rightarrow> 'd \<Rightarrow> bool" where
  "chunks_fit ops vlim maxVecLen d \<longleftrightarrow>
     (case op_query ops d of
        (Inl _, _) \<Rightarrow> True
      | (Inr n, d') \<Rightarrow> sup_len n maxVecLen (op_getMaxVectorSize ops d') \<le> vlim)"

text \<open>
  Inside a message: the bytes in the buffer lie in its first half, or are exactly the \<open>m\<close> bytes the
  last \<^verbatim>\<open>fill\<close> asked for.
\<close>

definition conn_mid :: "nat \<Rightarrow> 'd xvcConn \<Rightarrow> bool" where
  "conn_mid m c \<longleftrightarrow> c_rp c \<le> c_chunk c \<and> (c_rp c + c_rl c \<le> c_chunk c \<or> c_rl c = m)"

text \<open>What no message changes, and the effect of a message of \<open>n\<close> bytes with its reply.\<close>

definition conn_fix :: "'d xvcConn \<Rightarrow> nat \<times> nat \<times> nat \<times> (nat \<Rightarrow> int) \<times> nat \<times> u8 list" where
  "conn_fix c = (c_maxVecLen c, c_supVecLen c, c_chunk c, c_wr c, c_wn c, c_out c)"

definition consumed :: "nat \<Rightarrow> u8 list \<Rightarrow> 'd xvcConn \<Rightarrow> 'd xvcConn \<Rightarrow> bool" where
  "consumed n reply c c' \<longleftrightarrow>
     conn_bufs c' \<and> conn_at c' \<and> conn_fix c' = conn_fix c \<and> n \<le> length (avail c) \<and> avail c' = drop n (avail c) \<and>
     c_tl c' \<le> length (c_txb c') \<and> take (c_tl c') (c_txb c') = reply \<and> clean_kept (c_in c) (c_in c')"

definition conn_good :: "('d \<Rightarrow> bool) \<Rightarrow> nat \<Rightarrow> 'd xvcConn \<Rightarrow> bool" where
  "conn_good valid vlim c \<longleftrightarrow> conn_bufs c \<and> conn_at c \<and> valid (c_drv c) \<and> c_supVecLen c \<le> vlim"

text \<open>
  The protocol as a client sees it: messages, their encoding, and the replies of a server that is a
  wire to a device.  The unused bits of the last TDO byte are not specified.  \<open>session\<close> relates a
  sequence of messages to the bytes of all replies and the state of the device.
\<close>

datatype xvc_msg = GetInfo | SetTck u32 | Shift u32 "u8 list" "u8 list"

definition vec_bytes :: "u32 \<Rightarrow> nat" where
  "vec_bytes bits = (unat bits + 7) div 8"

fun encode_msg :: "xvc_msg \<Rightarrow> u8 list" where
  "encode_msg GetInfo = ascii ''getinfo:''"
| "encode_msg (SetTck p) = ascii ''settck:'' @ le_bytes32 p"
| "encode_msg (Shift bits tms tdi) = ascii ''shift:'' @ le_bytes32 bits @ tms @ tdi"

fun msg_ok :: "nat \<Rightarrow> xvc_msg \<Rightarrow> bool" where
  "msg_ok maxVecLen (Shift bits tms tdi) \<longleftrightarrow>
     unat bits + 7 < 2 ^ 32 \<and> vec_bytes bits \<le> maxVecLen \<and> length tms = vec_bytes bits \<and> length tdi = vec_bytes bits"
| "msg_ok maxVecLen _ \<longleftrightarrow> True"

fun reply_ok :: "(bool \<times> bool \<Rightarrow> 's \<Rightarrow> bool \<times> 's) \<Rightarrow> (u32 \<Rightarrow> u32) \<Rightarrow> nat \<Rightarrow> xvc_msg \<Rightarrow> 's \<Rightarrow> u8 list \<Rightarrow> 's \<Rightarrow> bool" where
  "reply_ok step period maxVecLen GetInfo s reply s' \<longleftrightarrow> reply = info_text maxVecLen \<and> s' = s"
| "reply_ok step period maxVecLen (SetTck p) s reply s' \<longleftrightarrow> reply = le_bytes32 (period p) \<and> s' = s"
| "reply_ok step period maxVecLen (Shift bits tms tdi) s reply s' \<longleftrightarrow>
     length reply = vec_bytes bits \<and>
     (take (unat bits) (bits_of_bytes reply), s') =
       dev_run step (zip (take (unat bits) (bits_of_bytes tms)) (take (unat bits) (bits_of_bytes tdi))) s"

inductive session :: "(bool \<times> bool \<Rightarrow> 's \<Rightarrow> bool \<times> 's) \<Rightarrow> (u32 \<Rightarrow> u32) \<Rightarrow> nat \<Rightarrow> xvc_msg list \<Rightarrow> 's \<Rightarrow> u8 list \<Rightarrow> 's \<Rightarrow> bool"
  for step period maxVecLen where
  session_nil: "session step period maxVecLen [] s [] s"
| session_cons: "reply_ok step period maxVecLen m s out s1 \<Longrightarrow> session step period maxVecLen ms s1 outs s2 \<Longrightarrow>
    session step period maxVecLen (m # ms) s (out @ outs) s2"

inductive_cases session_nilE [elim!]: "session step period maxVecLen [] s out s'"
inductive_cases session_consE [elim!]: "session step period maxVecLen (m # ms) s out s'"

text \<open>A driver that accepts everything and a connection, for concrete runs.\<close>

definition null_ops :: "unit jtag_ops" where
  "null_ops = \<lparr>op_query = \<lambda>d. (Inr 0, d), op_getMaxVectorSize = \<lambda>_. 0, op_setPeriodNs = \<lambda>p _. p,
     op_sendVectors = \<lambda>_ _ _ tdo d. ((Inr (), tdo), d)\<rparr>"

definition conn_example :: "net_event list \<Rightarrow> unit xvcConn" where
  "conn_example evs = \<lparr>c_drv = (), c_rxb = replicate 256 0, c_rp = 0, c_rl = 0, c_tl = 0, c_txb = replicate 128 0,
     c_maxVecLen = 0, c_supVecLen = 0, c_chunk = 128, c_in = evs, c_wr = \<lambda>_. 1, c_wn = 0, c_nodelay = 0, c_out = [],
     c_rejected = 0\<rparr>"

section \<open>Lemmas\<close>

subsection \<open>Reading\<close>

lemma xvcConn_newD:
  assumes "xvcConn_new sd evs wr nodelay d mx = Inr c"
  shows "c_drv c = d" "c_maxVecLen c = mx" "c_rxb c = []" "c_txb c = []" "c_in c = evs" "c_wr c = wr" "c_nodelay c = nodelay" "c_out c = []"
  using assms by (auto simp: xvcConn_new_def split: if_splits)

lemma clean_kept_refl [simp]: "clean_kept evs evs"
  by (simp add: clean_kept_def)

lemma clean_kept_trans: "clean_kept a b \<Longrightarrow> clean_kept b c \<Longrightarrow> clean_kept a c"
  by (simp add: clean_kept_def)

lemma clean_keptD: "clean_kept a b \<Longrightarrow> clean a \<Longrightarrow> clean b" "clean_kept a b \<Longrightarrow> clean a \<Longrightarrow> eof b = eof a"
  by (simp_all add: clean_kept_def)

lemma sock_read_bytes:
  assumes "sock_read l evs = (Inr (got, bs), evs', n)"
  shows "bs @ ev_bytes evs' = ev_bytes evs \<and> length bs \<le> l \<and> (0 \<le> got \<longrightarrow> got = int (length bs)) \<and>
    (0 < got \<longrightarrow> clean_kept evs evs')"
  using assms
  by (induction l evs arbitrary: n rule: sock_read.induct) (auto simp: clean_kept_def eof_def split: prod.splits if_splits)

lemma sock_read_clean:
  assumes "clean evs" and "ev_bytes evs \<noteq> []" and "0 < l"
  shows "\<exists>bs evs' n. sock_read l evs = (Inr (int (length bs), bs), evs', n) \<and> bs \<noteq> []"
  using assms by (induction l evs rule: sock_read.induct) (auto split: prod.splits simp: min_def)

lemma sock_read_no_fault: "sock_read l evs = (Inl e, evs', n) \<Longrightarrow> no_fault (Inl e)"
  by (induction l evs arbitrary: n rule: sock_read.induct) (auto split: prod.splits)

lemma conn_read_spec:
  assumes "conn_read p l c = (r, c')" and "p + l \<le> length (c_rxb c)"
  shows "\<exists>rxb evs rej. c' = c\<lparr>c_rxb := rxb, c_in := evs, c_rejected := rej\<rparr> \<and> length rxb = length (c_rxb c) \<and>
    take p rxb = take p (c_rxb c) \<and> no_fault r \<and>
    (\<forall>got. r = Inr got \<longrightarrow> got \<le> int l \<and>
      (0 \<le> got \<longrightarrow> take (nat got) (drop p rxb) @ ev_bytes evs = ev_bytes (c_in c)) \<and> (0 < got \<longrightarrow> clean_kept (c_in c) evs)) \<and>
    (clean (c_in c) \<and> ev_bytes (c_in c) \<noteq> [] \<and> 0 < l \<longrightarrow> (\<exists>got. r = Inr got \<and> 0 < got))"
proof -
  obtain r0 evs n where s: "sock_read l (c_in c) = (r0, evs, n)" by (cases "sock_read l (c_in c)") auto
  show ?thesis
  proof (cases r0)
    case (Inl e)
    have nc: "\<not> (clean (c_in c) \<and> ev_bytes (c_in c) \<noteq> [] \<and> 0 < l)"
      using sock_read_clean [of "c_in c" l] s Inl by auto
    have "c' = c\<lparr>c_in := evs, c_rejected := c_rejected c + n\<rparr>" "r = Inl e"
      using assms(1) s Inl by (auto simp: conn_read_def)
    then show ?thesis using nc sock_read_no_fault [of l "c_in c" e evs n] s Inl
      by (intro exI [of _ "c_rxb c"] exI [of _ evs] exI [of _ "c_rejected c + n"]) (cases c, auto simp: no_fault_Inl)
  next
    case (Inr gb)
    obtain got bs where gb: "gb = (got, bs)" by (cases gb)
    note b = sock_read_bytes [OF s [unfolded Inr gb]]
    define rxb where "rxb = take p (c_rxb c) @ bs @ drop (p + length bs) (c_rxb c)"
    have w: "wr_mem (c_rxb c) p bs = Inr rxb" using b assms(2) by (simp add: rxb_def wr_mem_ok)
    have rc: "r = Inr got" "c' = c\<lparr>c_rxb := rxb, c_in := evs, c_rejected := c_rejected c + n\<rparr>"
      using assms(1) s Inr gb w by (auto simp: conn_read_def)
    have "clean (c_in c) \<and> ev_bytes (c_in c) \<noteq> [] \<and> 0 < l \<Longrightarrow> 0 < got"
      using sock_read_clean [of "c_in c" l] s Inr gb by auto
    moreover have "take p rxb = take p (c_rxb c)" "length rxb = length (c_rxb c)"
      "take (length bs) (drop p rxb) = bs"
      using b assms(2) by (simp_all add: rxb_def)
    ultimately show ?thesis using rc b
      by (intro exI [of _ rxb] exI [of _ evs] exI [of _ "c_rejected c + n"]) auto
  qed
qed

lemma fill_loop_spec:
  assumes "fill_loop k p c = (r, c')" and "p + k \<le> length (c_rxb c)"
  shows "\<exists>rxb evs rej. c' = c\<lparr>c_rxb := rxb, c_in := evs, c_rejected := rej\<rparr> \<and> length rxb = length (c_rxb c) \<and>
    take p rxb = take p (c_rxb c) \<and> no_fault r \<and>
    (r = Inr () \<longrightarrow> take k (drop p rxb) @ ev_bytes evs = ev_bytes (c_in c) \<and> clean_kept (c_in c) evs) \<and>
    (clean (c_in c) \<and> k \<le> length (ev_bytes (c_in c)) \<longrightarrow> r = Inr ())"
  using assms
proof (induction k arbitrary: p c rule: less_induct)
  case (less k)
  show ?case
  proof (cases "k = 0")
    case True
    then have "r = Inr ()" "c' = c" using less.prems by (simp_all add: fill_loop.simps)
    then show ?thesis using True
      by (intro exI [of _ "c_rxb c"] exI [of _ "c_in c"] exI [of _ "c_rejected c"]) (cases c, simp)
  next
    case False
    obtain r1 c1 where rd: "conn_read p k c = (r1, c1)" by (cases "conn_read p k c")
    obtain rxb evs rej where c1: "c1 = c\<lparr>c_rxb := rxb, c_in := evs, c_rejected := rej\<rparr>" "length rxb = length (c_rxb c)"
      "take p rxb = take p (c_rxb c)" "no_fault r1"
      and got: "\<And>got. r1 = Inr got \<Longrightarrow> got \<le> int k \<and>
        (0 \<le> got \<longrightarrow> take (nat got) (drop p rxb) @ ev_bytes evs = ev_bytes (c_in c)) \<and> (0 < got \<longrightarrow> clean_kept (c_in c) evs)"
      and prog: "clean (c_in c) \<and> ev_bytes (c_in c) \<noteq> [] \<and> 0 < k \<Longrightarrow> \<exists>got. r1 = Inr got \<and> 0 < got"
      using conn_read_spec [OF rd less.prems(2)] by blast
    show ?thesis
    proof (cases "\<exists>g. r1 = Inr g \<and> 0 < g")
      case False': False
      then have "c' = c1" "no_fault r" "r \<noteq> Inr ()"
        using less.prems(1) rd c1(4) False by (auto simp: fill_loop.simps no_fault_def split: sum.splits xerr.splits)
      moreover have "\<not> (clean (c_in c) \<and> k \<le> length (ev_bytes (c_in c)))" using False' prog False by fastforce
      ultimately show ?thesis using c1 by (intro exI [of _ rxb] exI [of _ evs] exI [of _ rej]) auto
    next
      case True
      then obtain g where g: "r1 = Inr g" "0 < g" by blast
      have gk: "nat g \<le> k" using got [OF g(1)] by (simp add: nat_le_iff)
      have rec: "fill_loop (k - nat g) (p + nat g) c1 = (r, c')"
        using less.prems(1) rd g False by (simp add: fill_loop.simps [of k p c])
      have len: "p + nat g + (k - nat g) \<le> length (c_rxb c1)" using less.prems(2) gk c1 by simp
      obtain rxb' evs' rej' where c': "c' = c1\<lparr>c_rxb := rxb', c_in := evs', c_rejected := rej'\<rparr>"
        "length rxb' = length rxb" "take (p + nat g) rxb' = take (p + nat g) rxb" "no_fault r"
        and ok: "r = Inr () \<longrightarrow> take (k - nat g) (drop (p + nat g) rxb') @ ev_bytes evs' = ev_bytes evs \<and> clean_kept evs evs'"
        and pr: "clean evs \<and> k - nat g \<le> length (ev_bytes evs) \<longrightarrow> r = Inr ()"
        using less.IH [OF _ rec len] g(2) gk False c1 by auto
      have pre: "take p rxb' = take p rxb" using c'(3) by (metis le_add1 min.absorb1 take_take)
      have mid: "take (nat g) (drop p rxb') = take (nat g) (drop p rxb)"
        using c'(3) by (metis add.commute take_drop)
      have bytes: "take (nat g) (drop p rxb) @ ev_bytes evs = ev_bytes (c_in c)" using got [OF g(1)] g(2) by simp
      have "take k (drop p rxb') = take (nat g) (drop p rxb') @ take (k - nat g) (drop (p + nat g) rxb')"
        using gk by (metis add.commute drop_drop le_add_diff_inverse take_add)
      then have "r = Inr () \<longrightarrow> take k (drop p rxb') @ ev_bytes evs' = ev_bytes (c_in c) \<and> clean_kept (c_in c) evs'"
        using ok bytes mid got [OF g(1)] g(2) clean_kept_trans by auto
      moreover have "clean (c_in c) \<and> k \<le> length (ev_bytes (c_in c)) \<longrightarrow> r = Inr ()"
      proof
        assume a: "clean (c_in c) \<and> k \<le> length (ev_bytes (c_in c))"
        have "length (ev_bytes (c_in c)) \<le> nat g + length (ev_bytes evs)" using bytes [symmetric] by simp
        with a have "k - nat g \<le> length (ev_bytes evs)" by linarith
        with pr a got [OF g(1)] g(2) show "r = Inr ()" by (simp add: clean_kept_def)
      qed
      ultimately show ?thesis using c' c1 pre
        by (intro exI [of _ rxb'] exI [of _ evs'] exI [of _ rej']) auto
    qed
  qed
qed

text \<open>
  \<^verbatim>\<open>fill\<close> touches nothing but the receive buffer and its level, and loses no byte.  For a well-behaved
  client it succeeds when enough bytes are to come.
\<close>

lemma fill_spec:
  assumes "fill n c = (r, c')" and "c_rp c + max n (c_rl c) \<le> length (c_rxb c)"
  shows "\<exists>rxb rl evs rej. c' = c\<lparr>c_rxb := rxb, c_rl := rl, c_in := evs, c_rejected := rej\<rparr> \<and>
    length rxb = length (c_rxb c) \<and> no_fault r \<and>
    (r = Inr () \<longrightarrow> rl = max n (c_rl c) \<and> avail c' = avail c \<and> clean_kept (c_in c) evs) \<and>
    (clean (c_in c) \<and> n \<le> length (avail c) \<longrightarrow> r = Inr ())"
proof (cases "n \<le> c_rl c")
  case True
  then have "r = Inr ()" "c' = c" using assms(1) by (simp_all add: fill_def)
  then show ?thesis using True
    by (intro exI [of _ "c_rxb c"] exI [of _ "c_rl c"] exI [of _ "c_in c"] exI [of _ "c_rejected c"])
      (cases c, simp)
next
  case False
  define k p where "k = n - c_rl c" and "p = c_rp c + c_rl c"
  obtain r1 c1 where l: "fill_loop k p c = (r1, c1)" by (cases "fill_loop k p c")
  have fit: "p + k \<le> length (c_rxb c)" using False assms(2) by (simp add: k_def p_def)
  obtain rxb evs rej where c1: "c1 = c\<lparr>c_rxb := rxb, c_in := evs, c_rejected := rej\<rparr>" "length rxb = length (c_rxb c)"
    "take p rxb = take p (c_rxb c)" "no_fault r1"
    and ok: "r1 = Inr () \<longrightarrow> take k (drop p rxb) @ ev_bytes evs = ev_bytes (c_in c) \<and> clean_kept (c_in c) evs"
    and pr: "clean (c_in c) \<and> k \<le> length (ev_bytes (c_in c)) \<longrightarrow> r1 = Inr ()"
    using fill_loop_spec [OF l fit] by blast
  have fl: "fill n c = (case r1 of Inl e \<Rightarrow> (Inl e, c1) | Inr _ \<Rightarrow> (Inr (), c1\<lparr>c_rl := n\<rparr>))"
    using False l by (simp add: fill_def k_def p_def bindS_def split: sum.splits)
  have len: "c_rl c \<le> length (drop (c_rp c) (c_rxb c))" using assms(2) False by simp
  show ?thesis
  proof (cases r1)
    case (Inl e)
    have "\<not> (clean (c_in c) \<and> n \<le> length (avail c))"
      using pr Inl len by (auto simp: avail_def k_def)
    then show ?thesis using Inl fl assms(1) c1
      by (intro exI [of _ rxb] exI [of _ "c_rl c"] exI [of _ evs] exI [of _ rej])
        (cases c, auto simp: no_fault_Inl)
  next
    case (Inr u)
    have nk: "n = c_rl c + k" using False by (simp add: k_def)
    have "take n (drop (c_rp c) rxb) = take (c_rl c) (drop (c_rp c) rxb) @ take k (drop p rxb)"
      unfolding nk p_def take_add drop_drop by (simp add: add.commute)
    moreover have "take (c_rl c) (drop (c_rp c) rxb) = take (c_rl c) (drop (c_rp c) (c_rxb c))"
      using c1(3) unfolding p_def by (metis add.commute take_drop)
    ultimately have av: "avail (c1\<lparr>c_rl := n\<rparr>) = avail c" using ok Inr c1(1) by (simp add: avail_def)
    have "r = Inr ()" "c' = c1\<lparr>c_rl := n\<rparr>" using Inr fl assms(1) by simp_all
    moreover have "c1\<lparr>c_rl := n\<rparr> = c\<lparr>c_rxb := rxb, c_rl := n, c_in := evs, c_rejected := rej\<rparr>" by (simp add: c1(1))
    moreover have "n = max n (c_rl c)" "clean_kept (c_in c) evs" using False ok Inr by simp_all
    ultimately show ?thesis using c1(2) av
      by (intro exI [of _ rxb] exI [of _ n] exI [of _ evs] exI [of _ rej]) simp
  qed
qed

lemma bump_eq:
  assumes "n \<le> c_rl c" and "c_rl c < 2 ^ 64"
  shows "bump n c = c\<lparr>c_rp := (if c_rl c = n then 0 else c_rp c + n), c_rl := c_rl c - n\<rparr>"
proof -
  have "c_rl c + 2 ^ 64 - n = (c_rl c - n) + 2 ^ 64" using assms(1) by simp
  then have "(c_rl c + 2 ^ 64 - n) mod 2 ^ 64 = c_rl c - n" using assms(2) by (simp only: mod_add_self2) simp
  then show ?thesis using assms(1) by (simp add: bump_def Let_def)
qed

lemma bump_avail:
  assumes "n \<le> c_rl c" and "c_rl c < 2 ^ 64" and "c_rp c + c_rl c \<le> length (c_rxb c)"
  shows "avail (bump n c) = drop n (avail c)"
  using assms by (auto simp: bump_eq avail_def drop_take add.commute)

subsection \<open>Positions in the receive buffer\<close>

lemma conn_at_mid: "conn_at c \<Longrightarrow> conn_mid m c"
  by (simp add: conn_at_def conn_mid_def)

lemma fill_mid:
  assumes "fill n c = (r, c')" and "conn_bufs c" and "conn_mid m c" and "m \<le> n" and "n \<le> c_chunk c"
  shows "conn_bufs c'" and "no_fault r" and "conn_fix c' = conn_fix c" and "c_drv c' = c_drv c" and "c_txb c' = c_txb c"
    and "r = Inr () \<Longrightarrow> conn_mid n c' \<and> n \<le> c_rl c' \<and> avail c' = avail c \<and> clean_kept (c_in c) (c_in c')"
    and "clean (c_in c) \<Longrightarrow> n \<le> length (avail c) \<Longrightarrow> r = Inr ()"
proof -
  have "c_rp c + max n (c_rl c) \<le> length (c_rxb c)"
    using assms(2-5) by (auto simp: conn_bufs_def conn_mid_def)
  from fill_spec [OF assms(1) this] obtain rxb rl evs rej where
    c': "c' = c\<lparr>c_rxb := rxb, c_rl := rl, c_in := evs, c_rejected := rej\<rparr>" "length rxb = length (c_rxb c)" "no_fault r"
    and ok: "r = Inr () \<longrightarrow> rl = max n (c_rl c) \<and> avail c' = avail c \<and> clean_kept (c_in c) evs"
    and pr: "clean (c_in c) \<and> n \<le> length (avail c) \<longrightarrow> r = Inr ()" by blast
  show "conn_bufs c'" "no_fault r" "conn_fix c' = conn_fix c" "c_drv c' = c_drv c" "c_txb c' = c_txb c"
    using assms(2) c' by (simp_all add: conn_bufs_def conn_fix_def)
  show "r = Inr ()" if "clean (c_in c)" "n \<le> length (avail c)" using pr that by simp
  have "c_in c' = evs" "c_rl c' = rl" "c_rp c' = c_rp c" "c_chunk c' = c_chunk c" by (simp_all add: c'(1))
  then show "conn_mid n c' \<and> n \<le> c_rl c' \<and> avail c' = avail c \<and> clean_kept (c_in c) (c_in c')" if "r = Inr ()"
    using that assms(3,4) ok by (auto simp: conn_mid_def max_def)
qed

lemma bump_mid:
  assumes "conn_bufs c" and "conn_mid n c" and "n \<le> c_rl c" and "n \<le> c_chunk c"
  shows "\<exists>rp rl. bump n c = c\<lparr>c_rp := rp, c_rl := rl\<rparr>" and "conn_at (bump n c)" and "conn_bufs (bump n c)"
    and "avail (bump n c) = drop n (avail c)" and "n \<le> length (avail c)"
proof -
  have fit: "c_rp c + c_rl c \<le> length (c_rxb c)" and rl: "c_rl c \<le> c_chunk c" and "c_chunk c < 2 ^ 34"
    using assms by (auto simp: conn_bufs_def conn_mid_def)
  then have rl64: "c_rl c < 2 ^ 64" by simp
  note eq = bump_eq [OF assms(3) rl64]
  show "\<exists>rp rl. bump n c = c\<lparr>c_rp := rp, c_rl := rl\<rparr>" unfolding eq by blast
  show "conn_at (bump n c)" "conn_bufs (bump n c)"
    using assms by (auto simp: eq conn_at_def conn_mid_def conn_bufs_def)
  show "avail (bump n c) = drop n (avail c)" by (rule bump_avail [OF assms(3) rl64 fit])
  show "n \<le> length (avail c)" using assms(3) fit by (simp add: avail_def)
qed

lemma get_rx_avail:
  assumes "conn_bufs c" and "conn_mid m c" and "m \<le> c_chunk c" and "off + k \<le> c_rl c"
  shows "get_rx off k c = (Inr (take k (drop off (avail c))), c)"
proof -
  have fit: "c_rp c + c_rl c \<le> length (c_rxb c)" using assms by (auto simp: conn_bufs_def conn_mid_def)
  have "take k (drop off (avail c)) = take k (drop (c_rp c + off) (c_rxb c))"
    using fit assms(4) by (simp add: avail_def drop_take add.commute)
  then show ?thesis using fit assms(4) by (simp add: get_rx_def rd_mem_ok)
qed

lemma length_num_string: "2 \<le> base \<Longrightarrow> n < base ^ Suc k \<Longrightarrow> length (num_string base n) \<le> Suc k"
proof (induction k arbitrary: n)
  case (Suc k)
  have "n div base < base ^ Suc k" using Suc.prems by (simp add: less_mult_imp_div_less mult.commute)
  with Suc.IH [OF Suc.prems(1) this] show ?case by (simp add: num_string.simps [of base n])
qed (simp add: num_string.simps)

lemma length_info_text:
  assumes "n < 2 ^ 32"
  shows "length (info_text n) \<le> 26"
proof -
  have "length (dec_string n) \<le> 10"
    unfolding dec_string_def using length_num_string [of 10 n 9] assms by simp
  then show ?thesis by (simp add: info_text_def ascii_def)
qed

subsection \<open>Writing\<close>

lemma flush_loop_spec:
  assumes "flush_loop p c = (r, c')" and "p + c_tl c \<le> length (c_txb c)"
  shows "\<exists>out wn tl. c' = c\<lparr>c_out := c_out c @ out, c_wn := wn, c_tl := tl\<rparr> \<and> no_fault r \<and>
    (r = Inr () \<longrightarrow> tl = 0 \<and> out = take (c_tl c) (drop p (c_txb c))) \<and>
    ((\<forall>i. 0 < c_wr c i) \<longrightarrow> r = Inr ())"
  using assms
proof (induction "c_tl c" arbitrary: p c rule: less_induct)
  case less
  show ?case
  proof (cases "c_tl c = 0 \<or> c_wr c (c_wn c) \<le> 0")
    case True
    then have "c' = c\<lparr>c_wn := (if c_tl c = 0 then c_wn c else Suc (c_wn c))\<rparr>"
      "r = (if c_tl c = 0 then Inr () else Inl (SysErr ''Unable to send from socket''))"
      using less.prems(1) by (auto simp: flush_loop.simps Let_def split: if_splits)
    then show ?thesis using True
      by (intro exI [of _ "[]"] exI [of _ "if c_tl c = 0 then c_wn c else Suc (c_wn c)"] exI [of _ "c_tl c"])
        (cases c, auto simp: not_less)
  next
    case False
    define n where "n = min (nat (c_wr c (c_wn c))) (c_tl c)"
    define bs where "bs = take n (drop p (c_txb c))"
    define c1 where "c1 = c\<lparr>c_wn := Suc (c_wn c), c_out := c_out c @ bs, c_tl := c_tl c - n\<rparr>"
    have n: "0 < n" "n \<le> c_tl c" using False by (auto simp: n_def)
    have rd: "rd_mem (c_txb c) p n = Inr bs" using n less.prems(2) by (simp add: bs_def rd_mem_ok)
    have rec: "flush_loop (p + n) c1 = (r, c')"
      using less.prems(1) False rd by (simp add: flush_loop.simps [of p c] Let_def n_def c1_def)
    have len: "p + n + c_tl c1 \<le> length (c_txb c1)" using less.prems(2) n by (simp add: c1_def)
    obtain out wn tl where c': "c' = c1\<lparr>c_out := c_out c1 @ out, c_wn := wn, c_tl := tl\<rparr>" "no_fault r"
      "r = Inr () \<longrightarrow> tl = 0 \<and> out = take (c_tl c1) (drop (p + n) (c_txb c1))"
      "(\<forall>i. 0 < c_wr c1 i) \<longrightarrow> r = Inr ()"
      using less.hyps [OF _ rec len] n by (auto simp: c1_def)
    have "take (c_tl c) (drop p (c_txb c)) = bs @ take (c_tl c - n) (drop (p + n) (c_txb c))"
      using n(2) unfolding bs_def by (metis add.commute drop_drop le_add_diff_inverse take_add)
    then show ?thesis using c'
      by (intro exI [of _ "bs @ out"] exI [of _ wn] exI [of _ tl]) (auto simp: c1_def)
  qed
qed

lemma flush_spec:
  assumes "flush c = (r, c')" and "c_tl c \<le> length (c_txb c)"
  shows "\<exists>out wn tl. c' = c\<lparr>c_out := c_out c @ out, c_wn := wn, c_tl := tl\<rparr> \<and> no_fault r \<and>
    (r = Inr () \<longrightarrow> tl = 0 \<and> out = take (c_tl c) (c_txb c)) \<and> ((\<forall>i. 0 < c_wr c i) \<longrightarrow> r = Inr ())"
  using flush_loop_spec [of 0 c r c'] assms by (simp add: flush_def)

subsection \<open>Shifting\<close>

lemma ceil8_less: "(k :: nat) < 2 ^ 32 \<Longrightarrow> (k + 7) div 8 \<le> 2 ^ 29" by simp

lemma unat_ceil8:
  fixes bits :: u32
  shows "unat ((bits + 7) div 8) = (if unat bits + 7 < 2 ^ 32 then (unat bits + 7) div 8 else 0)"
    and "unat ((bits + 7) div 8) < 2 ^ 29"
proof -
  have "unat (bits + 7) = (unat bits + 7) mod 2 ^ 32" by (simp add: unat_word_ariths)
  moreover have "unat bits < 2 ^ 32" using unsigned_less [of bits] by simp
  ultimately have "unat (bits + 7) = (if unat bits + 7 < 2 ^ 32 then unat bits + 7 else unat bits + 7 - 2 ^ 32)"
    by (simp add: mod_if)
  then show "unat ((bits + 7) div 8) = (if unat bits + 7 < 2 ^ 32 then (unat bits + 7) div 8 else 0)"
    using \<open>unat bits < 2 ^ 32\<close> by (auto simp: unat_div)
  then show "unat ((bits + 7) div 8) < 2 ^ 29" by auto
qed

lemma unat_chunk_bits:
  assumes "8 * vecLen < 2 ^ 32"
  shows "unat (chunk_bits vecLen bitsLeft) = min (unat bitsLeft) (8 * vecLen)"
  using unat_u32_of_nat [OF assms] unfolding chunk_bits_def Let_def word_less_nat_alt by simp

lemma shift_loop_step:
  assumes "0 < bitsLeft"
  shows "shift_loop ops vecLen bytes off bitsLeft c =
    (case send_chunk ops (unat (chunk_bits vecLen bitsLeft)) bytes off c of
       (Inl e, c') \<Rightarrow> Some (Inl e, c')
     | (Inr _, c') \<Rightarrow> shift_loop ops vecLen bytes (off + vecLen) (bitsLeft - chunk_bits vecLen bitsLeft) c')"
  using assms by (subst shift_loop.simps) (simp add: Let_def)

lemma shift_loop_done [simp]: "shift_loop ops vecLen bytes off 0 c = Some (Inr (), c)"
  by (simp add: shift_loop.simps)

subsection \<open>Messages\<close>

lemma put_tx_ok:
  "length bs \<le> length (c_txb c) \<Longrightarrow> put_tx bs c = (Inr (), c\<lparr>c_txb := bs @ drop (length bs) (c_txb c)\<rparr>)"
  by (simp add: put_tx_def wr_mem_ok)

lemma consumedI:
  assumes "conn_bufs c1" and "conn_mid n c1" and "n \<le> c_rl c1" and "n \<le> c_chunk c1"
    and "avail c1 = avail c" and "clean_kept (c_in c) (c_in c1)" and "conn_fix c1 = conn_fix c"
    and "c_tl c1 = length reply" and "c_tl c1 \<le> length (c_txb c1)" and "take (length reply) (c_txb c1) = reply"
  shows "consumed n reply c (bump n c1)"
proof -
  note b = bump_mid [OF assms(1-4)]
  from b(1) obtain rp rl where eq: "bump n c1 = c1\<lparr>c_rp := rp, c_rl := rl\<rparr>" by blast
  have "conn_fix (bump n c1) = conn_fix c" "c_tl (bump n c1) = length reply" "c_txb (bump n c1) = c_txb c1"
    "c_in (bump n c1) = c_in c1"
    using assms(7,8) by (simp_all add: eq conn_fix_def)
  then show ?thesis using b assms(5,6,8-10) by (simp add: consumed_def)
qed

lemma settck_spec:
  assumes "conn_bufs c" and "conn_mid 2 c" and "msg_settck ops c = (r, c')"
    and "reply = le_bytes32 (op_setPeriodNs ops (le_word32 (take 4 (drop 7 (avail c)))) (c_drv c))"
  shows "no_fault r \<and> (r = Inr () \<longrightarrow> c_drv c' = c_drv c \<and> consumed 11 reply c c') \<and>
    (clean (c_in c) \<and> 11 \<le> length (avail c) \<longrightarrow> r = Inr ())"
proof -
  obtain r1 c1 where f: "fill 11 c = (r1, c1)" by (cases "fill 11 c")
  have "(11 :: nat) \<le> c_chunk c" using assms(1) by (simp add: conn_bufs_def)
  note fm = fill_mid [OF f assms(1,2) _ this]
  show ?thesis
  proof (cases r1)
    case (Inl e)
    then show ?thesis using assms(3) f fm(2,7) by (auto simp: msg_settck_def no_fault_Inl)
  next
    case (Inr u)
    then have ok: "conn_mid 11 c1" "11 \<le> c_rl c1" "avail c1 = avail c" "clean_kept (c_in c) (c_in c1)"
      using fm(6) by simp_all
    define c2 where "c2 = c1\<lparr>c_txb := reply @ drop 4 (c_txb c1), c_tl := 4\<rparr>"
    have ch: "(11 :: nat) \<le> c_chunk c1" "4 \<le> length (c_txb c1)" using fm(1) by (simp_all add: conn_bufs_def)
    have len: "length reply = 4" by (simp add: assms(4))
    have "get_rx 7 4 c1 = (Inr (take 4 (drop 7 (avail c))), c1)"
      using get_rx_avail [OF fm(1) ok(1) ch(1), of 7 4] ok(2,3) by simp
    then have rc: "r = Inr ()" "c' = bump 11 c2"
      using assms(3) f Inr ch(2) put_tx_ok [of reply c1] fm(4) len
      by (auto simp: msg_settck_def bindS_def assms(4) [symmetric] c2_def)
    have "consumed 11 reply c (bump 11 c2)"
      by (rule consumedI)
        (use fm(1,3) ok ch len in \<open>simp_all add: c2_def conn_bufs_def conn_mid_def avail_def conn_fix_def\<close>)
    moreover have "c_drv (bump 11 c2) = c_drv c" using fm(4) by (simp add: bump_def c2_def Let_def)
    ultimately show ?thesis using rc by simp
  qed
qed

text \<open>
  A shift message up to the loop over its chunks: either it fails before, or both vectors are in the
  receive buffer.
\<close>

lemma msg_shift_cases:
  fixes c :: "'d xvcConn"
  assumes "conn_bufs c" and "conn_mid 2 c" and "bits = le_word32 (take 4 (drop 6 (avail c)))"
    and "bytes = unat ((bits + 7) div 8)"
  obtains (failed) e c' where "msg_shift ops c = Some (Inl e, c')" and "no_fault (Inl e :: unit res)"
      and "\<not> (clean (c_in c) \<and> bytes \<le> c_maxVecLen c \<and> 10 + 2 * bytes \<le> length (avail c))"
      and "clean (c_in c) \<Longrightarrow> 10 \<le> length (avail c) \<Longrightarrow> c_maxVecLen c < bytes \<Longrightarrow>
        e = ProtoErr ''Requested bit vector length too big''"
      and "c_drv c' = c_drv c" and "conn_fix c' = conn_fix c"
    | (ready) c3 where "bytes \<le> c_maxVecLen c" and "conn_bufs c3" and "conn_mid (2 * bytes) c3" and "2 * bytes \<le> c_rl c3"
      and "avail c3 = drop 10 (avail c)" and "10 \<le> length (avail c)" and "conn_fix c3 = conn_fix c"
      and "c_drv c3 = c_drv c" and "c_txb c3 = c_txb c" and "clean_kept (c_in c) (c_in c3)"
      and "msg_shift ops c = Option.bind
        (shift_loop ops (if bytes > c_supVecLen c then c_supVecLen c else bytes) bytes 0 bits c3)
        (\<lambda>(r, c). case r of Inl e \<Rightarrow> Some (Inl e, c) | Inr _ \<Rightarrow> Some (Inr (), bump (2 * bytes) (c\<lparr>c_tl := bytes\<rparr>)))"
proof -
  obtain r1 c1 where f1: "fill 10 c = (r1, c1)" by (cases "fill 10 c")
  have le: "(2 :: nat) \<le> 10" "10 \<le> c_chunk c" using assms(1) by (simp_all add: conn_bufs_def)
  note fm = fill_mid [OF f1 assms(1,2) le]
  have fixd: "c_maxVecLen c1 = c_maxVecLen c" "c_supVecLen c1 = c_supVecLen c" "c_chunk c1 = c_chunk c"
    using fm(3) by (simp_all add: conn_fix_def)
  show thesis
  proof (cases r1)
    case (Inl e)
    have "msg_shift ops c = Some (Inl e, c1)" using f1 Inl by (simp add: msg_shift_def)
    moreover have "\<not> (clean (c_in c) \<and> 10 \<le> length (avail c))" using fm(7) Inl by auto
    ultimately show ?thesis using failed [of e c1] fm(2-4) Inl by (auto simp: no_fault_Inl)
  next
    case (Inr u)
    then have ok: "conn_mid 10 c1" "10 \<le> c_rl c1" "avail c1 = avail c" "clean_kept (c_in c) (c_in c1)"
      using fm(6) by simp_all
    have ch: "(10 :: nat) \<le> c_chunk c1" using fm(1) by (simp add: conn_bufs_def)
    have g: "bindS (fill 10) (\<lambda>_. get_rx 6 4) c = (Inr (take 4 (drop 6 (avail c))), c1)"
      using f1 Inr get_rx_avail [OF fm(1) ok(1) ch, of 6 4] ok(2,3) by (simp add: bindS_def)
    note ms = msg_shift_def [of ops c, unfolded g prod.case sum.case Let_def assms(3) [symmetric] assms(4) [symmetric] fixd]
    note b = bump_mid [OF fm(1) ok(1,2) ch]
    from b(1) obtain rp rl where be: "bump 10 c1 = c1\<lparr>c_rp := rp, c_rl := rl\<rparr>" by blast
    show ?thesis
    proof (cases "c_maxVecLen c < bytes")
      case True
      then show ?thesis using failed [of "ProtoErr ''Requested bit vector length too big''" c1] ms fm(3,4) by simp
    next
      case False
      obtain r2 c2 where f2: "fill (2 * bytes) (bump 10 c1) = (r2, c2)" by (cases "fill (2 * bytes) (bump 10 c1)")
      have le2: "2 * bytes \<le> c_chunk (bump 10 c1)" using False b(3) by (simp add: be conn_bufs_def fixd)
      note fm2 = fill_mid [OF f2 b(3) conn_at_mid [OF b(2)] le0 le2]
      show ?thesis
      proof (cases r2)
        case (Inl e)
        have "msg_shift ops c = Some (Inl e, c2)" using ms False f2 Inl by simp
        moreover have "\<not> (clean (c_in c) \<and> 10 + 2 * bytes \<le> length (avail c))"
        proof
          assume a: "clean (c_in c) \<and> 10 + 2 * bytes \<le> length (avail c)"
          have "2 * bytes \<le> length (avail (bump 10 c1))" 
            unfolding b(4) ok(3) length_drop using a by linarith
          with fm2(7) a clean_keptD(1) [OF ok(4)] Inl show False by (simp add: be)
        qed
        moreover have "c_drv c2 = c_drv c" "conn_fix c2 = conn_fix c" using fm2(3,4) fm(3,4) by (simp_all add: be conn_fix_def)
        ultimately show ?thesis using failed [of e c2] fm2(2) Inl False by (auto simp: no_fault_Inl)
      next
        case Inr2: (Inr u2)
        have "c_supVecLen c2 = c_supVecLen c" using fm2(3) fixd by (simp add: conn_fix_def be)
        then have m: "msg_shift ops c = Option.bind
          (shift_loop ops (if bytes > c_supVecLen c then c_supVecLen c else bytes) bytes 0 bits c2)
          (\<lambda>(r, c). case r of Inl e \<Rightarrow> Some (Inl e, c) | Inr _ \<Rightarrow> Some (Inr (), bump (2 * bytes) (c\<lparr>c_tl := bytes\<rparr>)))"
          using ms False f2 Inr2 by simp
        show ?thesis
          by (rule ready [OF _ fm2(1) _ _ _ _ _ _ _ _ m])
            (use False fm2 fm(3-5) b ok Inr2 be in \<open>auto simp: conn_fix_def intro: clean_kept_trans\<close>)
      qed
    qed
  qed
qed

lemma consumed_trans:
  assumes "consumed n reply c1 c'" and "avail c1 = avail c" and "conn_fix c1 = conn_fix c"
    and "clean_kept (c_in c) (c_in c1)"
  shows "consumed n reply c c'"
  using assms by (auto simp: consumed_def intro: clean_kept_trans)

lemma shift_consumed:
  assumes "bytes \<le> c_maxVecLen c" and "conn_bufs c3" and "conn_mid (2 * bytes) c3" and "2 * bytes \<le> c_rl c3"
    and "avail c3 = drop 10 (avail c)" and "10 \<le> length (avail c)" and "conn_fix c3 = conn_fix c"
    and "clean_kept (c_in c) (c_in c3)" and "length txb = length (c_txb c3)"
  shows "consumed (10 + 2 * bytes) (take bytes txb) c (bump (2 * bytes) (c3\<lparr>c_drv := d, c_txb := txb, c_tl := bytes\<rparr>))"
proof -
  define c4 where "c4 = c3\<lparr>c_drv := d, c_txb := txb, c_tl := bytes\<rparr>"
  have fixd: "c_maxVecLen c3 = c_maxVecLen c" using assms(7) by (simp add: conn_fix_def)
  have len: "2 * bytes \<le> c_chunk c4" "bytes \<le> length txb"
    using assms(1,2,9) fixd by (simp_all add: c4_def conn_bufs_def)
  have eq: "c_tl c4 = bytes" "c_txb c4 = txb" by (simp_all add: c4_def)
  have "consumed (2 * bytes) (take bytes txb) c3 (bump (2 * bytes) c4)"
    by (rule consumedI)
      (use assms(2-4,9) len in \<open>simp_all add: c4_def conn_bufs_def conn_mid_def avail_def conn_fix_def\<close>)
  moreover have "drop (2 * bytes + 10) (avail c) = drop (10 + 2 * bytes) (avail c)" by (simp only: add.commute)
  ultimately show ?thesis using assms(5-8) unfolding c4_def [symmetric]
    by (auto simp: consumed_def intro: clean_kept_trans)
qed

lemma conn_msg_cases:
  fixes c :: "'d xvcConn"
  assumes "conn_bufs c" and "conn_at c"
  obtains (failed) e c' where "conn_msg ops c = Some (Inl e, c')" and "no_fault (Inl e :: unit res)"
      and "\<not> (clean (c_in c) \<and> 2 \<le> length (avail c))"
    | (tagged) c1 where "conn_bufs c1" and "conn_mid 2 c1" and "2 \<le> length (avail c)" and "avail c1 = avail c"
      and "conn_fix c1 = conn_fix c" and "c_drv c1 = c_drv c" and "clean_kept (c_in c) (c_in c1)"
      and "conn_msg ops c =
        (if take 2 (avail c) = ascii ''ge'' then Some (msg_getinfo ops c1)
         else if take 2 (avail c) = ascii ''se'' then Some (msg_settck ops c1)
         else if take 2 (avail c) = ascii ''sh'' then msg_shift ops c1
         else Some (Inl (ProtoErr ''unsupported message received''), c1))"
proof -
  obtain r1 c1 where f: "fill 2 c = (r1, c1)" by (cases "fill 2 c")
  have ch: "2 \<le> c_chunk c" using assms(1) by (simp add: conn_bufs_def)
  note fm = fill_mid [OF f assms(1) conn_at_mid [OF assms(2)] order_refl ch]
  show thesis
  proof (cases r1)
    case (Inl e)
    have "conn_msg ops c = Some (Inl e, c1)" using f Inl by (simp add: conn_msg_def)
    then show ?thesis using failed [of e c1] fm(2,7) Inl by (auto simp: no_fault_Inl)
  next
    case (Inr u)
    then have ok: "conn_mid 2 c1" "2 \<le> c_rl c1" "avail c1 = avail c" "clean_kept (c_in c) (c_in c1)"
      using fm(6) by simp_all
    have ch1: "2 \<le> c_chunk c1" using fm(1) by (simp add: conn_bufs_def)
    have g: "bindS (fill 2) (\<lambda>_. get_rx 0 2) c = (Inr (take 2 (avail c)), c1)"
      using f Inr get_rx_avail [OF fm(1) ok(1) ch1, of 0 2] ok(2,3) by (simp add: bindS_def)
    have "2 \<le> length (avail c)" using bump_mid(5) [OF fm(1) ok(1,2) ch1] ok(3) by simp
    then show ?thesis using tagged [OF fm(1) ok(1) _ ok(3) fm(3,4) ok(4)] conn_msg_def [of ops c] by (simp add: g)
  qed
qed

context jtag_driver
begin

lemma send_chunk_safe:
  assumes "valid (c_drv c)" and "n = (b + 7) div 8" and "n \<le> vlim" and "c_rp c + bytes + off + n \<le> length (c_rxb c)"
    and "off + n \<le> length (c_txb c)" and "send_chunk ops b bytes off c = (r, c')"
  shows "\<exists>d txb. c' = c\<lparr>c_drv := d, c_txb := txb\<rparr> \<and> length txb = length (c_txb c) \<and> no_fault r \<and>
    (r = Inr () \<longrightarrow> valid d \<and> b \<noteq> 0)"
proof -
  let ?tms = "drop (c_rp c + off) (c_rxb c)" and ?tdi = "drop (c_rp c + bytes + off) (c_rxb c)" and ?tdo = "drop off (c_txb c)"
  obtain r1 tdo d where s: "op_sendVectors ops b ?tms ?tdi ?tdo (c_drv c) = ((r1, tdo), d)"
    by (cases "op_sendVectors ops b ?tms ?tdi ?tdo (c_drv c)") auto
  have c': "c' = c\<lparr>c_drv := d, c_txb := take off (c_txb c) @ tdo\<rparr>" "r = r1"
    using assms(6) s by (simp_all add: send_chunk_def)
  have len: "n \<le> length ?tms" "n \<le> length ?tdi" "n \<le> length ?tdo" using assms(4,5) by simp_all
  have "no_fault r1 \<and> length tdo = length ?tdo"
    by (rule send_safe [OF assms(1) _ _ _ _ s]) (use assms(2,3) len in simp_all)
  moreover have "valid d" if "r1 = Inr ()"
    by (rule send_wf [OF assms(1) _ _ _ _ s [unfolded that]]) (use assms(2,3) len in simp_all)
  moreover have "b \<noteq> 0" if "r1 = Inr ()"
    using send_zero [OF assms(1), of ?tms ?tdi ?tdo] s that by (metis fst_conv)
  ultimately show ?thesis using c' assms(5)
    by (intro exI [of _ d] exI [of _ "take off (c_txb c) @ tdo"]) auto
qed

text \<open>
  The loop over the chunks returns, whatever the driver does with them: every pass that succeeds sends
  at least one bit, and a pass of zero bits throws.
\<close>

lemma shift_loop_safe:
  assumes "bytes < 2 ^ 29" and "c_rp c + 2 * bytes \<le> length (c_rxb c)" and "bytes \<le> length (c_txb c)"
    and "valid (c_drv c)" and "vecLen \<le> vlim" and "vecLen \<le> bytes"
    and "0 < bitsLeft \<Longrightarrow> vecLen = 0 \<and> off = 0 \<or> off + (unat bitsLeft + 7) div 8 = bytes"
  shows "\<exists>r d txb. shift_loop ops vecLen bytes off bitsLeft c = Some (r, c\<lparr>c_drv := d, c_txb := txb\<rparr>) \<and>
    no_fault r \<and> length txb = length (c_txb c) \<and> (r = Inr () \<longrightarrow> valid d)"
  using assms(2,3,4,7)
proof (induction "unat bitsLeft" arbitrary: off bitsLeft c rule: less_induct)
  case less
  show ?case
  proof (cases "bitsLeft = 0")
    case True
    then have "shift_loop ops vecLen bytes off bitsLeft c = Some (Inr (), c\<lparr>c_drv := c_drv c, c_txb := c_txb c\<rparr>)"
      by (simp add: shift_loop.simps)
    then show ?thesis using less.prems(3) by (intro exI conjI) (assumption | simp)+
  next
    case False
    then have pos: "0 < bitsLeft" by (simp add: word_neq_0_conv)
    define b where "b = chunk_bits vecLen bitsLeft"
    have ub: "unat b = min (unat bitsLeft) (8 * vecLen)"
      unfolding b_def using assms(1,6) by (intro unat_chunk_bits) simp
    define n where "n = (unat b + 7) div 8"
    have n: "n \<le> vecLen" "n \<le> (unat bitsLeft + 7) div 8" by (auto simp: n_def ub)
    have fit: "off + n \<le> bytes" using less.prems(4) [OF pos] n by auto
    obtain r1 c1 where s: "send_chunk ops (unat b) bytes off c = (r1, c1)" by (cases "send_chunk ops (unat b) bytes off c")
    obtain d txb where c1: "c1 = c\<lparr>c_drv := d, c_txb := txb\<rparr>" "length txb = length (c_txb c)" "no_fault r1"
      "r1 = Inr () \<longrightarrow> valid d \<and> unat b \<noteq> 0"
      using send_chunk_safe [OF less.prems(3) n_def _ _ _ s] n(1) fit less.prems(1,2) assms(5) by auto
    have step: "shift_loop ops vecLen bytes off bitsLeft c =
        (case r1 of Inl e \<Rightarrow> Some (Inl e, c1) | Inr _ \<Rightarrow> shift_loop ops vecLen bytes (off + vecLen) (bitsLeft - b) c1)"
      using pos s by (simp add: shift_loop_step b_def split: sum.splits)
    show ?thesis
    proof (cases r1)
      case (Inl e)
      then show ?thesis using step c1 by (intro exI [of _ r1] exI [of _ d] exI [of _ txb]) simp
    next
      case (Inr u)
      then have wfd: "valid d" and b0: "unat b \<noteq> 0" using c1(4) by simp_all
      have sub: "unat (bitsLeft - b) = unat bitsLeft - unat b" using ub by (simp add: unat_sub word_le_nat_alt)
      have less1: "unat (bitsLeft - b) < unat bitsLeft" using sub b0 ub by simp
      have next_off: "vecLen = 0 \<and> off + vecLen = 0 \<or> off + vecLen + (unat (bitsLeft - b) + 7) div 8 = bytes"
        if "0 < bitsLeft - b"
      proof -
        from that have "0 < unat (bitsLeft - b)" by (simp add: word_less_nat_alt)
        then have "unat b = 8 * vecLen" "8 * vecLen < unat bitsLeft" using ub sub by auto
        then have "(unat bitsLeft + 7) div 8 = vecLen + (unat (bitsLeft - b) + 7) div 8" using sub by simp
        with less.prems(4) [OF pos] b0 ub show ?thesis by auto
      qed
      obtain r d' txb' where "shift_loop ops vecLen bytes (off + vecLen) (bitsLeft - b) c1 =
          Some (r, c1\<lparr>c_drv := d', c_txb := txb'\<rparr>)" "no_fault r" "length txb' = length (c_txb c1)" "r = Inr () \<longrightarrow> valid d'"
        using less.hyps [OF less1, of c1 "off + vecLen"] less.prems(1,2) wfd c1(1,2) next_off by auto
      then show ?thesis using step Inr c1 by (intro exI [of _ r] exI [of _ d'] exI [of _ txb']) simp
    qed
  qed
qed

lemma getinfo_spec:
  assumes "conn_bufs c" and "conn_mid 2 c" and "valid (c_drv c)" and "msg_getinfo ops c = (r, c')"
    and "op_query ops (c_drv c) = (q, d)"
  shows "no_fault r \<and> (r = Inr () \<longrightarrow> c_drv c' = d \<and> (\<exists>n. q = Inr n) \<and> consumed 8 (info_text (c_maxVecLen c)) c c') \<and>
    (clean (c_in c) \<and> 8 \<le> length (avail c) \<and> (\<exists>n. q = Inr n) \<longrightarrow> r = Inr ())"
proof -
  obtain r1 c1 where f: "fill 8 c = (r1, c1)" by (cases "fill 8 c")
  have "(8 :: nat) \<le> c_chunk c" using assms(1) by (simp add: conn_bufs_def)
  note fm = fill_mid [OF f assms(1,2) _ this]
  show ?thesis
  proof (cases "\<exists>n. r1 = Inr () \<and> q = Inr n")
    case False
    have "no_fault q" using query_safe assms(3,5) by blast
    then have "no_fault r" "r \<noteq> Inr ()" using assms(4,5) f fm(2,4) False
      by (auto simp: msg_getinfo_def bindS_def no_fault_def split: sum.splits xerr.splits)
    moreover have "\<not> (clean (c_in c) \<and> 8 \<le> length (avail c) \<and> (\<exists>n. q = Inr n))" using fm(7) False by auto
    ultimately show ?thesis by blast
  next
    case True
    then obtain n where n: "r1 = Inr ()" "q = Inr n" by blast
    have ok: "conn_mid 8 c1" "8 \<le> c_rl c1" "avail c1 = avail c" "clean_kept (c_in c) (c_in c1)"
      using fm(6) n(1) by simp_all
    define reply where "reply = info_text (c_maxVecLen c)"
    have mx: "c_maxVecLen c1 = c_maxVecLen c" using fm(3) by (simp add: conn_fix_def)
    have len: "length reply \<le> 26" using length_info_text assms(1) by (simp add: reply_def conn_bufs_def)
    have ch: "(8 :: nat) \<le> c_chunk c1" "length (reply @ [0]) \<le> length (c_txb c1)"
      using fm(1) len by (simp_all add: conn_bufs_def)
    define c2 where "c2 = c1\<lparr>c_drv := d, c_txb := (reply @ [0]) @ drop (length (reply @ [0])) (c_txb c1), c_tl := length reply\<rparr>"
    have rc: "r = Inr ()" "c' = bump 8 c2"
      using assms(4,5) f n fm(4) ch(2) put_tx_ok [of "reply @ [0]" "c1\<lparr>c_drv := d\<rparr>"]
      by (auto simp: msg_getinfo_def bindS_def c2_def mx reply_def [symmetric])
    have "consumed 8 reply c (bump 8 c2)"
      by (rule consumedI)
        (use fm(1,3) ok ch in \<open>simp_all add: c2_def conn_bufs_def conn_mid_def avail_def conn_fix_def\<close>)
    moreover have "c_drv (bump 8 c2) = d" by (simp add: bump_def c2_def Let_def)
    ultimately show ?thesis using rc n(2) by (simp add: reply_def)
  qed
qed

lemma shift_safe:
  assumes "conn_bufs c" and "conn_mid 2 c" and "valid (c_drv c)" and "c_supVecLen c \<le> vlim"
    and "bits = le_word32 (take 4 (drop 6 (avail c)))" and "bytes = unat ((bits + 7) div 8)"
  shows "\<exists>r c'. msg_shift ops c = Some (r, c') \<and> no_fault r \<and>
    (r = Inr () \<longrightarrow> valid (c_drv c') \<and> consumed (10 + 2 * bytes) (take bytes (c_txb c')) c c')"
  using assms(1,2,5,6)
proof (cases rule: msg_shift_cases [where ops = ops])
  case (failed e c')
  then show ?thesis by (intro exI [of _ "Inl e"] exI [of _ c']) simp
next
  case (ready c3)
  define vecLen where "vecLen = (if bytes > c_supVecLen c then c_supVecLen c else bytes)"
  have fixd: "c_maxVecLen c3 = c_maxVecLen c" "c_chunk c3 = c_chunk c"
    using ready(7) by (simp_all add: conn_fix_def)
  have fit: "c_rp c3 + 2 * bytes \<le> length (c_rxb c3)" "bytes \<le> length (c_txb c3)"
    using ready(1-4) by (auto simp: conn_bufs_def conn_mid_def fixd)
  have vec: "vecLen \<le> vlim" "vecLen \<le> bytes" "vecLen = 0 \<Longrightarrow> bytes = 0"
    using assms(1,4) ready(1) by (auto simp: vecLen_def conn_bufs_def split: if_splits)
  have size: "vecLen = 0 \<and> 0 = (0 :: nat) \<or> 0 + (unat bits + 7) div 8 = bytes"
  proof (cases "vecLen = 0")
    case False
    then have "bytes \<noteq> 0" using vec(2) by auto
    then show ?thesis using assms(6) unat_ceil8(1) [of bits] by (auto split: if_splits)
  qed simp
  obtain r d txb where l: "shift_loop ops vecLen bytes 0 bits c3 = Some (r, c3\<lparr>c_drv := d, c_txb := txb\<rparr>)"
    "no_fault r" "length txb = length (c_txb c3)" "r = Inr () \<longrightarrow> valid d"
    using shift_loop_safe [OF _ fit _ vec(1,2) size] assms(3,6) ready(8) unat_ceil8(2) [of bits] by auto
  have "r = Inr () \<longrightarrow> consumed (10 + 2 * bytes) (take bytes txb) c (bump (2 * bytes) (c3\<lparr>c_drv := d, c_txb := txb, c_tl := bytes\<rparr>))"
    using shift_consumed [OF ready(1-7,10) l(3)] ready(9) by simp
  moreover have "c_drv (bump (2 * bytes) (c3\<lparr>c_drv := d, c_txb := txb, c_tl := bytes\<rparr>)) = d"
    "c_txb (bump (2 * bytes) (c3\<lparr>c_drv := d, c_txb := txb, c_tl := bytes\<rparr>)) = txb"
    by (simp_all add: bump_def Let_def)
  ultimately show ?thesis using ready(11) l
    by (cases r) (auto simp: vecLen_def [symmetric] no_fault_Inl)
qed

lemma conn_msg_safe:
  assumes "conn_good valid vlim c"
  shows "\<exists>r c'. conn_msg ops c = Some (r, c') \<and> no_fault r \<and>
    (r = Inr () \<longrightarrow> conn_good valid vlim c' \<and> c_tl c' \<le> length (c_txb c') \<and> length (avail c') < length (avail c))"
proof -
  have c: "conn_bufs c" "conn_at c" "valid (c_drv c)" "c_supVecLen c \<le> vlim"
    using assms by (simp_all add: conn_good_def)
  have good: "conn_good valid vlim c' \<and> c_tl c' \<le> length (c_txb c') \<and> length (avail c') < length (avail c)"
    if "consumed n reply c1 c'" "valid (c_drv c')" "0 < n" "avail c1 = avail c" "conn_fix c1 = conn_fix c" for n reply c1 c'
    using that c(4) by (auto simp: consumed_def conn_good_def conn_fix_def)
  show ?thesis
    using c(1,2)
  proof (cases rule: conn_msg_cases [where ops = ops])
    case (failed e c')
    then show ?thesis by (intro exI [of _ "Inl e"] exI [of _ c']) simp
  next
    case (tagged c1)
    have wf1: "valid (c_drv c1)" "c_supVecLen c1 \<le> vlim" using tagged(5,6) c(3,4) by (simp_all add: conn_fix_def)
    consider (ge) "take 2 (avail c) = ascii ''ge''" | (se) "take 2 (avail c) \<noteq> ascii ''ge''" "take 2 (avail c) = ascii ''se''"
      | (sh) "take 2 (avail c) \<noteq> ascii ''ge''" "take 2 (avail c) \<noteq> ascii ''se''" "take 2 (avail c) = ascii ''sh''"
      | (other) "take 2 (avail c) \<notin> {ascii ''ge'', ascii ''se'', ascii ''sh''}" by blast
    then show ?thesis
    proof cases
      case ge
      obtain r c' where m: "msg_getinfo ops c1 = (r, c')" by (cases "msg_getinfo ops c1")
      obtain q d where q: "op_query ops (c_drv c1) = (q, d)" by (cases "op_query ops (c_drv c1)")
      from getinfo_spec [OF tagged(1,2) wf1(1) m q] query_wf [OF wf1(1)] q good [of 8 _ c1 c'] tagged(4,5,8) ge m
      show ?thesis by (intro exI [of _ r] exI [of _ c']) auto
    next
      case se
      obtain r c' where m: "msg_settck ops c1 = (r, c')" by (cases "msg_settck ops c1")
      from settck_spec [OF tagged(1,2) m refl] wf1(1) good [of 11 _ c1 c'] tagged(4,5,8) se m
      show ?thesis by (intro exI [of _ r] exI [of _ c']) auto
    next
      case sh
      from shift_safe [OF tagged(1,2) wf1 refl refl] obtain r c' n where
        m: "msg_shift ops c1 = Some (r, c')" "no_fault r"
        "r = Inr () \<longrightarrow> valid (c_drv c') \<and> consumed (10 + 2 * n) (take n (c_txb c')) c1 c'" by blast
      with good [of "10 + 2 * n" _ c1 c'] tagged(4,5,8) sh show ?thesis by (intro exI [of _ r] exI [of _ c']) auto
    next
      case other
      then show ?thesis using tagged(8) by simp
    qed
  qed
qed

text \<open>The loops return because every message takes bytes from what the client sends.\<close>

lemma msg_loop_safe:
  assumes "conn_good valid vlim c"
  shows "\<exists>r c'. msg_loop ops c = Some (r, c') \<and> no_fault r \<and>
    (r = Inr () \<longrightarrow> conn_good valid vlim c' \<and> c_rl c' = 0 \<and> length (avail c') < length (avail c))"
  using assms
proof (induction "length (avail c)" arbitrary: c rule: less_induct)
  case less
  obtain r1 c1 where m: "conn_msg ops c = Some (r1, c1)" "no_fault r1"
    "r1 = Inr () \<longrightarrow> conn_good valid vlim c1 \<and> c_tl c1 \<le> length (c_txb c1) \<and> length (avail c1) < length (avail c)"
    using conn_msg_safe [OF less.prems] by blast
  note step = msg_loop.simps [of ops c, unfolded m(1) Option.bind.simps prod.case]
  show ?case
  proof (cases r1)
    case (Inl e)
    then show ?thesis using step m(2) by (simp add: no_fault_Inl)
  next
    case (Inr u)
    then have g1: "conn_good valid vlim c1" "c_tl c1 \<le> length (c_txb c1)" "length (avail c1) < length (avail c)"
      using m(3) by simp_all
    obtain r2 c2 where f: "flush c1 = (r2, c2)" by (cases "flush c1")
    from flush_spec [OF f g1(2)] obtain out wn tl where
      c2: "c2 = c1\<lparr>c_out := c_out c1 @ out, c_wn := wn, c_tl := tl\<rparr>" "no_fault r2" by blast
    have g2: "conn_good valid vlim c2" "avail c2 = avail c1"
      using g1(1) by (simp_all add: c2(1) conn_good_def conn_bufs_def conn_at_def avail_def)
    show ?thesis
    proof (cases "\<exists>e. r2 = Inl e")
      case True
      then show ?thesis using step Inr f c2(2) by (auto simp: no_fault_Inl)
    next
      case False
      then have r2: "r2 = Inr ()" by (cases r2) auto
      show ?thesis
      proof (cases "c_rl c2 > 0")
        case True
        have "length (avail c2) < length (avail c)" using g1(3) g2(2) by simp
        from less.hyps [OF this g2(1)] show ?thesis using step Inr f r2 True g1(3) g2(2) by auto
      next
        case False
        then show ?thesis using step Inr f r2 g1(3) g2 by simp
      qed
    qed
  qed
qed

lemma conn_loop_safe:
  assumes "conn_good valid vlim c" and "c_rl c = 0"
  shows "\<exists>e c'. conn_loop ops c = Some (e, c') \<and> no_fault (Inl e :: unit res)"
  using assms
proof (induction "length (avail c)" arbitrary: c rule: less_induct)
  case less
  have c: "conn_bufs c" "c_rp c = 0" "c_rl c = 0" using less.prems by (simp_all add: conn_good_def conn_at_def)
  obtain r1 c1 where rd: "conn_read (c_rp c) (c_chunk c) c = (r1, c1)" by (cases "conn_read (c_rp c) (c_chunk c) c")
  have "c_rp c + c_chunk c \<le> length (c_rxb c)" using c by (simp add: conn_bufs_def)
  from conn_read_spec [OF rd this] obtain rxb evs rej where
    c1: "c1 = c\<lparr>c_rxb := rxb, c_in := evs, c_rejected := rej\<rparr>" "length rxb = length (c_rxb c)" "no_fault r1"
    and got: "\<And>got. r1 = Inr got \<Longrightarrow> got \<le> int (c_chunk c) \<and>
      (0 \<le> got \<longrightarrow> take (nat got) (drop (c_rp c) rxb) @ ev_bytes evs = ev_bytes (c_in c))" by blast
  note step = conn_loop.simps [of ops c, unfolded rd prod.case]
  show ?case
  proof (cases "\<exists>g. r1 = Inr g \<and> 0 < g")
    case False
    then show ?thesis using step c1(3) by (cases r1) (auto simp: no_fault_Inl)
  next
    case True
    then obtain g where g: "r1 = Inr g" "0 < g" by blast
    define c2 where "c2 = c1\<lparr>c_rl := nat g\<rparr>"
    have g2: "conn_good valid vlim c2" using less.prems(1) c c1 got [OF g(1)] g(2)
      by (auto simp: c2_def conn_good_def conn_bufs_def conn_at_def)
    have av: "avail c2 = avail c" using got [OF g(1)] g(2) c by (simp add: avail_def c2_def c1(1))
    obtain r3 c3 where m: "msg_loop ops c2 = Some (r3, c3)" "no_fault r3"
      "r3 = Inr () \<longrightarrow> conn_good valid vlim c3 \<and> c_rl c3 = 0 \<and> length (avail c3) < length (avail c2)"
      using msg_loop_safe [OF g2] by blast
    have step2: "conn_loop ops c = (case r3 of Inl e \<Rightarrow> Some (e, c3) | Inr _ \<Rightarrow> conn_loop ops c3)"
      using step g m(1) by (simp add: c2_def split: sum.splits)
    show ?thesis
    proof (cases r3)
      case (Inl e)
      then show ?thesis using step2 m(2) by (simp add: no_fault_Inl)
    next
      case (Inr u)
      with less.hyps [of c3] m(3) step2 av show ?thesis by simp
    qed
  qed
qed

text \<open>The whole connection, from the buffers to the end.\<close>

lemma sup_len_0: "sup_len n mx k = 0 \<Longrightarrow> mx = 0"
  by (simp add: sup_len_def Let_def split: if_splits)

lemma allocBufs_good:
  assumes "valid (c_drv c)" and "c_maxVecLen c < 2 ^ 32" and "c_rxb c = []" and "c_txb c = []"
    and "op_query ops (c_drv c) = (q, d)" and "chunks_fit ops sl (c_maxVecLen c) (c_drv c)" and "allocBufs ops c = (r, c')"
  shows "no_fault r \<and> (r = Inr () \<longrightarrow> conn_good valid sl c' \<and> c_rl c' = 0 \<and> c_rp c' = 0 \<and>
      (\<exists>n. q = Inr n) \<and> c_drv c' = d \<and> c_in c' = c_in c \<and> c_wr c' = c_wr c \<and> c_out c' = c_out c \<and>
      c_maxVecLen c' = c_maxVecLen c \<and> c_nodelay c' = c_nodelay c) \<and>
    ((\<exists>n. q = Inr n) \<longrightarrow> r = Inr ())"
proof (cases q)
  case (Inl e)
  then show ?thesis using assms(5,7) query_safe [OF assms(1,5)] by (auto simp: allocBufs_def no_fault_Inl)
next
  case (Inr n)
  have wf: "valid d" "sup_len n (c_maxVecLen c) (op_getMaxVectorSize ops d) \<le> sl"
    using query_wf [OF assms(1)] assms(5,6) Inr by (simp_all add: chunks_fit_def)
  have rc: "r = Inr ()" "c' = snd (allocBufs ops c)"
    using assms(5,7) Inr by (auto simp: allocBufs_def Let_def)
  have "conn_good valid sl c'"
    unfolding rc(2) using assms(2-5) wf Inr
    by (auto simp: allocBufs_def Let_def conn_good_def conn_bufs_def conn_at_def vec_resize_def sup_len_0)
  then show ?thesis using rc assms(5) Inr by (simp add: allocBufs_def Let_def)
qed

lemma conn_run_safe:
  assumes "valid (c_drv c)" and "c_maxVecLen c < 2 ^ 32" and "c_rxb c = []" and "c_txb c = []"
    and "chunks_fit ops vlim (c_maxVecLen c) (c_drv c)"
  shows "\<exists>e c'. conn_run ops c = Some (e, c') \<and> no_fault (Inl e :: unit res)"
proof -
  obtain q d where q: "op_query ops (c_drv c) = (q, d)" by (cases "op_query ops (c_drv c)")
  obtain r1 c1 where a: "allocBufs ops c = (r1, c1)" by (cases "allocBufs ops c")
  note ag = allocBufs_good [OF assms(1-4) q assms(5) a]
  show ?thesis
  proof (cases r1)
    case (Inl e)
    then show ?thesis using a ag q by (auto simp: conn_run_def no_fault_Inl)
  next
    case (Inr u)
    then have "conn_good valid vlim c1" "c_rl c1 = 0" using ag q by auto
    from conn_loop_safe [OF this] show ?thesis using a Inr by (simp add: conn_run_def)
  qed
qed

end

subsection \<open>Sessions\<close>

lemma session_append:
  "session step period mx ms1 s out1 s1 \<Longrightarrow> session step period mx ms2 s1 out2 s2 \<Longrightarrow>
   session step period mx (ms1 @ ms2) s (out1 @ out2) s2"
  by (induction rule: session.induct) (auto intro: session.intros)

lemma session_single: "reply_ok step period mx m s out s1 \<Longrightarrow> session step period mx [m] s out s1"
  using session_cons [OF _ session_nil] by fastforce

lemma length_encode_msg: "8 \<le> length (encode_msg m)"
  by (cases m) (simp_all add: ascii_def)

lemma encode_msg_ne [simp]: "encode_msg m \<noteq> []"
  by (cases m) (simp_all add: ascii_def)

lemma encode_tags:
  "take 2 (encode_msg GetInfo @ rest) = ascii ''ge''" "take 2 (encode_msg (SetTck p) @ rest) = ascii ''se''"
  "take 2 (encode_msg (Shift bits tms tdi) @ rest) = ascii ''sh''"
  "ascii ''ge'' \<noteq> ascii ''se''" "ascii ''se'' \<noteq> ascii ''ge''" "ascii ''sh'' \<noteq> ascii ''ge''" "ascii ''sh'' \<noteq> ascii ''se''"
  by (simp_all add: ascii_def)

lemma rx_prefix:
  assumes "conn_bufs c" and "conn_mid m c" and "m \<le> c_chunk c" and "n \<le> c_rl c" and "avail c = xs @ ys" and "length xs = n"
  shows "\<exists>zs. drop (c_rp c) (c_rxb c) = xs @ zs"
proof -
  have "rd_mem (c_rxb c) (c_rp c) n = Inr xs"
    using get_rx_avail [OF assms(1-3), of 0 n] assms(4-6) by (simp add: get_rx_def)
  then have "take n (drop (c_rp c) (c_rxb c)) = xs" using rd_mem_Inr by metis
  then show ?thesis by (metis append_take_drop_id)
qed

lemma sock_read_idle:
  "clean evs \<Longrightarrow> ev_bytes evs = [] \<Longrightarrow> \<exists>n. sock_read l evs = (if eof evs then Inr (0, []) else Inl Blocked, [], n)"
  by (induction l evs rule: sock_read.induct) (auto simp: eof_def split: prod.splits if_splits)

subsection \<open>A wire to a device\<close>

context serial_driver
begin

text \<open>
  The device behind the driver sees the bits of a chunk and gives the bits of its TDO.  The client's shifts have at
  most \<open>mc\<close> bytes and the connection cuts them into vectors of at most \<open>sl\<close> bytes, so the driver has to take vectors of
  \<open>min mc sl\<close> bytes.
\<close>

lemma send_chunk_dev:
  assumes "valid (c_drv c)" and "1 \<le> b" and "n = (b + 7) div 8" and "n \<le> vlim"
    and "c_rp c + bytes + off + n \<le> length (c_rxb c)" and "off + n \<le> length (c_txb c)"
    and "T = bits_of_bytes (drop (c_rp c) (c_rxb c))" and "I = bits_of_bytes (drop (c_rp c + bytes) (c_rxb c))"
  shows "\<exists>d tdo. send_chunk ops b bytes off c = (Inr (), c\<lparr>c_drv := d, c_txb := take off (c_txb c) @ tdo\<rparr>) \<and>
    valid d \<and> off + length tdo = length (c_txb c) \<and>
    (take b (bits_of_bytes tdo), dev d) =
      dev_run step (zip (take b (drop (8 * off) T)) (take b (drop (8 * off) I))) (dev (c_drv c))"
proof -
  let ?tms = "drop (c_rp c + off) (c_rxb c)" and ?tdi = "drop (c_rp c + bytes + off) (c_rxb c)" and ?tdo = "drop off (c_txb c)"
  have len: "n \<le> length ?tms" "n \<le> length ?tdi" "n \<le> length ?tdo" using assms(5,6) by simp_all
  obtain tdo d where s: "op_sendVectors ops b ?tms ?tdi ?tdo (c_drv c) = ((Inr (), tdo), d)"
    and run: "(take b (bits_of_bytes tdo), dev d) =
      dev_run step (zip (take b (bits_of_bytes ?tms)) (take b (bits_of_bytes ?tdi))) (dev (c_drv c))"
    using send_dev [OF assms(1,2,3,4) len] by blast
  have "valid d" by (rule send_wf [OF assms(1) _ _ _ _ s]) (use assms(3,4) len in simp_all)
  moreover have "length tdo = length ?tdo"
    by (rule conjunct2 [OF send_safe [OF assms(1) _ _ _ _ s]]) (use assms(3,4) len in simp_all)
  moreover have "bits_of_bytes ?tms = drop (8 * off) T" "bits_of_bytes ?tdi = drop (8 * off) I"
    by (simp_all add: assms(7,8) drop_bits_of_bytes add.commute add.left_commute)
  ultimately show ?thesis using s run assms(6) by (intro exI [of _ d] exI [of _ tdo]) (simp add: send_chunk_def)
qed

text \<open>Cutting a vector into chunks is not visible to the device.\<close>

lemma shift_loop_dev:
  assumes "bytes < 2 ^ 29" and "c_rp c + 2 * bytes \<le> length (c_rxb c)" and "bytes \<le> length (c_txb c)"
    and "valid (c_drv c)" and "vecLen \<le> vlim" and "vecLen \<le> bytes" and "0 < vecLen"
    and "0 < bitsLeft \<Longrightarrow> off + (unat bitsLeft + 7) div 8 = bytes"
    and "T = bits_of_bytes (drop (c_rp c) (c_rxb c))" and "I = bits_of_bytes (drop (c_rp c + bytes) (c_rxb c))"
  shows "\<exists>d txb. shift_loop ops vecLen bytes off bitsLeft c = Some (Inr (), c\<lparr>c_drv := d, c_txb := txb\<rparr>) \<and>
    valid d \<and> length txb = length (c_txb c) \<and> take off txb = take off (c_txb c) \<and>
    (take (unat bitsLeft) (drop (8 * off) (bits_of_bytes txb)), dev d) =
      dev_run step (zip (take (unat bitsLeft) (drop (8 * off) T)) (take (unat bitsLeft) (drop (8 * off) I))) (dev (c_drv c))"
  using assms(2,3,4,8-10)
proof (induction "unat bitsLeft" arbitrary: off bitsLeft c rule: less_induct)
  case less
  show ?case
  proof (cases "bitsLeft = 0")
    case True
    then show ?thesis using less.prems(3)
      by (intro exI [of _ "c_drv c"] exI [of _ "c_txb c"]) simp
  next
    case False
    then have pos: "0 < bitsLeft" by (simp add: word_neq_0_conv)
    then have upos: "0 < unat bitsLeft" by (simp add: word_less_nat_alt)
    define b where "b = chunk_bits vecLen bitsLeft"
    have ub: "unat b = min (unat bitsLeft) (8 * vecLen)"
      unfolding b_def using assms(1,6) by (intro unat_chunk_bits) simp
    define n where "n = (unat b + 7) div 8"
    have n: "n \<le> vecLen" "n \<le> (unat bitsLeft + 7) div 8" by (auto simp: n_def ub)
    have off: "off + (unat bitsLeft + 7) div 8 = bytes" by (rule less.prems(4) [OF pos])
    have fit: "off + n \<le> bytes" and b1: "1 \<le> unat b" and offl: "off \<le> length (c_txb c)"
      using off n ub upos assms(7) less.prems(2) by auto
    have lens: "n \<le> vlim" "c_rp c + bytes + off + n \<le> length (c_rxb c)" "off + n \<le> length (c_txb c)"
      using n(1) fit less.prems(1,2) assms(5) by simp_all
    obtain d tdo where s: "send_chunk ops (unat b) bytes off c = (Inr (), c\<lparr>c_drv := d, c_txb := take off (c_txb c) @ tdo\<rparr>)"
      and d: "valid d" "off + length tdo = length (c_txb c)"
      and run: "(take (unat b) (bits_of_bytes tdo), dev d) =
        dev_run step (zip (take (unat b) (drop (8 * off) T)) (take (unat b) (drop (8 * off) I))) (dev (c_drv c))"
      using send_chunk_dev [OF less.prems(3) b1 n_def lens less.prems(5,6)] by blast
    define c1 where "c1 = c\<lparr>c_drv := d, c_txb := take off (c_txb c) @ tdo\<rparr>"
    have step: "shift_loop ops vecLen bytes off bitsLeft c = shift_loop ops vecLen bytes (off + vecLen) (bitsLeft - b) c1"
      using pos s by (simp add: shift_loop_step b_def c1_def)
    have sub: "unat (bitsLeft - b) = unat bitsLeft - unat b" using ub by (simp add: unat_sub word_le_nat_alt)
    have tx1: "drop (8 * off) (bits_of_bytes (c_txb c1)) = bits_of_bytes tdo"
      using offl by (simp add: c1_def drop_bits_of_bytes)
    have pre1: "take off (c_txb c1) = take off (c_txb c)" "length (c_txb c1) = length (c_txb c)"
      using offl d(2) by (simp_all add: c1_def)
    show ?thesis
    proof (cases "unat bitsLeft \<le> 8 * vecLen")
      case True
      then have all: "unat b = unat bitsLeft" using ub by simp
      then have "unat (bitsLeft - b) = 0" using sub by simp
      then have "bitsLeft - b = 0" by (simp only: unat_eq_zero)
      then have "shift_loop ops vecLen bytes off bitsLeft c = Some (Inr (), c\<lparr>c_drv := d, c_txb := c_txb c1\<rparr>)"
        using step by (simp only: shift_loop_done) (simp add: c1_def)
      then show ?thesis unfolding all [symmetric] using run d(1) tx1 pre1
        by (intro exI [of _ d] exI [of _ "c_txb c1"]) (simp only: simp_thms)
    next
      case False
      then have b8: "unat b = 8 * vecLen" using ub by simp
      have less1: "unat (bitsLeft - b) < unat bitsLeft" using sub b1 ub by simp
      have next_off: "off + vecLen + (unat (bitsLeft - b) + 7) div 8 = bytes"
        using off sub b8 False by simp
      have T1: "T = bits_of_bytes (drop (c_rp c1) (c_rxb c1))" "I = bits_of_bytes (drop (c_rp c1 + bytes) (c_rxb c1))"
        using less.prems(5,6) by (simp_all add: c1_def)
      obtain d2 txb where r: "shift_loop ops vecLen bytes (off + vecLen) (bitsLeft - b) c1 =
          Some (Inr (), c1\<lparr>c_drv := d2, c_txb := txb\<rparr>)" "valid d2" "length txb = length (c_txb c1)"
        "take (off + vecLen) txb = take (off + vecLen) (c_txb c1)"
        and run2: "(take (unat (bitsLeft - b)) (drop (8 * (off + vecLen)) (bits_of_bytes txb)), dev d2) =
          dev_run step (zip (take (unat (bitsLeft - b)) (drop (8 * (off + vecLen)) T))
            (take (unat (bitsLeft - b)) (drop (8 * (off + vecLen)) I))) (dev (c_drv c1))"
        using less.hyps [OF less1 _ _ _ next_off T1] less.prems(1,2) d(1) pre1(2) by (auto simp: c1_def)
      have drv1: "c_drv c1 = d" by (simp add: c1_def)
      have bl: "unat bitsLeft = unat b + unat (bitsLeft - b)" using sub b8 False by simp
      have cut: "take (unat bitsLeft) (drop (8 * off) X) =
          take (unat b) (drop (8 * off) X) @ take (unat (bitsLeft - b)) (drop (8 * (off + vecLen)) X)" for X :: "bool list"
        unfolding bl take_add drop_drop b8 by (simp add: algebra_simps)
      have len: "length (take (unat b) (drop (8 * off) T)) = length (take (unat b) (drop (8 * off) I))"
        using less.prems(1,5,6) off b8 False by (simp add: min_def)
      have "take (8 * (off + vecLen)) (bits_of_bytes txb) = take (8 * (off + vecLen)) (bits_of_bytes (c_txb c1))"
        unfolding take_bits_of_bytes r(4) ..
      then have "take (unat b) (drop (8 * off) (bits_of_bytes txb)) = take (unat b) (drop (8 * off) (bits_of_bytes (c_txb c1)))"
        unfolding b8 take_drop by (simp add: algebra_simps)
      then have "(take (unat bitsLeft) (drop (8 * off) (bits_of_bytes txb)), dev d2) =
          dev_run step (zip (take (unat bitsLeft) (drop (8 * off) T)) (take (unat bitsLeft) (drop (8 * off) I))) (dev (c_drv c))"
        using dev_run_compose [OF run run2 [unfolded drv1]] unfolding cut zip_append [OF len] tx1 by simp
      moreover have "take off txb = take off (c_txb c)" using r(4) pre1(1) by (metis le_add1 min.absorb1 take_take)
      ultimately show ?thesis using step r(1-3) pre1(2)
        by (intro exI [of _ d2] exI [of _ txb]) (simp add: c1_def)
    qed
  qed
qed

lemma shift_dev:
  assumes "conn_bufs c" and "conn_mid 2 c" and "valid (c_drv c)" and "min mc (c_supVecLen c) \<le> vlim" and "clean (c_in c)"
    and "avail c = encode_msg (Shift bits tms tdi) @ rest" and "msg_ok mc (Shift bits tms tdi)" and "mc \<le> c_maxVecLen c"
  shows "\<exists>reply c'. msg_shift ops c = Some (Inr (), c') \<and> valid (c_drv c') \<and>
    consumed (length (encode_msg (Shift bits tms tdi))) reply c c' \<and>
    reply_ok step period (c_maxVecLen c) (Shift bits tms tdi) (dev (c_drv c)) reply (dev (c_drv c'))"
proof -
  define bytes where "bytes = vec_bytes bits"
  have ok: "unat bits + 7 < 2 ^ 32" "bytes \<le> c_maxVecLen c" "length tms = bytes" "length tdi = bytes" "bytes \<le> mc"
    using assms(7,8) by (simp_all add: bytes_def)
  have bits: "bits = le_word32 (take 4 (drop 6 (avail c)))"
    using assms(6) by (simp add: ascii_def)
  have bytes: "bytes = unat ((bits + 7) div 8)" using unat_ceil8(1) [of bits] ok(1) by (simp add: bytes_def vec_bytes_def)
  have len: "length (encode_msg (Shift bits tms tdi)) = 10 + 2 * bytes" using ok by (simp add: ascii_def)
  have rest: "drop 10 (avail c) = (tms @ tdi) @ rest" using assms(6) by (simp add: ascii_def)
  show ?thesis
    using assms(1,2) bits bytes
  proof (cases rule: msg_shift_cases [where ops = ops])
    case (failed e c')
    then show ?thesis using assms(5,6) ok(2) len by simp
  next
    case (ready c3)
    define vecLen where "vecLen = (if bytes > c_supVecLen c then c_supVecLen c else bytes)"
    have ch: "2 * bytes \<le> c_chunk c3" using ready(2,7) ok(2) by (simp add: conn_bufs_def conn_fix_def)
    obtain zs where rx: "drop (c_rp c3) (c_rxb c3) = (tms @ tdi) @ zs"
      using rx_prefix [OF ready(2,3) ch ready(4) _, of "tms @ tdi" rest] ready(5) rest ok by auto
    have rx2: "drop (c_rp c3 + bytes) (c_rxb c3) = tdi @ zs"
      using arg_cong [OF rx, of "drop bytes"] ok(3) by (simp add: add.commute)
    have fit: "c_rp c3 + 2 * bytes \<le> length (c_rxb c3)" "bytes \<le> length (c_txb c3)"
      using ready(2-4) ready(1,7) by (auto simp: conn_bufs_def conn_mid_def conn_fix_def)
    have ub: "unat bits \<le> 8 * bytes" by (simp add: bytes_def vec_bytes_def)
    have "\<exists>d txb. shift_loop ops vecLen bytes 0 bits c3 = Some (Inr (), c3\<lparr>c_drv := d, c_txb := txb\<rparr>) \<and> valid d \<and>
        length txb = length (c_txb c3) \<and> (take (unat bits) (bits_of_bytes txb), dev d) =
          dev_run step (zip (take (unat bits) (bits_of_bytes tms)) (take (unat bits) (bits_of_bytes tdi))) (dev (c_drv c))"
    proof (cases "bits = 0")
      case True
      then show ?thesis using ready(8) assms(3) by (intro exI [of _ "c_drv c"] exI [of _ "c_txb c3"]) simp
    next
      case False
      then have "0 < unat bits" by (simp add: word_less_nat_alt word_neq_0_conv)
      then have b0: "0 < bytes" by (simp add: bytes_def vec_bytes_def)
      have vec: "vecLen \<le> vlim" "vecLen \<le> bytes" "0 < vecLen"
        using assms(1,4) ready(1) b0 ok(5) by (auto simp: vecLen_def conn_bufs_def)
      have b29: "bytes < 2 ^ 29" using unat_ceil8(2) [of bits] bytes by simp
      have sz: "0 + (unat bits + 7) div 8 = bytes" by (simp add: bytes_def vec_bytes_def)
      have v3: "valid (c_drv c3)" using assms(3) ready(8) by simp
      show ?thesis
        using shift_loop_dev [OF b29 fit v3 vec sz refl refl] ub ok(3,4) ready(8) by (simp add: rx rx2)
    qed
    then obtain d txb where l: "shift_loop ops vecLen bytes 0 bits c3 = Some (Inr (), c3\<lparr>c_drv := d, c_txb := txb\<rparr>)"
      "valid d" "length txb = length (c_txb c3)"
      and run: "(take (unat bits) (bits_of_bytes txb), dev d) =
          dev_run step (zip (take (unat bits) (bits_of_bytes tms)) (take (unat bits) (bits_of_bytes tdi))) (dev (c_drv c))"
      by blast
    define c' where "c' = bump (2 * bytes) (c3\<lparr>c_drv := d, c_txb := txb, c_tl := bytes\<rparr>)"
    have "msg_shift ops c = Some (Inr (), c')" using ready(11) l(1) by (simp add: vecLen_def [symmetric] c'_def)
    moreover have "c_drv c' = d" by (simp add: c'_def bump_def Let_def)
    moreover have "consumed (10 + 2 * bytes) (take bytes txb) c c'"
      unfolding c'_def by (rule shift_consumed [OF ready(1-7,10) l(3)])
    moreover have "take (unat bits) (bits_of_bytes (take bytes txb)) = take (unat bits) (bits_of_bytes txb)"
      using ub by (simp add: take_bits_of_bytes [symmetric] min_def)
    ultimately show ?thesis using l(2,3) run fit(2) unfolding len
      by (intro exI [of _ "take bytes txb"] exI [of _ c']) (simp add: bytes_def [symmetric])
  qed
qed

lemma conn_msg_dev:
  assumes "conn_good valid sl c" and "clean (c_in c)" and "avail c = encode_msg m @ rest" and "msg_ok mc m"
    and "mc \<le> c_maxVecLen c" and "min mc sl \<le> vlim"
  shows "\<exists>reply c'. conn_msg ops c = Some (Inr (), c') \<and> valid (c_drv c') \<and> consumed (length (encode_msg m)) reply c c' \<and>
    reply_ok step period (c_maxVecLen c) m (dev (c_drv c)) reply (dev (c_drv c'))"
proof -
  have c: "conn_bufs c" "conn_at c" "valid (c_drv c)" "min mc (c_supVecLen c) \<le> vlim"
    using assms(1,6) by (auto simp: conn_good_def)
  have len: "8 \<le> length (avail c)" using assms(3) length_encode_msg [of m] by simp
  show ?thesis
    using c(1,2)
  proof (cases rule: conn_msg_cases [where ops = ops])
    case (failed e c')
    then show ?thesis using assms(2) len by simp
  next
    case (tagged c1)
    have c1: "valid (c_drv c1)" "min mc (c_supVecLen c1) \<le> vlim" "clean (c_in c1)" "c_maxVecLen c1 = c_maxVecLen c"
      using tagged(5,6) clean_keptD(1) [OF tagged(7)] c(3,4) assms(2) by (simp_all add: conn_fix_def)
    have upto: "consumed n reply c1 c' \<Longrightarrow> consumed n reply c c'" for n reply c'
      by (rule consumed_trans [OF _ tagged(4,5,7)])
    show ?thesis
    proof (cases m)
      case GetInfo
      obtain n d where q: "op_query ops (c_drv c1) = (Inr n, d)" "dev d = dev (c_drv c)"
        using query_dev [OF c1(1)] tagged(6) by auto
      obtain r c' where g: "msg_getinfo ops c1 = (r, c')" by (cases "msg_getinfo ops c1")
      from getinfo_spec [OF tagged(1,2) c1(1) g q(1)] len c1(3) tagged(4)
      have "r = Inr ()" "c_drv c' = d" "consumed 8 (info_text (c_maxVecLen c)) c1 c'" using c1(4) by auto
      moreover have "conn_msg ops c = Some (r, c')" using tagged(8) assms(3) GetInfo g encode_tags by simp
      moreover have "length (encode_msg m) = 8" using GetInfo by (simp add: ascii_def)
      ultimately show ?thesis using upto query_wf [OF c1(1) q(1)] q(2) GetInfo by auto
    next
      case (SetTck p)
      define reply where "reply = le_bytes32 (period p)"
      have pl: "length (encode_msg m) = 11" "take 4 (drop 7 (avail c1)) = le_bytes32 p"
        using SetTck tagged(4) assms(3) by (simp_all add: ascii_def)
      have reply: "reply = le_bytes32 (op_setPeriodNs ops (le_word32 (take 4 (drop 7 (avail c1)))) (c_drv c1))"
        using period_dev [OF c1(1)] pl(2) by (simp add: reply_def)
      obtain r c' where g: "msg_settck ops c1 = (r, c')" by (cases "msg_settck ops c1")
      from settck_spec [OF tagged(1,2) g reply] pl(1) assms(3) c1(3) tagged(4)
      have "r = Inr ()" "c_drv c' = c_drv c" "consumed 11 reply c1 c'" using tagged(6) by auto
      moreover have "conn_msg ops c = Some (r, c')" using tagged(8) assms(3) SetTck g encode_tags by simp
      ultimately show ?thesis using upto c(3) SetTck pl(1) by (auto simp: reply_def)
    next
      case (Shift bits tms tdi)
      have "avail c1 = encode_msg (Shift bits tms tdi) @ rest" "msg_ok mc (Shift bits tms tdi)"
        "mc \<le> c_maxVecLen c1"
        using tagged(4) assms(3,4,5) Shift c1(4) by simp_all
      from shift_dev [OF tagged(1,2) c1(1,2,3) this] obtain reply c' where "msg_shift ops c1 = Some (Inr (), c')"
        "valid (c_drv c')" "consumed (length (encode_msg m)) reply c1 c'"
        "reply_ok step period (c_maxVecLen c) m (dev (c_drv c)) reply (dev (c_drv c'))"
        using tagged(6) c1(4) Shift by auto
      moreover have "conn_msg ops c = msg_shift ops c1" using tagged(8) assms(3) Shift encode_tags by simp
      ultimately show ?thesis using upto by auto
    qed
  qed
qed

lemma msg_loop_dev:
  assumes "conn_good valid sl c" and "clean (c_in c)" and "\<forall>i. 0 < c_wr c i" and "ms \<noteq> []"
    and "avail c = concat (map encode_msg ms)" and "list_all (msg_ok mc) ms"
    and "mc \<le> c_maxVecLen c" and "min mc sl \<le> vlim"
  shows "\<exists>ms1 ms2 out c'. ms = ms1 @ ms2 \<and> ms1 \<noteq> [] \<and> msg_loop ops c = Some (Inr (), c') \<and> conn_good valid sl c' \<and>
    clean (c_in c') \<and> eof (c_in c') = eof (c_in c) \<and> c_rl c' = 0 \<and> avail c' = concat (map encode_msg ms2) \<and> c_out c' = c_out c @ out \<and>
    c_wr c' = c_wr c \<and> c_maxVecLen c' = c_maxVecLen c \<and>
    session step period (c_maxVecLen c) ms1 (dev (c_drv c)) out (dev (c_drv c'))"
  using assms(1-7)
proof (induction ms arbitrary: c)
  case (Cons m ms)
  have av: "avail c = encode_msg m @ concat (map encode_msg ms)" and ok: "msg_ok mc m" "list_all (msg_ok mc) ms"
    using Cons.prems(5,6) by simp_all
  from conn_msg_dev [OF Cons.prems(1,2) av ok(1) Cons.prems(7) assms(8)] obtain reply c1 where
    m: "conn_msg ops c = Some (Inr (), c1)" "valid (c_drv c1)" "consumed (length (encode_msg m)) reply c c1"
    and rep: "reply_ok step period (c_maxVecLen c) m (dev (c_drv c)) reply (dev (c_drv c1))" by blast
  have c1: "conn_good valid sl c1" "clean (c_in c1)" "avail c1 = concat (map encode_msg ms)" "c_out c1 = c_out c"
    "c_wr c1 = c_wr c" "c_maxVecLen c1 = c_maxVecLen c" "c_tl c1 \<le> length (c_txb c1)" "take (c_tl c1) (c_txb c1) = reply"
    "eof (c_in c1) = eof (c_in c)"
    using m(2,3) Cons.prems(1,2) av by (auto simp: consumed_def conn_good_def conn_fix_def dest: clean_keptD)
  obtain r2 c2 where f: "flush c1 = (r2, c2)" by (cases "flush c1")
  from flush_spec [OF f c1(7)] c1(5,8) Cons.prems(3) obtain wn where r2: "r2 = Inr ()"
    "c2 = c1\<lparr>c_out := c_out c1 @ reply, c_wn := wn, c_tl := 0\<rparr>" by auto
  have c2: "conn_good valid sl c2" "avail c2 = avail c1"
    using c1(1) by (simp_all add: r2(2) conn_good_def conn_bufs_def conn_at_def avail_def)
  have step: "msg_loop ops c = (if c_rl c2 > 0 then msg_loop ops c2 else Some (Inr (), c2))"
    using m(1) f r2(1) by (simp add: msg_loop.simps [of ops c])
  show ?case
  proof (cases "c_rl c2 > 0")
    case False
    then show ?thesis using step c2 c1 r2(2) session_single [OF rep]
      by (intro exI [of _ "[m]"] exI [of _ ms] exI [of _ reply] exI [of _ c2]) simp
  next
    case True
    have "c_rp c2 + c_rl c2 \<le> length (c_rxb c2)" using c2(1) by (simp add: conn_good_def conn_at_def conn_bufs_def)
    then have "avail c2 \<noteq> []" using True by (auto simp: avail_def)
    then have "ms \<noteq> []" using c1(3) c2(2) by auto
    from Cons.IH [OF c2(1) _ _ this] c1 c2(2) r2(2) Cons.prems(3,7) ok(2) obtain ms1 ms2 out c' where
      r: "ms = ms1 @ ms2" "msg_loop ops c2 = Some (Inr (), c')" "conn_good valid sl c'" "clean (c_in c')" "eof (c_in c') = eof (c_in c)" "c_rl c' = 0"
      "avail c' = concat (map encode_msg ms2)" "c_out c' = (c_out c @ reply) @ out" "c_wr c' = c_wr c"
      "c_maxVecLen c' = c_maxVecLen c" "session step period (c_maxVecLen c) ms1 (dev (c_drv c1)) out (dev (c_drv c'))"
      by auto
    have "session step period (c_maxVecLen c) (m # ms1) (dev (c_drv c)) (reply @ out) (dev (c_drv c'))"
      by (rule session_cons [OF rep r(11)])
    then show ?thesis using step True r
      by (intro exI [of _ "m # ms1"] exI [of _ ms2] exI [of _ "reply @ out"] exI [of _ c']) simp
  qed
qed simp

lemma conn_loop_dev:
  assumes "conn_good valid sl c" and "c_rl c = 0" and "clean (c_in c)" and "\<forall>i. 0 < c_wr c i"
    and "avail c = concat (map encode_msg ms)" and "list_all (msg_ok mc) ms"
    and "mc \<le> c_maxVecLen c" and "min mc sl \<le> vlim"
  shows "\<exists>out c'. conn_loop ops c = Some (if eof (c_in c) then SysErr ''Unable to read from socket'' else Blocked, c') \<and>
    c_out c' = c_out c @ out \<and> valid (c_drv c') \<and>
    session step period (c_maxVecLen c) ms (dev (c_drv c)) out (dev (c_drv c'))"
  using assms(1-7)
proof (induction "length ms" arbitrary: ms c rule: less_induct)
  case less
  have c: "conn_bufs c" "c_rp c = 0" "c_rl c = 0" using less.prems(1,2) by (simp_all add: conn_good_def conn_at_def)
  have ev: "ev_bytes (c_in c) = concat (map encode_msg ms)" using less.prems(5) c(3) by (simp add: avail_def)
  show ?case
  proof (cases "ms = []")
    case True
    have "ev_bytes (c_in c) = []" using ev True by simp
    then obtain n where sr: "sock_read (c_chunk c) (c_in c) = (if eof (c_in c) then Inr (0, []) else Inl Blocked, [], n)"
      using sock_read_idle [OF less.prems(3)] by blast
    define c1 where "c1 = c\<lparr>c_in := [], c_rejected := c_rejected c + n\<rparr>"
    have c1: "c_drv c1 = c_drv c" "c_out c1 = c_out c" "c1\<lparr>c_rxb := c_rxb c\<rparr> = c1"
      by (simp_all add: c1_def)
    have "conn_loop ops c = Some (if eof (c_in c) then SysErr ''Unable to read from socket'' else Blocked, c1)"
      using sr c1(3) by (simp add: conn_loop.simps [of ops c] conn_read_def wr_mem_def c(2) c1_def)
    then show ?thesis using True session_nil [of step period "c_maxVecLen c" "dev (c_drv c)"] c1 less.prems(1)
      by (intro exI [of _ "[]"] exI [of _ c1]) (simp add: conn_good_def)
  next
    case False
    then have ne: "ev_bytes (c_in c) \<noteq> []" using ev encode_msg_ne by (cases ms) simp_all
    obtain r1 c1 where rd: "conn_read (c_rp c) (c_chunk c) c = (r1, c1)" by (cases "conn_read (c_rp c) (c_chunk c) c")
    have fit: "c_rp c + c_chunk c \<le> length (c_rxb c)" and ch: "0 < c_chunk c" using c by (simp_all add: conn_bufs_def)
    from conn_read_spec [OF rd fit] less.prems(3) ne ch obtain rxb evs rej g where
      c1: "c1 = c\<lparr>c_rxb := rxb, c_in := evs, c_rejected := rej\<rparr>" "length rxb = length (c_rxb c)" and g: "r1 = Inr g" "0 < g"
      "g \<le> int (c_chunk c)" "take (nat g) (drop (c_rp c) rxb) @ ev_bytes evs = ev_bytes (c_in c)" "clean_kept (c_in c) evs"
      by auto
    have ck: "clean evs" "eof evs = eof (c_in c)" using clean_keptD [OF g(5)] less.prems(3) by simp_all
    define c2 where "c2 = c1\<lparr>c_rl := nat g\<rparr>"
    have c2: "conn_good valid sl c2" "avail c2 = avail c" "clean (c_in c2)" "eof (c_in c2) = eof (c_in c)" "c_wr c2 = c_wr c" "c_out c2 = c_out c"
      "c_drv c2 = c_drv c" "c_maxVecLen c2 = c_maxVecLen c"
      using less.prems(1) c c1 g ck by (auto simp: c2_def conn_good_def conn_bufs_def conn_at_def avail_def)
    from msg_loop_dev [OF c2(1,3) _ False _ _ _ assms(8)] c2 less.prems(4-7) obtain ms1 ms2 out c3 where
      l: "ms = ms1 @ ms2" "ms1 \<noteq> []" "msg_loop ops c2 = Some (Inr (), c3)" "conn_good valid sl c3" "clean (c_in c3)" "c_rl c3 = 0" "eof (c_in c3) = eof (c_in c)"
      "avail c3 = concat (map encode_msg ms2)" "c_out c3 = c_out c @ out" "c_wr c3 = c_wr c" "c_maxVecLen c3 = c_maxVecLen c"
      "session step period (c_maxVecLen c) ms1 (dev (c_drv c)) out (dev (c_drv c3))" by auto
    have "length ms2 < length ms" using l(1,2) by simp
    from less.hyps [OF this l(4,6,5)] l less.prems(4,6,7) obtain out2 c4 where
      r: "conn_loop ops c3 = Some (if eof (c_in c) then SysErr ''Unable to read from socket'' else Blocked, c4)"
      "c_out c4 = c_out c3 @ out2" "valid (c_drv c4)"
      "session step period (c_maxVecLen c) ms2 (dev (c_drv c3)) out2 (dev (c_drv c4))" by auto
    have "conn_loop ops c = conn_loop ops c3"
      using rd g(1,2) l(3) by (simp add: conn_loop.simps [of ops c] c2_def)
    then show ?thesis using r session_append [OF l(12) r(4)] l(1,9)
      by (intro exI [of _ "out @ out2"] exI [of _ c4]) simp
  qed
qed

lemma conn_run_dev:
  assumes "valid (c_drv c)" and "c_maxVecLen c < 2 ^ 32" and "c_rxb c = []" and "c_txb c = []"
    and "chunks_fit ops sl (c_maxVecLen c) (c_drv c)" and "c_nodelay c = 0"
    and "clean (c_in c)" and "\<forall>i. 0 < c_wr c i" and "ev_bytes (c_in c) = concat (map encode_msg ms)"
    and "list_all (msg_ok mc) ms" and "mc \<le> c_maxVecLen c" and "min mc sl \<le> vlim"
  shows "\<exists>out c'. conn_run ops c = Some (if eof (c_in c) then SysErr ''Unable to read from socket'' else Blocked, c') \<and>
    c_out c' = c_out c @ out \<and> valid (c_drv c') \<and>
    session step period (c_maxVecLen c) ms (dev (c_drv c)) out (dev (c_drv c'))"
proof -
  obtain n d where q: "op_query ops (c_drv c) = (Inr n, d)" "dev d = dev (c_drv c)" using query_dev [OF assms(1)] by blast
  obtain r1 c1 where a: "allocBufs ops c = (r1, c1)" by (cases "allocBufs ops c")
  have "r1 = Inr ()" "conn_good valid sl c1" "c_rl c1 = 0" "c_rp c1 = 0" "c_drv c1 = d" "c_in c1 = c_in c" "c_wr c1 = c_wr c"
    "c_out c1 = c_out c" "c_maxVecLen c1 = c_maxVecLen c" "c_nodelay c1 = c_nodelay c"
    using allocBufs_good [OF assms(1-4) q(1) assms(5) a] by auto
  then show ?thesis using conn_loop_dev [of sl c1 ms mc] assms(6-12) a q(2) by (simp add: conn_run_def avail_def)
qed

lemma conn_session:
  assumes "valid d" and "chunks_fit ops sl mx d" and "mx < 2 ^ 32" and "xvcConn_new sd evs wr 0 d mx = Inr c"
    and "clean evs" and "\<forall>i. 0 < wr i" and "ev_bytes evs = concat (map encode_msg ms)" and "list_all (msg_ok mc) ms"
    and "mc \<le> mx" and "min mc sl \<le> vlim"
  shows "\<exists>c'. conn_run ops c = Some (if eof evs then SysErr ''Unable to read from socket'' else Blocked, c') \<and>
    valid (c_drv c') \<and> session step period mx ms (dev d) (c_out c') (dev (c_drv c'))"
proof -
  note c = xvcConn_newD [OF assms(4)]
  obtain out c' where "conn_run ops c = Some (if eof evs then SysErr ''Unable to read from socket'' else Blocked, c')"
    "c_out c' = c_out c @ out" "valid (c_drv c')" "session step period mx ms (dev d) out (dev (c_drv c'))"
    using conn_run_dev [of c sl ms mc] assms c by auto
  then show ?thesis using c(8) by auto
qed

end

subsection \<open>Shifting nothing\<close>

lemma shift_loop_stuck:
  assumes "shift_loop ops vecLen bytes off bits c = Some y"
  shows "vecLen = 0 \<longrightarrow> bits \<noteq> 0 \<longrightarrow> (\<exists>c off. \<forall>c'. send_chunk ops 0 bytes off c \<noteq> (Inr (), c'))"
proof (rule shift_loop.raw_induct [OF _ assms], intro impI, rule ccontr)
  fix f :: "'a jtag_ops \<Rightarrow> nat \<Rightarrow> nat \<Rightarrow> nat \<Rightarrow> u32 \<Rightarrow> 'a xvcConn \<Rightarrow> (unit res \<times> 'a xvcConn) option"
  fix ops vecLen bytes off bits c y
  assume ih: "\<And>ops vecLen bytes off bits c y. f ops vecLen bytes off bits c = Some y \<Longrightarrow>
      vecLen = 0 \<longrightarrow> bits \<noteq> 0 \<longrightarrow> (\<exists>c off. \<forall>c'. send_chunk ops 0 bytes off c \<noteq> (Inr (), c'))"
    and body: "(if 0 < bits then let bitsSent = chunk_bits vecLen bits
        in case send_chunk ops (unat bitsSent) bytes off c of
          (Inl e, c') \<Rightarrow> Some (Inl e, c')
        | (Inr _, c') \<Rightarrow> f ops vecLen bytes (off + vecLen) (bits - bitsSent) c'
      else Some (Inr (), c)) = Some y"
    and v: "vecLen = 0" "bits \<noteq> 0"
    and acc: "\<not> (\<exists>c off. \<forall>c'. send_chunk ops 0 bytes off c \<noteq> (Inr (), c'))"
  have zero: "chunk_bits vecLen bits = 0" using v(1) by (simp add: chunk_bits_def)
  obtain c' where "send_chunk ops 0 bytes off c = (Inr (), c')" using acc by blast
  then have "f ops vecLen bytes (off + vecLen) bits c' = Some y"
    using body v(2) zero by (simp add: word_neq_0_conv Let_def)
  from ih [OF this] v acc show False by blast
qed

section \<open>Properties\<close>

text \<open>
  C29.  The check of the vector length of a shift command is made on a 32-bit sum that wraps: lengths of
  2^32 - 7 bits and more pass as vectors of zero bytes.  With a driver that accepts a shift of zero bits
  the server then never returns from the message.
\<close>

theorem shift_length_wraps:
  assumes "conn_bufs c" and "conn_at c" and "clean (c_in c)" and "avail c = ascii ''shift:'' @ le_bytes32 bits @ rest"
    and "2 ^ 32 \<le> unat bits + 7" and "\<And>d tms tdi tdo. fst (fst (op_sendVectors ops 0 tms tdi tdo d)) = Inr ()"
  shows "conn_msg ops c = None"
  using assms(1,2)
proof (cases rule: conn_msg_cases [where ops = ops])
  case (failed e c')
  then show ?thesis using assms(3,4) by (simp add: ascii_def)
next
  case (tagged c1)
  have "take 2 (avail c) = ascii ''sh''" using assms(4) by (simp add: ascii_def)
  then have m: "conn_msg ops c = msg_shift ops c1" using tagged(8) encode_tags(6,7) by simp
  have bits: "bits = le_word32 (take 4 (drop 6 (avail c1)))" using assms(4) tagged(4) by (simp add: ascii_def)
  have zero: "0 = unat ((bits + 7) div 8)" using unat_ceil8(1) [of bits] assms(5) by simp
  have ne: "bits \<noteq> 0" using assms(5) by auto
  have acc: "\<forall>c off. \<exists>c'. send_chunk ops 0 0 off c = (Inr (), c')"
    using assms(6) by (simp add: send_chunk_def split: prod.splits) (metis fst_conv)
  show ?thesis
    using tagged(1,2) bits zero
  proof (cases rule: msg_shift_cases [where ops = ops])
    case (failed e c')
    then show ?thesis using assms(3,4) tagged(4) clean_keptD(1) [OF tagged(7)] by (simp add: ascii_def)
  next
    case (ready c3)
    have "shift_loop ops 0 0 0 bits c3 = None"
      using shift_loop_stuck [of ops 0 0 0 bits c3] ne acc by (cases "shift_loop ops 0 0 0 bits c3") fastforce+
    then show ?thesis using m ready(11) by simp
  qed
qed

theorem shift_length_wraps_witness:
  "conn_msg null_ops (conn_example [Data (ascii ''shift:'' @ le_bytes32 0xfffffff9)]) = None"
  by (rule shift_length_wraps [where bits = "0xfffffff9" and rest = "[]"])
    (simp_all add: conn_example_def conn_bufs_def conn_at_def avail_def null_ops_def ascii_def)

text \<open>
  C14.  A shift command for more bytes than the server announced is refused before the driver is
  called and before anything is sent, as long as the number of bits is below \<open>2^32 - 7\<close>, so that the number of bytes does not
  wrap around.
\<close>

theorem shift_too_long:
  assumes "conn_bufs c" and "conn_at c" and "clean (c_in c)" and "avail c = ascii ''shift:'' @ le_bytes32 bits @ rest"
    and "unat bits + 7 < 2 ^ 32" and "c_maxVecLen c < (unat bits + 7) div 8"
  shows "\<exists>c'. conn_msg ops c = Some (Inl (ProtoErr ''Requested bit vector length too big''), c') \<and>
    c_drv c' = c_drv c \<and> c_out c' = c_out c"
  using assms(1,2)
proof (cases rule: conn_msg_cases [where ops = ops])
  case (failed e c')
  then show ?thesis using assms(3,4) by (simp add: ascii_def)
next
  case (tagged c1)
  have "take 2 (avail c) = ascii ''sh''" using assms(4) by (simp add: ascii_def)
  then have m: "conn_msg ops c = msg_shift ops c1" using tagged(8) encode_tags(6,7) by simp
  have bits: "bits = le_word32 (take 4 (drop 6 (avail c1)))" using assms(4) tagged(4) by (simp add: ascii_def)
  have bytes: "(unat bits + 7) div 8 = unat ((bits + 7) div 8)" using unat_ceil8(1) [of bits] assms(5) by simp
  have mx: "c_maxVecLen c1 = c_maxVecLen c" using tagged(5) by (simp add: conn_fix_def)
  have av: "10 \<le> length (avail c1)" "clean (c_in c1)" using assms(3,4) tagged(4) clean_keptD(1) [OF tagged(7)] by (simp_all add: ascii_def)
  show ?thesis
    using tagged(1,2) bits bytes
  proof (cases rule: msg_shift_cases [where ops = ops])
    case (failed e c')
    then show ?thesis using m av mx assms(6) tagged(5,6) by (auto simp: conn_fix_def)
  next
    case (ready c3)
    then show ?thesis using assms(6) mx by simp
  qed
qed

theorem shift_too_long_witness:
  "\<exists>c'. conn_msg null_ops (conn_example [Data (ascii ''shift:'' @ le_bytes32 9 @ [1])]) =
      Some (Inl (ProtoErr ''Requested bit vector length too big''), c') \<and>
    c_drv c' = c_drv (conn_example [Data (ascii ''shift:'' @ le_bytes32 9 @ [1])]) \<and>
    c_out c' = c_out (conn_example [Data (ascii ''shift:'' @ le_bytes32 9 @ [1])])"
  by (rule shift_too_long [where bits = 9 and rest = "[1]"])
    (simp_all add: conn_example_def conn_bufs_def conn_at_def avail_def ascii_def)

end
