(* ===== verification/C_Scan.thy ===== *)
theory C_Scan
  imports Xvc_Prelude
begin

text \<open>
  What the program uses of the input functions of the C library: reading a line with
  \<^verbatim>\<open>fgets\<close> and scanning integers with \<^verbatim>\<open>sscanf\<close>.
\<close>

section \<open>Lines and numbers\<close>

text \<open>
  \<open>fgets\<close> reads at most \<open>n\<close> characters up to and including a newline; \<open>sscanf_li\<close> is
  \<^verbatim>\<open>sscanf\<close> for a format of literal characters and white space followed by \<^verbatim>\<open>%li\<close>.
\<close>

definition is_space :: "char \<Rightarrow> bool" where
  "is_space c = (c \<in> set [CHR '' '', CHR 0x09, CHR 0x0A, CHR 0x0B, CHR 0x0C, CHR 0x0D])"

fun fgets :: "nat \<Rightarrow> string \<Rightarrow> string" where
  "fgets 0 s = []"
| "fgets (Suc n) [] = []"
| "fgets (Suc n) (c # s) = (if c = CHR 0x0A then [c] else c # fgets n s)"

fun scan_lit :: "string \<Rightarrow> string \<Rightarrow> string option" where
  "scan_lit [] s = Some s"
| "scan_lit (c # f) s =
     (if is_space c then scan_lit f (dropWhile is_space s)
      else (case s of [] \<Rightarrow> None | x # xs \<Rightarrow> if x = c then scan_lit f xs else None))"

definition digit_val :: "nat \<Rightarrow> char \<Rightarrow> nat option" where
  "digit_val base c =
     (let k = of_char c :: nat;
          v = (if 48 \<le> k \<and> k \<le> 57 then k - 48 else if 65 \<le> k \<and> k \<le> 70 then k - 55
               else if 97 \<le> k \<and> k \<le> 102 then k - 87 else 255)
      in if v < base then Some v else None)"

fun scan_digits :: "nat \<Rightarrow> nat \<Rightarrow> string \<Rightarrow> nat" where
  "scan_digits base acc [] = acc"
| "scan_digits base acc (c # s) =
     (case digit_val base c of None \<Rightarrow> acc | Some v \<Rightarrow> scan_digits base (acc * base + v) s)"

definition scan_base :: "nat \<Rightarrow> string \<Rightarrow> nat option" where
  "scan_base base s =
     (case s of [] \<Rightarrow> None | c # _ \<Rightarrow> if digit_val base c = None then None else Some (scan_digits base 0 s))"

definition scan_unsigned :: "string \<Rightarrow> nat option" where
  "scan_unsigned s =
     (case s of
        c1 # c2 # rest \<Rightarrow>
          if c1 = CHR ''0'' \<and> (c2 = CHR ''x'' \<or> c2 = CHR ''X'') then scan_base 16 rest
          else if c1 = CHR ''0'' then scan_base 8 s
          else scan_base 10 s
      | _ \<Rightarrow> scan_base 10 s)"

text \<open>The value is clipped to the range of \<^verbatim>\<open>long\<close> and stored into an \<^verbatim>\<open>unsigned long\<close>.\<close>

definition scan_li :: "string \<Rightarrow> u64 option" where
  "scan_li s0 =
     (let s = dropWhile is_space s0 in
      case s of
        [] \<Rightarrow> None
      | c # rest \<Rightarrow>
          if c = CHR ''-'' then map_option (\<lambda>n. word_of_int (- min (int n) (2 ^ 63))) (scan_unsigned rest)
          else map_option (\<lambda>n. word_of_int (min (int n) (2 ^ 63 - 1)))
                 (scan_unsigned (if c = CHR ''+'' then rest else s)))"

definition sscanf_li :: "string \<Rightarrow> string \<Rightarrow> u64 option" where
  "sscanf_li fmt s = Option.bind (scan_lit fmt (takeWhile (\<lambda>c. c \<noteq> CHR 0x00) s)) scan_li"

text \<open>
  \<^verbatim>\<open>sscanf(s, "%i", p)\<close> with a 32-bit target: the value scanned as \<^verbatim>\<open>long\<close>, cut to its low half.
\<close>

definition scan_i :: "string \<Rightarrow> u32 option" where
  "scan_i s = map_option ucast (sscanf_li [] s)"

section \<open>Lemmas\<close>

text \<open>A number printed with \<^verbatim>\<open>%d\<close> is read back by \<^verbatim>\<open>%i\<close>.\<close>

lemma scan_digits_snoc:
  "list_all (\<lambda>c. digit_val base c \<noteq> None) s \<Longrightarrow> scan_digits base acc (s @ s') = scan_digits base (scan_digits base acc s) s'"
  by (induction s arbitrary: acc) (auto split: option.splits)

lemma of_char_digit: "d < 10 \<Longrightarrow> of_char (digit_char d) = 48 + d"
  by (simp add: digit_char_def)

lemma digit_val_dec: "d < 10 \<Longrightarrow> digit_val 10 (digit_char d) = Some d"
  by (simp add: digit_val_def of_char_digit)

lemma scan_dec_digits:
  "list_all (\<lambda>c. digit_val 10 c \<noteq> None) (num_string 10 n) \<and> num_string 10 n \<noteq> [] \<and>
   scan_digits 10 0 (num_string 10 n) = n \<and> (0 < n \<longrightarrow> hd (num_string 10 n) \<noteq> CHR ''0'')"
proof (induction n rule: less_induct)
  case (less n)
  show ?case
  proof (cases "n < 10")
    case True
    have "digit_char n = CHR ''0'' \<Longrightarrow> n = 0"
      using of_char_digit [OF True] by (auto simp: digit_char_def)
    then show ?thesis using True digit_val_dec [OF True] by (auto simp: num_string.simps [of 10 n])
  next
    case False
    then have s: "num_string 10 n = num_string 10 (n div 10) @ [digit_char (n mod 10)]" by (simp add: num_string.simps [of 10 n])
    have d: "digit_val 10 (digit_char (n mod 10)) = Some (n mod 10)" by (rule digit_val_dec) simp
    have "n div 10 < n" "0 < n div 10" using False by simp_all
    then show ?thesis using less.IH [of "n div 10"] d by (simp add: s scan_digits_snoc)
  qed
qed

lemma scan_unsigned_dec: "scan_unsigned (dec_string n) = Some n"
proof -
  note s = scan_dec_digits [of n]
  have b: "scan_base 10 (num_string 10 n) = Some n"
    using s by (cases "num_string 10 n") (simp_all add: scan_base_def)
  show ?thesis
  proof (cases "n = 0")
    case True
    then show ?thesis using b by (simp add: dec_string_def scan_unsigned_def num_string.simps [of 10 0])
  next
    case False
    then show ?thesis using b s by (auto simp: dec_string_def scan_unsigned_def split: list.splits)
  qed
qed

lemma digit_val_sign: "digit_val 10 c \<noteq> None \<Longrightarrow> c \<noteq> CHR ''-'' \<and> c \<noteq> CHR ''+'' \<and> \<not> is_space c \<and> c \<noteq> CHR 0x00"
  by (auto simp: digit_val_def is_space_def split: if_splits)

lemma scan_li_dec: "n < 2 ^ 63 \<Longrightarrow> scan_li (dec_string n) = Some (word_of_nat n)"
proof -
  assume n: "n < 2 ^ 63"
  obtain c cs where s: "num_string 10 n = c # cs" using scan_dec_digits [of n] by (cases "num_string 10 n") auto
  then have "digit_val 10 c \<noteq> None" using scan_dec_digits [of n] by simp
  with n s scan_unsigned_dec [of n] show ?thesis
    using digit_val_sign [of c] by (simp add: scan_li_def dec_string_def min_def flip: of_nat_power)
qed

lemma scan_i_dec: "n < 2 ^ 31 \<Longrightarrow> scan_i (dec_string n) = Some (word_of_nat n)"
proof -
  assume n: "n < 2 ^ 31"
  have "takeWhile (\<lambda>c. c \<noteq> CHR 0x00) (dec_string n) = dec_string n"
    using scan_dec_digits [of n] digit_val_sign by (auto simp: dec_string_def list_all_iff intro!: takeWhile_eq_all_conv [THEN iffD2])
  moreover have "ucast (word_of_nat n :: u64) = (word_of_nat n :: u32)"
    by (rule bit_word_eqI) (simp add: bit_simps)
  ultimately have "scan_i (dec_string n) = map_option (\<lambda>x. ucast x) (scan_li (dec_string n))"
      "ucast (word_of_nat n :: u64) = (word_of_nat n :: u32)"
    by (simp_all only: scan_i_def sscanf_li_def scan_lit.simps Option.bind.bind_lunit)
  then show ?thesis using n scan_li_dec [of n] by simp
qed

end
