(* ===== verification/Drv_LoopBack.thy ===== *)
theory Drv_LoopBack
  imports Xvc_Driver C_Scan
begin

text \<open>
  The test driver \<^verbatim>\<open>JtagDriverLoopBack\<close> and the emulated firmware \<^verbatim>\<open>UdpLoopBack\<close> of
  \<^verbatim>\<open>xvcDrvLoopBack.h\<close>/\<^verbatim>\<open>xvcDrvLoopBack.cc\<close>.  The driver either loops TDI back to TDO or checks
  the vectors against a playback file and answers with the TDO values of the file.
\<close>

section \<open>JtagDriverLoopBack\<close>

text \<open>A \<^verbatim>\<open>FILE *\<close>: null, an indeterminate pointer, or an open stream with its contents.\<close>

datatype file_ptr = NullPtr | WildPtr | Stream string

record loopBack = axisToJtag +
  m_f :: file_ptr
  m_fpos :: nat
  m_skip :: bool
  m_tdoOnly :: bool
  m_line :: nat

text \<open>
  The constructor.  \<open>fopen\<close> stands for the file system: it gives the contents of a file that can be
  read.  Without a file name \<^verbatim>\<open>f_\<close> is not initialised: its value is the argument \<open>f0\<close>.
\<close>

definition contains :: "string \<Rightarrow> string \<Rightarrow> bool" where
  "contains sub s = (\<exists>i\<in>set [0..<Suc (length s)]. take (length sub) (drop i s) = sub)"

definition loopBack_new :: "platform \<Rightarrow> u8 \<Rightarrow> file_ptr \<Rightarrow> (string \<Rightarrow> string option) \<Rightarrow> string option \<Rightarrow>
    loopBack res" where
  "loopBack_new host xid0 f0 fopen fnam =
     (let base = axisToJtag_new host xid0 0; skip = (fnam = None \<or> fnam = Some []) in
      case fnam of
        Some (c # cs) \<Rightarrow>
          (case fopen (c # cs) of
             None \<Rightarrow> Inl (SysErr (c # cs))
           | Some text \<Rightarrow>
               Inr (axisToJtag.extend base
                 (loopBack.fields (Stream text) 0 skip (contains ''TdoOnly'' (c # cs)) 1)))
      | _ \<Rightarrow> Inr (axisToJtag.extend base (loopBack.fields f0 0 skip False 1)))"

text \<open>\<open>rdl\<close> returns the line read, or nothing when reading is switched off.\<close>

definition rdl :: "nat \<Rightarrow> ('a loopBack_scheme, string option) sm" where
  "rdl bufsz d =
     (if m_skip d then (Inr None, d)
      else (case m_f d of
          Stream text \<Rightarrow>
            (let l = fgets (bufsz - 1) (drop (m_fpos d) text)
             in if l = [] then (Inr None, d\<lparr>m_skip := True\<rparr>)
                else (Inr (Some l), d\<lparr>m_fpos := m_fpos d + length l\<rparr>))
        | _ \<Rightarrow> (Inl (Fault ''fgets on an invalid stream''), d)))"

definition check :: "u64 \<Rightarrow> string \<Rightarrow> bool \<Rightarrow> ('a loopBack_scheme, u64) sm" where
  "check val fmt rdOnly =
     bindS (rdl 512) (\<lambda>l.
       case l of
         None \<Rightarrow> retS 0
       | Some cbuf \<Rightarrow> (\<lambda>d.
           case sscanf_li fmt cbuf of
             None \<Rightarrow> (Inl (RuntimeErr (''Unable to scan (format '' @ fmt @ ''%li; line '' @ dec_string (m_line d) @ '')'')), d)
           | Some cmp \<Rightarrow>
               if \<not> rdOnly \<and> cmp \<noteq> val
               then (Inl (RuntimeErr (''value mismatch -- got 0x'' @ hex_string (unat val) @ ''; expected 0x'' @
                       hex_string (unat cmp) @ '' (@line '' @ dec_string (m_line d) @ '')'')), d)
               else (Inr cmp, d\<lparr>m_line := m_line d + 1\<rparr>)))"

definition loop_getMaxVectorSize :: "'a loopBack_scheme \<Rightarrow> nat" where
  "loop_getMaxVectorSize d = 0"

definition checkTDI :: "u64 \<Rightarrow> ('a loopBack_scheme, unit) sm" where
  "checkTDI val d =
     (if \<not> m_tdoOnly d then bindS (check val ''TDI : '' False) (\<lambda>_. retS ()) d else (Inr (), d))"

definition checkTMS :: "u64 \<Rightarrow> ('a loopBack_scheme, unit) sm" where
  "checkTMS val d =
     (if \<not> m_tdoOnly d then bindS (check val ''TMS : '' False) (\<lambda>_. retS ()) d else (Inr (), d))"

definition checkLEN :: "u64 \<Rightarrow> ('a loopBack_scheme, unit) sm" where
  "checkLEN val d =
     (if \<not> m_tdoOnly d then bindS (check val ''LENBITS: '' False) (\<lambda>_. retS ()) d else (Inr (), d))"

definition getTDO :: "('a loopBack_scheme, u64) sm" where
  "getTDO = check 0 ''TDO : '' True"

text \<open>\<open>getValLE\<close> accumulates from the last byte down, \<open>setValLE\<close> stores from the first byte up.\<close>

definition getValLE :: "u8 list \<Rightarrow> nat \<Rightarrow> nat \<Rightarrow> u64 res" where
  "getValLE buf off wsz =
     bindR (rd_mem buf off wsz) (\<lambda>bs. Inr (foldr (\<lambda>b rval. push_bit 8 rval OR ucast b) bs 0))"

primrec le_split :: "u64 \<Rightarrow> nat \<Rightarrow> u8 list" where
  "le_split val 0 = []"
| "le_split val (Suc n) = ucast val # le_split (drop_bit 8 val) n"

definition setValLE :: "u64 \<Rightarrow> u8 list \<Rightarrow> nat \<Rightarrow> nat \<Rightarrow> u8 list res" where
  "setValLE val buf off wsz = wr_mem buf off (le_split val wsz)"

definition emulWordSize :: nat where
  "emulWordSize = 4"

definition emulMemDepth :: nat where
  "emulMemDepth = 0"

text \<open>
  The body of the loops over the TMS/TDI pairs: check both words, and loop TDI back while there is no
  file.  The state is the receive buffer and the object.  \<open>len\<close> is the word size for whole words and
  the number of remaining bytes for the last one.
\<close>

definition onDrv :: "('d, 'a) sm \<Rightarrow> (u8 list \<times> 'd, 'a) sm" where
  "onDrv m s = (case s of (rxb, d) \<Rightarrow> case m d of (r, d') \<Rightarrow> (r, (rxb, d')))"

definition echo_pair :: "nat \<Rightarrow> nat \<Rightarrow> u8 list \<Rightarrow> nat \<Rightarrow> nat \<Rightarrow> (u8 list \<times> 'a loopBack_scheme, unit) sm" where
  "echo_pair wsz len txb i j =
     bindS (liftR (getValLE txb (wsz + i) len)) (\<lambda>tms.
     bindS (onDrv (checkTMS tms)) (\<lambda>_.
     bindS (liftR (getValLE txb (wsz + wsz + i) len)) (\<lambda>tdi.
     bindS (onDrv (checkTDI tdi)) (\<lambda>_. (\<lambda>(rxb, d).
       if m_skip d then
         (case bindR (rd_mem txb (wsz + wsz + i) len) (wr_mem rxb j) of
            Inl e \<Rightarrow> (Inl e, (rxb, d))
          | Inr rxb' \<Rightarrow> (Inr (), (rxb', d)))
       else (Inr (), (rxb, d)))))))"

primrec echo_words :: "nat \<Rightarrow> nat \<Rightarrow> u8 list \<Rightarrow> nat \<Rightarrow> nat \<Rightarrow> (u8 list \<times> 'a loopBack_scheme, unit) sm" where
  "echo_words 0 wsz txb i j = retS ()"
| "echo_words (Suc k) wsz txb i j =
     bindS (echo_pair wsz wsz txb i j) (\<lambda>_. echo_words k wsz txb (i + 2 * wsz) (j + wsz))"

text \<open>The playback loop: the TDO values of the file, one per word.\<close>

primrec play_words :: "nat \<Rightarrow> nat \<Rightarrow> nat \<Rightarrow> nat \<Rightarrow> (u8 list \<times> 'a loopBack_scheme, unit) sm" where
  "play_words 0 wsz bytes i = retS ()"
| "play_words (Suc k) wsz bytes i =
     bindS (onDrv getTDO) (\<lambda>v. bindS (\<lambda>(rxb, d).
       case setValLE v rxb i (if bytes - i > 4 then 4 else bytes - i) of
         Inl e \<Rightarrow> (Inl e, (rxb, d))
       | Inr rxb' \<Rightarrow> (Inr (), (rxb', d)))
     (\<lambda>_. play_words k wsz bytes (i + wsz)))"

definition shift_reply :: "u8 list \<Rightarrow> nat \<Rightarrow> nat \<Rightarrow> (u8 list \<times> 'a loopBack_scheme, int) sm" where
  "shift_reply txb txBytes bits =
     (let wsz = emulWordSize; bytes = c_unsigned ((bits + 7) div 8); wbytes = bytes div wsz * wsz; rem = bytes - wbytes in
      bindS (onDrv (checkLEN (word_of_nat bits))) (\<lambda>_.
        if txBytes < wsz + 2 * bytes then throwS (RuntimeErr ''Not enough TX bytes??'')
        else
          bindS (echo_words (bytes div wsz) wsz txb 0 0) (\<lambda>_.
          bindS (if rem \<noteq> 0 then echo_pair wsz rem txb (2 * wbytes) wbytes else retS ()) (\<lambda>_.
          bindS (\<lambda>(rxb, d). if \<not> m_skip d then play_words ((bytes + wsz - 1) div wsz) wsz bytes 0 (rxb, d)
                            else (Inr (), (rxb, d))) (\<lambda>_. retS (int bytes))))))"

definition err_header :: "u32 \<Rightarrow> u32 \<Rightarrow> u32" where
  "err_header h e = (h AND NOT (CMD_MASK OR LEN_MASK)) OR (CMD_E OR e)"

text \<open>
  \<^verbatim>\<open>JtagDriverLoopBack::xfer\<close>; \<open>dpt\<close> is the result of the virtual method \<^verbatim>\<open>emulMemDepth()\<close>.  The
  reply header is copied to the buffer in the byte order of the platform.
\<close>

definition rewind :: "'a loopBack_scheme \<Rightarrow> 'a loopBack_scheme res" where
  "rewind d = (case m_f d of
       NullPtr \<Rightarrow> Inr d
     | Stream _ \<Rightarrow> Inr (d\<lparr>m_fpos := 0, m_skip := False\<rparr>)
     | WildPtr \<Rightarrow> Inl (Fault ''fseek on an indeterminate pointer''))"

definition put_hdr :: "bool \<Rightarrow> u8 list \<Rightarrow> u32 \<Rightarrow> int res \<Rightarrow> int res \<times> u8 list" where
  "put_hdr le hdbuf h r =
     (case r of
        Inl e \<Rightarrow> (Inl e, hdbuf)
      | Inr v \<Rightarrow> (case wr_mem hdbuf 0 (mem_of_u32 le h) of Inl e \<Rightarrow> (Inl e, hdbuf) | Inr hb \<Rightarrow> (Inr v, hb)))"

definition loop_xfer :: "nat \<Rightarrow> 'a loopBack_scheme xfer_fn" where
  "loop_xfer dpt txb txBytes hdbuf hsize rxb sz d =
     (let le = isLE (m_host d); wsz = emulWordSize in
      if txBytes < 4 then ((Inr 0, hdbuf, rxb), d)
      else (case rd_mem txb 0 4 of
          Inl e \<Rightarrow> ((Inl e, hdbuf, rxb), d)
        | Inr bs \<Rightarrow>
            let h = le_word32 bs in
            if getVrs h \<noteq> PVER0 then
              (case put_hdr le hdbuf (err_header h 2) (Inr 0) of (r, hb) \<Rightarrow> ((r, hb, rxb), d))
            else if getCmd h = CMD_Q then
              (case rewind d of
                 Inl e \<Rightarrow> ((Inl e, hdbuf, rxb), d)
               | Inr d' \<Rightarrow>
                   (case put_hdr le hdbuf
                           (h OR (push_bit 4 (word_of_nat dpt AND 0xfffff) OR word_of_nat (wsz - 1))) (Inr 0)
                    of (r, hb) \<Rightarrow> ((r, hb, rxb), d')))
            else if getCmd h = CMD_S then
              (case getLen h of
                 Inl e \<Rightarrow> ((Inl e, hdbuf, rxb), d)
               | Inr bits \<Rightarrow>
                   (case shift_reply txb txBytes bits (rxb, d) of
                      (r0, (rxb', d')) \<Rightarrow>
                        (case put_hdr le hdbuf h r0 of (r, hb) \<Rightarrow> ((r, hb, rxb'), d'))))
            else
              (case put_hdr le hdbuf (err_header h 1) (Inr 0) of (r, hb) \<Rightarrow> ((r, hb, rxb), d))))"

definition loopBack_xfer :: "loopBack xfer_fn" where
  "loopBack_xfer = loop_xfer emulMemDepth"

section \<open>UdpLoopBack\<close>

text \<open>
  The emulated firmware: it remembers in \<^verbatim>\<open>tsiz_\<close> the payload size of the last shift and answers a
  repeated transaction id from its transmit buffer without executing anything.
\<close>

record udpLoopBack = loopBack +
  m_sock :: int
  m_rbuf :: "u8 list"
  m_tbuf :: "u8 list"
  m_tsiz :: int

definition udpLoopBack_new :: "platform \<Rightarrow> u8 \<Rightarrow> file_ptr \<Rightarrow> (string \<Rightarrow> string option) \<Rightarrow> sock_env \<Rightarrow> string option \<Rightarrow>
    u32 \<Rightarrow> udpLoopBack res" where
  "udpLoopBack_new host xid0 f0 fopen env fnam port =
     bindR (loopBack_new host xid0 f0 fopen fnam) (\<lambda>b.
     bindR (sockSd_new env) (\<lambda>sd.
     bindR (bind_local env (ucast port)) (\<lambda>_.
       Inr (loopBack.extend b (udpLoopBack.fields sd (alloc_raw host 1500) (alloc_raw host 1500) (-1))))))"

definition udp_emulMemDepth :: nat where
  "udp_emulMemDepth = 1450 div 2 div emulWordSize - 1"

definition udp_loop_xfer :: "'a udpLoopBack_scheme xfer_fn" where
  "udp_loop_xfer txb txBytes hdbuf hsize rxb sz d =
     (let le = isLE (m_host d) in
      case bindR (getHdr le txb) (\<lambda>t. bindR (getHdr le hdbuf) (\<lambda>r. Inr (t, r))) of
        Inl e \<Rightarrow> ((Inl e, hdbuf, rxb), d)
      | Inr (txh, rxh) \<Rightarrow>
          if getCmd txh = CMD_Q then
            loop_xfer udp_emulMemDepth txb txBytes hdbuf hsize rxb sz (d\<lparr>m_tsiz := -1\<rparr>)
          else if getCmd txh = CMD_S then
            (if getXid txh = getXid rxh then
               (if m_tsiz d < 0
                then ((Inl (RuntimeErr ''ERROR: UdpLoopBack - attempted retry but have no valid message!''), hdbuf, rxb), d)
                else ((Inr (m_tsiz d), hdbuf, rxb), d))
             else
               (case loop_xfer udp_emulMemDepth txb txBytes hdbuf hsize rxb sz d of
                  ((Inl e, hb, rxb'), d') \<Rightarrow> ((Inl e, hb, rxb'), d')
                | ((Inr got, hb, rxb'), d') \<Rightarrow> ((Inr got, hb, rxb'), d'\<lparr>m_tsiz := got\<rparr>)))
          else loop_xfer udp_emulMemDepth txb txBytes hdbuf hsize rxb sz d)"

text \<open>
  One round of \<^verbatim>\<open>UdpLoopBack::run\<close>: \<open>recvfrom\<close> fails (\<open>None\<close>) or delivers a datagram, cut to the
  size of the buffer, and \<open>sent\<close> tells whether \<open>sendto\<close> succeeds.  The result is the reply that was
  sent, or nothing when the request was dropped for testing.  The header and the payload of the reply
  are adjacent parts of the transmit buffer.
\<close>

definition udp_answer :: "nat \<Rightarrow> bool \<Rightarrow> ('a udpLoopBack_scheme, u8 list) sm" where
  "udp_answer got sent d =
     (case udp_loop_xfer (m_rbuf d) got (take 4 (m_tbuf d)) 4 (drop 4 (m_tbuf d)) (length (m_tbuf d) - 4) d of
        ((r, hb, rx), d') \<Rightarrow>
          let d1 = d'\<lparr>m_tbuf := hb @ rx\<rparr> in
          (case bindR r (\<lambda>pld. rd_mem (m_tbuf d1) 0 (nat (pld + 4))) of
             Inl e \<Rightarrow> (Inl e, d1)
           | Inr reply \<Rightarrow>
               if sent then (Inr reply, d1)
               else (Inl (SysErr ''UdpLoopBack: unable to send from socket''), d1)))"

definition udp_run_step :: "u8 list option \<Rightarrow> bool \<Rightarrow> ('a udpLoopBack_scheme, u8 list option) sm" where
  "udp_run_step pkt sent d =
     (case pkt of
        None \<Rightarrow> (Inl (SysErr ''UdpLoopBack: unable to read from socket!''), d)
      | Some dg \<Rightarrow>
          let got = min (length dg) (length (m_rbuf d));
              d1 = d\<lparr>m_rbuf := take got dg @ drop got (m_rbuf d)\<rparr> in
          if got < 4 then (Inl (ProtoErr ''UdpLoopBack: got no header!''), d1)
          else
            let d2 = (if m_drEn d1 then d1\<lparr>m_drop := m_drop d1 + 1\<rparr> else d1) in
            if m_drEn d2 \<and> m_drop d2 AND 0xff = 0 then (Inr None, d2)
            else bindS (udp_answer got sent) (\<lambda>reply. retS (Some reply)) d2)"

text \<open>\<^verbatim>\<open>UdpLoopBack::run\<close> over the events of the environment: the replies, and why it ended.\<close>

primrec udp_run :: "(u8 list option \<times> bool) list \<Rightarrow> u8 list list \<Rightarrow> 'a udpLoopBack_scheme \<Rightarrow>
    (xerr \<times> u8 list list) \<times> 'a udpLoopBack_scheme" where
  "udp_run [] replies d = ((Blocked, replies), d)"
| "udp_run (ev # evs) replies d =
     (case udp_run_step (fst ev) (snd ev) d of
        (Inl e, d') \<Rightarrow> ((e, replies), d')
      | (Inr None, d') \<Rightarrow> udp_run evs replies d'
      | (Inr (Some p), d') \<Rightarrow> udp_run evs (replies @ [p]) d')"

text \<open>\<^verbatim>\<open>udpTestThread\<close> of \<^verbatim>\<open>xvcSrv.cc\<close>.\<close>

definition udpTestThread :: "(u8 list option \<times> bool) list \<Rightarrow> 'a udpLoopBack_scheme \<Rightarrow>
    (xerr \<times> u8 list list) \<times> 'a udpLoopBack_scheme" where
  "udpTestThread evs d = udp_run evs [] (setTestMode 1 d)"

section \<open>Specification\<close>

text \<open>What a transfer leaves alone: of the object, and of the object and the receive buffer.\<close>

definition loop_frame :: "'a loopBack_scheme \<Rightarrow>
    (u32 \<times> jtagDumpCtx \<times> platform \<times> nat \<times> nat \<times> u8 list \<times> nat \<times> nat \<times> u8 \<times> u32) \<times> u8 list \<times> file_ptr \<times> bool \<times> 'a" where
  "loop_frame d = (drv_frame d, m_hdBuf d, m_f d, m_tdoOnly d, loopBack.more d)"

definition io_frame :: "u8 list \<times> 'a loopBack_scheme \<Rightarrow>
    nat \<times> (u32 \<times> jtagDumpCtx \<times> platform \<times> nat \<times> nat \<times> u8 list \<times> nat \<times> nat \<times> u8 \<times> u32) \<times> u8 list \<times> file_ptr \<times> bool \<times> 'a" where
  "io_frame s = (length (fst s), loop_frame (snd s))"

text \<open>The firmware holds the reply \<open>p\<close> to the request \<open>dg\<close> in its transmit buffer.\<close>

definition udp_answered :: "u8 list \<Rightarrow> u8 list \<Rightarrow> 'a udpLoopBack_scheme \<Rightarrow> bool" where
  "udp_answered dg p d \<longleftrightarrow>
     4 \<le> length (m_tbuf d) \<and> 0 \<le> m_tsiz d \<and> nat (m_tsiz d + 4) \<le> length (m_tbuf d) \<and>
     getXid (le_word32 (take 4 (m_tbuf d))) = getXid (le_word32 (take 4 dg)) \<and>
     p = take (nat (m_tsiz d + 4)) (m_tbuf d)"

definition rbuf_holds :: "u8 list \<Rightarrow> 'a udpLoopBack_scheme \<Rightarrow> bool" where
  "rbuf_holds dg d \<longleftrightarrow>
     (let got = min (length dg) (length (m_rbuf d)) in 4 \<le> got \<and> take got (m_rbuf d) = take got dg)"

text \<open>Objects for concrete runs.\<close>

definition loop_example :: loopBack where
  "loop_example = axisToJtag.extend fresh_drv (loopBack.fields NullPtr 0 True False 1)"

definition udp_example :: udpLoopBack where
  "udp_example = loopBack.extend loop_example (udpLoopBack.fields 3 (replicate 16 0) (replicate 16 0) (-1))"

section \<open>Lemmas\<close>

subsection \<open>What the driver leaves alone\<close>

lemma loop_frame_upd [simp]:
  "loop_frame (d\<lparr>m_skip := b\<rparr>) = loop_frame d" "loop_frame (d\<lparr>m_fpos := p\<rparr>) = loop_frame d"
  "loop_frame (d\<lparr>m_line := l\<rparr>) = loop_frame d"
  by (simp_all add: loop_frame_def drv_frame_def)

lemma loop_frame_drv: "loop_frame d' = loop_frame d \<Longrightarrow> drv_frame d' = drv_frame d"
  by (simp add: loop_frame_def)

lemma keeps_rdl: "keepsS loop_frame (rdl n)"
  by (rule keepsS_I) (auto simp: rdl_def Let_def split: if_splits file_ptr.splits)

lemma keeps_check: "keepsS loop_frame (check val fmt rdOnly)"
  unfolding check_def
  by (rule keepsS_bind [OF keeps_rdl])
    (auto intro!: keepsS_I split: option.splits if_splits)

lemma keeps_checks [intro]:
  "keepsS loop_frame (checkTMS val)" "keepsS loop_frame (checkTDI val)" "keepsS loop_frame (checkLEN val)"
  "keepsS loop_frame getTDO"
proof -
  have "keepsS loop_frame (\<lambda>d. if \<not> m_tdoOnly d then bindS (check val fmt False) (\<lambda>_. retS ()) d else (Inr (), d))" for fmt
    by (rule keepsS_I) (auto split: if_splits dest!: keepsS_D [OF keepsS_bind [OF keeps_check keepsS_pure(1)]])
  then show "keepsS loop_frame (checkTMS val)" "keepsS loop_frame (checkTDI val)" "keepsS loop_frame (checkLEN val)"
    unfolding checkTMS_def [abs_def] checkTDI_def [abs_def] checkLEN_def [abs_def] by blast+
  show "keepsS loop_frame getTDO" by (simp add: getTDO_def keeps_check)
qed

lemma keeps_onDrv [intro]: "keepsS loop_frame m \<Longrightarrow> keepsS io_frame (onDrv m)"
  by (rule keepsS_I) (auto simp: onDrv_def io_frame_def split: prod.splits dest: keepsS_D)

lemma keeps_echo_pair [intro]: "keepsS io_frame (echo_pair wsz len txb i j)"
  unfolding echo_pair_def
  by (intro keepsS_bind keeps_onDrv keeps_checks keepsS_pure)
    (auto intro!: keepsS_I simp: io_frame_def split: if_splits sum.splits dest: wr_mem_length)

lemma keeps_echo_words [intro]: "keepsS io_frame (echo_words k wsz txb i j)"
  by (induction k arbitrary: i j) (auto intro!: keepsS_bind)

lemma keeps_play_words [intro]: "keepsS io_frame (play_words k wsz bytes i)"
proof (induction k arbitrary: i)
  case (Suc k)
  show ?case unfolding play_words.simps
    by (intro keepsS_bind keeps_onDrv keeps_checks Suc.IH)
      (auto intro!: keepsS_I simp: io_frame_def setValLE_def split: sum.splits dest: wr_mem_length)
qed auto

lemma keeps_shift_reply [intro]: "keepsS io_frame (shift_reply txb txBytes bits)"
proof -
  have "keepsS io_frame (\<lambda>(rxb, d). if \<not> m_skip d then play_words k wsz bytes 0 (rxb, d) else (Inr (), (rxb, d)))"
    for k wsz bytes
    by (rule keepsS_I) (auto split: if_splits dest: keepsS_D [OF keeps_play_words])
  then show ?thesis unfolding shift_reply_def Let_def
    by (intro keepsS_bind keeps_onDrv keeps_checks) (auto intro!: keepsS_bind)
qed

lemma put_hdr_length: "put_hdr le hb h r = (r', hb') \<Longrightarrow> length hb' = length hb"
  by (auto simp: put_hdr_def split: sum.splits dest: wr_mem_length)

lemma loop_xfer_frame:
  assumes "loop_xfer dpt txb n hb hs rxb sz d = ((r, hb', rxb'), d')"
  shows "loop_frame d' = loop_frame d \<and> length hb' = length hb \<and> length rxb' = length rxb"
  using assms
  by (auto simp: loop_xfer_def Let_def rewind_def io_frame_def
      split: if_splits sum.splits prod.splits file_ptr.splits
      dest: put_hdr_length dest!: keepsS_D [OF keeps_shift_reply])

lemma more_udp:
  assumes "loopBack.more d' = loopBack.more (d :: 'a udpLoopBack_scheme)"
  shows "m_rbuf d' = m_rbuf d \<and> m_tbuf d' = m_tbuf d \<and> m_tsiz d' = m_tsiz d"
  using assms by (cases d, cases d') simp

lemma udp_loop_xfer_frame:
  assumes "udp_loop_xfer txb n hb hs rxb sz d = ((r, hb', rxb'), d')"
  shows "drv_frame d' = drv_frame d \<and> m_hdBuf d' = m_hdBuf d \<and> m_rbuf d' = m_rbuf d \<and> m_tbuf d' = m_tbuf d \<and>
    length hb' = length hb \<and> length rxb' = length rxb"
  using assms
  by (auto simp: udp_loop_xfer_def Let_def loop_frame_def drv_frame_def
      split: if_splits sum.splits prod.splits dest!: loop_xfer_frame more_udp)

text \<open>Both transports keep the contract that the base class relies on.\<close>

interpretation lb: xfer_transport loopBack_xfer
  by unfold_locales (auto simp: loopBack_xfer_def dest!: loop_xfer_frame intro: loop_frame_drv)

interpretation ulb: xfer_transport udp_loop_xfer
proof
  fix txb n hb hs rxb sz r hb' rxb' and d d' :: "'a udpLoopBack_scheme"
  assume "udp_loop_xfer txb n hb hs rxb sz d = ((r, hb', rxb'), d')"
  from udp_loop_xfer_frame [OF this]
  show "drv_frame d' = drv_frame d" "length hb' = length hb" "length rxb' = length rxb" by simp_all
qed

subsection \<open>Looping TDI back\<close>

lemma skip_checks [simp]:
  assumes "m_skip d"
  shows "checkTMS v d = (Inr (), d)" "checkTDI v d = (Inr (), d)" "checkLEN v d = (Inr (), d)"
  using assms by (simp_all add: checkTMS_def checkTDI_def checkLEN_def check_def rdl_def bindS_def)

lemma getValLE_ok: "off + n \<le> length buf \<Longrightarrow> \<exists>v. getValLE buf off n = Inr v"
  by (simp add: getValLE_def rd_mem_ok)

lemma echo_pair_skip:
  assumes "m_skip d" and "wsz + wsz + i + len \<le> length txb" and "j + len \<le> length rxb"
  shows "echo_pair wsz len txb i j (rxb, d) =
    (Inr (), (take j rxb @ take len (drop (wsz + wsz + i) txb) @ drop (j + len) rxb, d))"
proof -
  obtain v where v: "getValLE txb (wsz + i) len = Inr v" using getValLE_ok assms(2) by fastforce
  obtain u where u: "getValLE txb (wsz + wsz + i) len = Inr u" using getValLE_ok assms(2) by fastforce
  show ?thesis using assms
    by (simp add: echo_pair_def bindS_def onDrv_def v u mem_simps)
qed

lemma echo_words_skip:
  assumes "m_skip d" and "0 < wsz"
  shows "wsz + i + 2 * wsz * k \<le> length txb \<Longrightarrow> j + k * wsz \<le> length rxb \<Longrightarrow>
    \<exists>rxb'. echo_words k wsz txb i j (rxb, d) = (Inr (), (rxb', d)) \<and> length rxb' = length rxb \<and>
      (\<forall>t<length rxb. t < j \<or> j + k * wsz \<le> t \<longrightarrow> rxb' ! t = rxb ! t) \<and>
      (\<forall>t<k * wsz. rxb' ! (j + t) = txb ! (i + tdi_pos wsz t))"
proof (induction k arbitrary: i j rxb)
  case (Suc k)
  define rx1 where "rx1 = take j rxb @ take wsz (drop (wsz + wsz + i) txb) @ drop (j + wsz) rxb"
  have e: "echo_pair wsz wsz txb i j (rxb, d) = (Inr (), (rx1, d))"
    unfolding rx1_def by (rule echo_pair_skip [OF assms(1)]) (use Suc.prems in simp_all)
  have len: "length rx1 = length rxb" using Suc.prems by (simp add: rx1_def)
  have rx1: "rx1 ! t = (if j \<le> t \<and> t < j + wsz then txb ! (wsz + wsz + i + (t - j)) else rxb ! t)"
    if "t < length rxb" for t
    using that Suc.prems by (auto simp: rx1_def nth_append)
  obtain rx' where rx': "echo_words k wsz txb (i + 2 * wsz) (j + wsz) (rx1, d) = (Inr (), (rx', d))"
    "length rx' = length rx1"
    "\<forall>t<length rx1. t < j + wsz \<or> j + wsz + k * wsz \<le> t \<longrightarrow> rx' ! t = rx1 ! t"
    "\<forall>t<k * wsz. rx' ! (j + wsz + t) = txb ! (i + 2 * wsz + tdi_pos wsz t)"
    using Suc.IH [of "i + 2 * wsz" "j + wsz" rx1] Suc.prems len by (auto simp: algebra_simps)
  have "rx' ! (j + t) = txb ! (i + tdi_pos wsz t)" if t: "t < Suc k * wsz" for t
  proof (cases "t < wsz")
    case True
    then show ?thesis using rx'(3) rx1 [of "j + t"] len Suc.prems by (simp add: tdi_pos_def algebra_simps)
  next
    case False
    then have "t - wsz < k * wsz" "t = wsz + (t - wsz)" using t by simp_all
    moreover have "tdi_pos wsz t = 2 * wsz + tdi_pos wsz (t - wsz)"
      using False assms(2) by (simp add: tdi_pos_def le_div_geq le_mod_geq algebra_simps)
    ultimately show ?thesis using rx'(4) [rule_format, of "t - wsz"] by (simp add: algebra_simps)
  qed
  moreover have "rx' ! t = rxb ! t" if "t < length rxb" "t < j \<or> j + Suc k * wsz \<le> t" for t
    using that rx'(3) rx1 [of t] len by (auto simp: algebra_simps)
  ultimately show ?case using e rx'(1,2) len by (auto simp: bindS_def)
qed auto

lemma shift_reply_skip:
  assumes "m_skip d" and "bits < 2 ^ 32" and "n = (bits + 7) div 8"
    and "msg_size 4 n \<le> length txb" and "4 + 2 * n \<le> txBytes" and "n \<le> length rxb"
  shows "shift_reply txb txBytes bits (rxb, d) =
    (Inr (int n), (map (\<lambda>t. txb ! tdi_pos 4 t) [0..<n] @ drop n rxb, d))"
proof -
  define q where "q = n div 4"
  have n: "n = q * 4 + n mod 4" "n - q * 4 = n mod 4" "n mod 4 < 4"
    by (simp_all add: q_def minus_div_mult_eq_mod)
  have size: "4 + 2 * (q * 4) + (if n mod 4 = 0 then 0 else 8) \<le> length txb"
    using assms(4) ceil_words [of 4 n] by (simp add: msg_size_def q_def split: if_splits)
  have "n < 2 ^ 32" using assms(2,3) by simp
  then have cu: "c_unsigned n = n" by simp
  obtain rx1 where rx1: "echo_words q 4 txb 0 0 (rxb, d) = (Inr (), (rx1, d))" "length rx1 = length rxb"
    "\<forall>t<length rxb. q * 4 \<le> t \<longrightarrow> rx1 ! t = rxb ! t"
    "\<forall>t<q * 4. rx1 ! t = txb ! tdi_pos 4 t"
    using echo_words_skip [OF assms(1), of 4 0 q txb 0 rxb] size assms(6) n(1)
    by (auto simp: algebra_simps split: if_splits)
  define rx2 where "rx2 = (if n mod 4 = 0 then rx1
    else take (q * 4) rx1 @ take (n mod 4) (drop (8 + 2 * (q * 4)) txb) @ drop n rx1)"
  have pair: "echo_pair 4 (n mod 4) txb (8 * q) (q * 4) (rx1, d) = (Inr (), (rx2, d))" if "n mod 4 \<noteq> 0"
    using that echo_pair_skip [OF assms(1), of 4 "8 * q" "n mod 4" txb "q * 4" rx1] size assms(6) n rx1(2)
    by (simp add: rx2_def)
  have step: "shift_reply txb txBytes bits (rxb, d) = (Inr (int n), (rx2, d))"
  proof (cases "n mod 4 = 0")
    case True
    then have "rx2 = rx1" by (simp add: rx2_def)
    with True show ?thesis using assms(1,5) rx1(1) n(2)
      by (simp add: shift_reply_def emulWordSize_def Let_def bindS_def onDrv_def assms(3) [symmetric] cu q_def [symmetric])
  next
    case False
    then show ?thesis using assms(1,5) rx1(1) n(2) pair
      by (simp add: shift_reply_def emulWordSize_def Let_def bindS_def onDrv_def assms(3) [symmetric] cu q_def [symmetric])
  qed
  have pos: "tdi_pos 4 t = 8 + 2 * (q * 4) + (t - q * 4)" if "q * 4 \<le> t" "t < n" for t
  proof -
    have "t div 4 = q" using that n by (intro div_nat_eqI) simp_all
    then show ?thesis using that(1) minus_div_mult_eq_mod [of t 4] by (simp add: tdi_pos_def)
  qed
  have "rx2 = map (\<lambda>t. txb ! tdi_pos 4 t) [0..<n] @ drop n rxb"
  proof (rule nth_equalityI)
    show len: "length rx2 = length (map (\<lambda>t. txb ! tdi_pos 4 t) [0..<n] @ drop n rxb)"
      using rx1(2) size n assms(6) by (auto simp: rx2_def)
    fix t assume "t < length rx2"
    then have t: "t < length rxb" using len assms(6) by simp
    consider "t < q * 4" | "q * 4 \<le> t" "t < n" | "n \<le> t" by linarith
    then show "rx2 ! t = (map (\<lambda>t. txb ! tdi_pos 4 t) [0..<n] @ drop n rxb) ! t"
      using rx1(2-4) t size n pos [of t] assms(6)
      by cases (auto simp: rx2_def nth_append)
  qed
  with step show ?thesis by simp
qed

lemma loop_xfer_shift:
  assumes "m_skip d" and "4 \<le> length txb" and "h = le_word32 (take 4 txb)"
    and "getVrs h = PVER0" and "getCmd h = CMD_S" and "getLen h = Inr bits" and "bits < 2 ^ 32"
    and "n = (bits + 7) div 8" and "msg_size 4 n \<le> length txb" and "4 + 2 * n \<le> txBytes"
    and "n \<le> length rxb" and "4 \<le> length hb"
  shows "loop_xfer dpt txb txBytes hb hs rxb sz d =
    ((Inr (int n), mem_of_u32 (isLE (m_host d)) h @ drop 4 hb, map (\<lambda>t. txb ! tdi_pos 4 t) [0..<n] @ drop n rxb), d)"
proof -
  have "CMD_S \<noteq> CMD_Q" by simp
  then show ?thesis
    using assms(2-6,10,12) shift_reply_skip [OF assms(1,7-11)]
    by (simp add: loop_xfer_def Let_def rd_mem_ok put_hdr_def wr_mem_ok)
qed

lemma sendVectors_loop:
  assumes "drv_wf d" and "m_wordSize d = 4" and "isLE (m_host d)" and "m_skip d" and "\<not> getSniff d"
    and "1 \<le> bits" and "bits \<le> 2 ^ 20" and "n = (bits + 7) div 8"
    and "n \<le> length tms" and "n \<le> length tdi" and "n \<le> length tdo" and "msg_size 4 n \<le> m_bufSz d"
  shows "\<exists>tx hb. length tx = m_bufSz d \<and> length hb = hdBufMax \<and>
    sendVectors (loop_xfer dpt) bits tms tdi tdo d =
      ((Inr (), take n tdi @ drop n tdo), d\<lparr>m_xid := next_xid (m_xid d), m_txBuf := tx, m_hdBuf := hb\<rparr>)"
proof -
  have b32: "bits < 2 ^ 32" and ub: "unat (word_of_nat bits :: u32) = bits"
    using assms(7) by (simp_all add: unsigned_of_nat take_bit_nat_eq_self)
  define h where "h = fst (mkShift (word_of_nat bits) (m_xid d))"
  note f = mkShift_fields [of "word_of_nat bits" "m_xid d", folded h_def, unfolded ub, OF assms(6,7)]
  have txb: "msg_size 4 n \<le> length (m_txBuf d)" using assms(1,12) by (simp add: drv_wf_def)
  obtain tx where len: "length tx = length (m_txBuf d)" and msg: "shift_msg 4 h n tms tdi tx"
    and send: "sendVectors (loop_xfer dpt) bits tms tdi tdo d = send_sniff bits tms tdi
      (xferRel (loop_xfer dpt) tx (msg_size 4 n) tdo n (d\<lparr>m_xid := next_xid (m_xid d), m_txBuf := tx\<rparr>))"
    by (rule sendVectors_msg [OF b32 assms(8) assms(2) [symmetric] _ _ assms(9,10) txb])
      (auto simp: h_def)
  define d1 where "d1 = d\<lparr>m_xid := next_xid (m_xid d), m_txBuf := tx\<rparr>"
  note hdr = shift_msg_hdr [OF msg order_refl]
  have hw: "h = le_word32 (take 4 tx)" using hdr(1) by simp
  have tdis: "map (\<lambda>t. tx ! tdi_pos 4 t) [0..<n] = take n tdi"
    using msg assms(10) by (intro nth_equalityI) (auto simp: shift_msg_def)
  define hb where "hb = le_bytes32 h @ drop 4 (m_hdBuf d)"
  have hb: "length hb = hdBufMax" "take 4 hb = le_bytes32 h"
    using assms(1) by (simp_all add: hb_def drv_wf_def hdBufMax_def)
  have big: "4 + 2 * n \<le> msg_size 4 n" using ceil_words [of 4 n] by (simp add: msg_size_def)
  have "loop_xfer dpt tx (msg_size 4 n) (m_hdBuf d1) (m_wordSize d1) tdo n d1 =
      ((Inr (int n), mem_of_u32 (isLE (m_host d1)) h @ drop 4 (m_hdBuf d1), map (\<lambda>t. tx ! tdi_pos 4 t) [0..<n] @ drop n tdo), d1)"
    by (rule loop_xfer_shift [OF _ hdr(2) hw f(1,2,4) b32 assms(8) _ big assms(11)])
      (use assms(1,4) txb len in \<open>simp_all add: d1_def drv_wf_def hdBufMax_def\<close>)
  then have x: "loop_xfer dpt tx (msg_size 4 n) (m_hdBuf d1) (m_wordSize d1) tdo n d1 =
      ((Inr (int n), hb, take n tdi @ drop n tdo), d1)"
    using assms(3) by (simp add: tdis hb_def mem_of_u32_def d1_def)
  have "xferRel (loop_xfer dpt) tx (msg_size 4 n) tdo n d1 =
      ((Inr (int n, h), take n tdi @ drop n tdo), d1\<lparr>m_hdBuf := hb\<rparr>)"
    using xferRel_accept [where xf = "loop_xfer dpt", OF hdr(2) hw x] hb(1) f(5) by (simp add: hb(2) hdBufMax_def)
  then have "sendVectors (loop_xfer dpt) bits tms tdi tdo d = ((Inr (), take n tdi @ drop n tdo), d1\<lparr>m_hdBuf := hb\<rparr>)"
    using send assms(5) by (simp add: d1_def send_sniff_def getSniff_def)
  then show ?thesis using len hb(1) assms(1) by (auto simp: d1_def drv_wf_def)
qed

subsection \<open>Queries\<close>

lemma query_loop_xferRel:
  assumes "drv_wf d" and "m_f d \<noteq> WildPtr"
    and "reply = mem_of_u32 (isLE (m_host d)) (push_bit 4 (word_of_nat dpt AND 0xfffff) OR 3)"
    and "getErr (le_word32 reply) = 0"
  shows "\<exists>d2. query (loop_xfer dpt) d = query_update (le_word32 reply) d2 \<and> drv_wf d2 \<and>
    m_f d2 = m_f d \<and> m_skip d2 = (if m_f d = NullPtr then m_skip d else False) \<and>
    m_fpos d2 = (if m_f d = NullPtr then m_fpos d else 0)"
proof -
  define w where "w = m_wordSize d"
  have w: "4 \<le> w" "w < 2 ^ 32" "w \<le> length (m_txBuf d)" using assms(1) by (auto simp: drv_wf_def w_def)
  define tx where "tx = le_bytes32 mkQuery @ replicate (w - 4) 0 @ drop w (m_txBuf d)"
  have set: "setHdr (isLE (m_host d)) w (m_txBuf d) mkQuery = Inr tx" using setHdr_le [OF w] by (simp add: tx_def)
  define d1 where "d1 = d\<lparr>m_txBuf := tx\<rparr>"
  obtain d1' where d1': "rewind d1 = Inr d1'" "m_skip d1' = (if m_f d = NullPtr then m_skip d else False)"
    "m_fpos d1' = (if m_f d = NullPtr then m_fpos d else 0)"
    "m_f d1' = m_f d" "drv_frame d1' = drv_frame d1" "m_hdBuf d1' = m_hdBuf d"
    using assms(2) by (cases "m_f d") (auto simp: rewind_def d1_def drv_frame_def)
  have hd: "4 \<le> length (m_hdBuf d)" "length (m_hdBuf d) = hdBufMax" "length reply = 4"
    using assms(1,3) by (simp_all add: drv_wf_def hdBufMax_def)
  have tx4: "take 4 tx = le_bytes32 mkQuery" "4 \<le> length tx" by (simp_all add: tx_def)
  have q0: "mkQuery = 0" by (simp add: mkQuery_def hdr_defs)
  have x: "loop_xfer dpt tx w (m_hdBuf d1) (m_wordSize d1) [] 0 d1 = ((Inr 0, reply @ drop 4 (m_hdBuf d), []), d1')"
    using w(1) tx4 hd(1) d1' assms(3)
    by (simp add: loop_xfer_def Let_def rd_mem_ok emulWordSize_def put_hdr_def wr_mem_ok d1_def)
      (simp add: q0)
  have "xferRel (loop_xfer dpt) tx w [] 0 d1 = ((Inr (0, le_word32 reply), []), d1'\<lparr>m_hdBuf := reply @ drop 4 (m_hdBuf d)\<rparr>)"
    using xferRel_accept [where xf = "loop_xfer dpt", OF tx4(2) refl x] hd assms(4) by (simp add: tx4(1))
  then have "query (loop_xfer dpt) d = query_update (le_word32 reply) (d1'\<lparr>m_hdBuf := reply @ drop 4 (m_hdBuf d)\<rparr>)"
    using set by (simp add: query_def getWordSize_def w_def [symmetric] d1_def [symmetric])
  moreover have "drv_wf (d1'\<lparr>m_hdBuf := reply @ drop 4 (m_hdBuf d)\<rparr>)"
    using assms(1) d1'(5) w(3) hd by (simp add: d1_def drv_frame_def drv_wf_def tx_def w_def hdBufMax_def)
  ultimately show ?thesis using d1' by (intro exI conjI) (assumption | simp)+
qed

lemma query_loop:
  assumes "drv_wf d" and "m_f d \<noteq> WildPtr" and "isLE (m_host d)" and "dpt = 0 \<or> dpt = 180"
  shows "\<exists>d'. query (loop_xfer dpt) d = (Inr (4 * dpt), d') \<and> m_wordSize d' = 4 \<and> m_memDepth d' = dpt \<and>
    m_periodNs d' = UNKNOWN_PERIOD \<and> m_f d' = m_f d \<and> m_skip d' = (if m_f d = NullPtr then m_skip d else False) \<and>
    m_fpos d' = (if m_f d = NullPtr then m_fpos d else 0)"
proof -
  define h :: u32 where "h = (if dpt = 0 then 3 else 0xB43)"
  have h: "h = push_bit 4 (word_of_nat dpt AND 0xfffff) OR 3" using assms(4) by (auto simp: h_def)
  have hdr: "getErr h = 0" "wordSize h = 4" "memDepth h = dpt" "cvtPerNs h = UNKNOWN_PERIOD"
    using assms(4)
    by (auto simp: h_def getErr_def getCmd_def wordSize_def memDepth_def cvtPerNs_def hdr_defs)
  have "le_bytes32 h = mem_of_u32 (isLE (m_host d)) (push_bit 4 (word_of_nat dpt AND 0xfffff) OR 3)"
    using assms(3) by (simp only: h [symmetric] mem_of_u32_def if_True)
  from query_loop_xferRel [OF assms(1,2) this] hdr(1)
  obtain d2 where d2: "query (loop_xfer dpt) d = query_update h d2" "drv_wf d2" "m_f d2 = m_f d"
    "m_skip d2 = (if m_f d = NullPtr then m_skip d else False)" "m_fpos d2 = (if m_f d = NullPtr then m_fpos d else 0)"
    by auto
  have "\<exists>d'. query_update h d2 = (Inr (4 * dpt), d') \<and> m_wordSize d' = 4 \<and> m_memDepth d' = dpt \<and>
    m_periodNs d' = UNKNOWN_PERIOD \<and> m_f d' = m_f d2 \<and> m_skip d' = m_skip d2 \<and> m_fpos d' = m_fpos d2"
    using assms(4) hdr by (auto simp: query_update_def Let_def c_unsigned_def)
  with d2 show ?thesis by auto
qed

lemma err_header_fields:
  assumes "e = 1 \<or> e = 2"
  shows "getErr (err_header h e) = e"
proof -
  have bit_e: "bit e n \<Longrightarrow> n = 0 \<or> n = 1" for n using assms by (auto simp: bit_simps)
  have "getCmd (err_header h e) = CMD_E"
    by (rule bit_word_eqI)
      (auto simp: bit_getCmd err_header_def bit_cmd bit_masks bit_and_iff bit_or_iff bit_not_iff dest: bit_e)
  moreover have "err_header h e AND ERR_MASK = e"
    by (rule bit_word_eqI)
      (auto simp: err_header_def bit_cmd bit_masks bit_and_iff bit_or_iff bit_not_iff dest: bit_e)
  ultimately show ?thesis by (simp add: getErr_def ERR_SHIFT_def)
qed

lemma loop_xfer_rejects:
  assumes "isLE (m_host d)" and "4 \<le> txBytes" and "4 \<le> length txb" and "4 \<le> length hb"
    and "h = le_word32 (take 4 txb)" and "getVrs h \<noteq> PVER0 \<or> getCmd h \<notin> {CMD_Q, CMD_S}"
  shows "loop_xfer dpt txb txBytes hb hs rxb sz d =
    ((Inr 0, le_bytes32 (err_header h (if getVrs h \<noteq> PVER0 then 2 else 1)) @ drop 4 hb, rxb), d)"
  using assms by (auto simp: loop_xfer_def Let_def rd_mem_ok put_hdr_def wr_mem_ok mem_of_u32_def)

subsection \<open>Repeated requests\<close>

lemma err_header_xid: "e = 1 \<or> e = 2 \<Longrightarrow> getXid (err_header h e) = getXid h"
  by (rule bit_word_eqI)
    (auto simp: bit_getXid err_header_def bit_cmd bit_masks bit_and_iff bit_or_iff bit_not_iff bit_simps)

lemma shift_reply_nonneg: "shift_reply txb n bits s = (Inr got, s') \<Longrightarrow> 0 \<le> got"
  by (auto simp: shift_reply_def Let_def bindS_def split: prod.splits sum.splits if_splits)

lemma loop_xfer_reply:
  assumes "loop_xfer dpt txb n hb hs rxb sz d = ((Inr got, hb', rxb'), d')" and "4 \<le> n" and "isLE (m_host d)"
    and "getCmd (le_word32 (take 4 txb)) = CMD_S"
  shows "0 \<le> got \<and> 4 \<le> length hb' \<and> getXid (le_word32 (take 4 hb')) = getXid (le_word32 (take 4 txb))"
  using assms
  by (auto simp: loop_xfer_def Let_def rd_mem_def put_hdr_def wr_mem_def mem_of_u32_def err_header_xid
      split: if_splits sum.splits prod.splits dest: shift_reply_nonneg)

lemma udp_run_step_cases:
  assumes "udp_run_step (Some dg) sent d = (r, d')" and "4 \<le> length dg" and "4 \<le> length (m_rbuf d)"
    and "got = min (length dg) (length (m_rbuf d))"
  obtains (dropped) k where "r = Inr None" "d' = d\<lparr>m_rbuf := take got dg @ drop got (m_rbuf d), m_drop := k\<rparr>"
    | (answered) k where
      "bindS (udp_answer got sent) (\<lambda>reply. retS (Some reply)) (d\<lparr>m_rbuf := take got dg @ drop got (m_rbuf d), m_drop := k\<rparr>) = (r, d')"
proof -
  define rb where "rb = take got dg @ drop got (m_rbuf d)"
  have same: "d\<lparr>m_rbuf := rb, m_drop := m_drop d\<rparr> = d\<lparr>m_rbuf := rb\<rparr>" by (cases d) simp
  have got: "\<not> got < 4" using assms(2-4) by simp
  consider "m_drEn d" "m_drop d + 1 AND 0xff = 0" | "m_drEn d" "m_drop d + 1 AND 0xff \<noteq> 0" | "\<not> m_drEn d" by blast
  then show thesis
  proof cases
    case 1
    then show ?thesis using assms(1) got
      by (intro dropped [of "m_drop d + 1"]) (simp_all add: udp_run_step_def Let_def assms(4) [symmetric])
  next
    case 2
    then show ?thesis using assms(1) got
      by (intro answered [of "m_drop d + 1"]) (simp add: udp_run_step_def Let_def assms(4) [symmetric])
  next
    case 3
    then have "bindS (udp_answer got sent) (\<lambda>reply. retS (Some reply)) (d\<lparr>m_rbuf := rb\<rparr>) = (r, d')"
      using assms(1) got by (simp add: udp_run_step_def Let_def assms(4) [symmetric] rb_def)
    then show ?thesis by (intro answered [of "m_drop d"]) (simp only: rb_def [symmetric] same)
  qed
qed

lemma udp_first_answer:
  assumes "udp_run_step (Some dg) True d = (Inr (Some p), d')" and "isLE (m_host d)"
    and "getCmd (le_word32 (take 4 dg)) = CMD_S" and "4 \<le> length dg" "4 \<le> length (m_rbuf d)" and "4 \<le> length (m_tbuf d)"
  shows "udp_answered dg p d' \<and> rbuf_holds dg d'"
proof -
  define got where "got = min (length dg) (length (m_rbuf d))"
  have got: "4 \<le> got" "got \<le> length dg" "got \<le> length (m_rbuf d)" using assms by (simp_all add: got_def)
  define rb where "rb = take got dg @ drop got (m_rbuf d)"
  have rb4: "take 4 rb = take 4 dg" using got by (simp add: rb_def min_def)
  from assms(1) obtain k where
    "bindS (udp_answer got True) (\<lambda>reply. retS (Some reply)) (d\<lparr>m_rbuf := rb, m_drop := k\<rparr>) = (Inr (Some p), d')"
    by (rule udp_run_step_cases [OF _ assms(4,5) got_def]) (auto simp: rb_def)
  then obtain pld hb rx d3 where
    x: "udp_loop_xfer rb got (take 4 (m_tbuf d)) 4 (drop 4 (m_tbuf d)) (length (m_tbuf d) - 4) (d\<lparr>m_rbuf := rb, m_drop := k\<rparr>) =
      ((Inr pld, hb, rx), d3)"
    and p: "rd_mem (hb @ rx) 0 (nat (pld + 4)) = Inr p" and d': "d' = d3\<lparr>m_tbuf := hb @ rx\<rparr>"
    by (auto simp: bindS_def udp_answer_def Let_def split: prod.splits sum.splits)
  note fr = udp_loop_xfer_frame [OF x]
  have hb: "length hb = 4" using fr assms(6) by simp
  have lrb: "length rb = length (m_rbuf d)" using got by (simp add: rb_def)
  have "0 \<le> pld \<and> m_tsiz d3 = pld \<and> getXid (le_word32 (take 4 hb)) = getXid (le_word32 (take 4 rb))"
    using x assms(2,3,6) got lrb
    by (auto simp: udp_loop_xfer_def Let_def getHdr_le rb4 split: if_splits sum.splits prod.splits
        dest: loop_xfer_reply)
  then show ?thesis
    using p d' fr hb rb4 assms(4,5) got lrb
    by (auto simp: udp_answered_def rbuf_holds_def Let_def rd_mem_def got_def [symmetric] rb_def split: if_splits)
qed

lemma udp_repeat_step:
  assumes "udp_answered dg p d" and "rbuf_holds dg d" and "getCmd (le_word32 (take 4 dg)) = CMD_S"
  shows "\<exists>x k. udp_run_step (Some dg) True d = (Inr x, d\<lparr>m_drop := k\<rparr>) \<and> (x = None \<or> x = Some p)"
proof -
  define got where "got = min (length dg) (length (m_rbuf d))"
  have got: "4 \<le> got" "take got (m_rbuf d) = take got dg"
    using assms(2) by (simp_all add: rbuf_holds_def Let_def got_def)
  have rb: "take got dg @ drop got (m_rbuf d) = m_rbuf d" using got(2) by (metis append_take_drop_id)
  have rb4: "take 4 (m_rbuf d) = take 4 dg" using got by (metis min.absorb2 take_take min.commute)
  have len: "4 \<le> length dg" "4 \<le> length (m_rbuf d)" using got(1) by (simp_all add: got_def)
  have t: "4 \<le> length (m_tbuf d)" "0 \<le> m_tsiz d" "nat (m_tsiz d + 4) \<le> length (m_tbuf d)"
    "getXid (le_word32 (take 4 (m_tbuf d))) = getXid (le_word32 (take 4 dg))" "p = take (nat (m_tsiz d + 4)) (m_tbuf d)"
    using assms(1) by (simp_all add: udp_answered_def)
  have ans: "udp_answer got True (d\<lparr>m_drop := k\<rparr>) = (Inr p, d\<lparr>m_drop := k\<rparr>)" for k
    using t len rb4 assms(3) by (simp add: udp_answer_def udp_loop_xfer_def Let_def getHdr_le rd_mem_ok)
  obtain r d' where s: "udp_run_step (Some dg) True d = (r, d')" by (cases "udp_run_step (Some dg) True d") auto
  then show ?thesis
    by (rule udp_run_step_cases [OF _ len got_def]) (auto simp: rb ans s)
qed

lemma udp_repeat_run:
  assumes "udp_answered dg p d" and "rbuf_holds dg d" and "getCmd (le_word32 (take 4 dg)) = CMD_S"
  shows "\<exists>m k. m \<le> n \<and> udp_run (replicate n (Some dg, True)) rs d = ((Blocked, rs @ replicate m p), d\<lparr>m_drop := k\<rparr>)"
  using assms(1,2)
proof (induction n arbitrary: rs d)
  case 0
  have "udp_run (replicate 0 (Some dg, True)) rs d = ((Blocked, rs @ replicate 0 p), d\<lparr>m_drop := m_drop d\<rparr>)" by simp
  then show ?case by blast
next
  case (Suc n)
  obtain x k where s: "udp_run_step (Some dg) True d = (Inr x, d\<lparr>m_drop := k\<rparr>)" "x = None \<or> x = Some p"
    using udp_repeat_step [OF Suc.prems assms(3)] by blast
  have inv: "udp_answered dg p (d\<lparr>m_drop := k\<rparr>)" "rbuf_holds dg (d\<lparr>m_drop := k\<rparr>)"
    using Suc.prems by (simp_all add: udp_answered_def rbuf_holds_def)
  obtain m k' where m: "m \<le> n" "udp_run (replicate n (Some dg, True)) (rs @ (if x = None then [] else [p])) (d\<lparr>m_drop := k\<rparr>) =
      ((Blocked, (rs @ (if x = None then [] else [p])) @ replicate m p), d\<lparr>m_drop := k'\<rparr>)"
    using Suc.IH [OF inv, of "rs @ (if x = None then [] else [p])"] by auto
  let ?m = "if x = None then m else Suc m"
  have "udp_run (replicate (Suc n) (Some dg, True)) rs d = ((Blocked, rs @ replicate ?m p), d\<lparr>m_drop := k'\<rparr>)"
    using s m(2) by (auto split: if_splits)
  moreover have "?m \<le> Suc n" using m(1) by simp
  ultimately show ?case by blast
qed

lemma loop_example_simps [simp]:
  "m_wordSize loop_example = 4" "m_host loop_example = le_platform" "m_skip loop_example" "\<not> getSniff loop_example"
  "m_bufSz loop_example = 2048" "m_f loop_example = NullPtr" "drv_wf loop_example" "m_xid loop_example = 7"
  "length (m_hdBuf loop_example) = 16"
  using fresh_drv_simps
  by (simp_all add: loop_example_def drv_wf_def getSniff_def fresh_drv_def axisToJtag_new_def
      axisToJtag.defs loopBack.defs jtagDriver.defs jtagDriver_new_def hdBufMax_def)

lemma udp_example_simps [simp]:
  "m_host udp_example = le_platform" "m_skip udp_example" "\<not> m_drEn udp_example"
  "m_rbuf udp_example = replicate 16 0" "m_tbuf udp_example = replicate 16 0" "m_tsiz udp_example = -1"
  by (simp_all add: udp_example_def loop_example_def fresh_drv_def axisToJtag_new_def
      axisToJtag.defs loopBack.defs udpLoopBack.defs jtagDriver.defs jtagDriver_new_def)

section \<open>Properties\<close>

text \<open>
  C12.  Without a playback file, on a little-endian host and with the sniffer off, the loopback driver is a bit-exact
  echo through the whole protocol stack: \<^verbatim>\<open>sendVectors\<close> packs the vectors into words, the emulated target unpacks them,
  and the TDO buffer receives exactly the TDI bytes; nothing behind them is written and the object stays well-formed.
  The message of the vectors has to fit into the transmit buffer, as the driver does not check it, and the vectors
  have at most 2^20 bits.
\<close>

theorem loopback_echoes:
  assumes "drv_wf d" and "m_wordSize d = 4" and "isLE (m_host d)" and "m_skip d" and "\<not> getSniff d"
    and "1 \<le> bits" and "bits \<le> 2 ^ 20" and "n = (bits + 7) div 8"
    and "n \<le> length tms" and "n \<le> length tdi" and "n \<le> length tdo" and "msg_size 4 n \<le> m_bufSz d"
  shows "\<exists>d'. sendVectors loopBack_xfer bits tms tdi tdo d = ((Inr (), take n tdi @ drop n tdo), d') \<and>
    drv_wf d' \<and> m_xid d' = next_xid (m_xid d)"
  unfolding loopBack_xfer_def
  using sendVectors_loop [OF assms, of emulMemDepth] assms(1) by (auto simp: drv_wf_def)

theorem loopback_echoes_witness:
  "\<exists>d'. sendVectors loopBack_xfer 42 [1, 2, 3, 4, 5, 6] [7, 8, 9, 10, 11, 12] [0, 0, 0, 0, 0, 0, 99] loop_example =
      ((Inr (), take 6 [7, 8, 9, 10, 11, 12] @ drop 6 [0, 0, 0, 0, 0, 0, 99]), d') \<and>
    drv_wf d' \<and> m_xid d' = next_xid (m_xid loop_example)"
  by (rule loopback_echoes) (simp_all add: le_platform_def msg_size_def)

text \<open>
  C13.  A query to the loopback driver on a little-endian host answers word size 4 and memory depth 0 (streaming) and
  switches retries off.  An open playback file is rewound to its first byte and read again from then on, also when its
  end had been reached; a null pointer is left alone.  The pointer must not be indeterminate, as it is when the
  constructor got no file name and the memory of the object was not zero.
\<close>

theorem loopback_query:
  assumes "drv_wf d" and "m_f d \<noteq> WildPtr" and "isLE (m_host d)"
  shows "\<exists>d'. query loopBack_xfer d = (Inr 0, d') \<and> drv_wf d' \<and> m_wordSize d' = 4 \<and> m_memDepth d' = 0 \<and>
    m_retry d' = 0 \<and> m_periodNs d' = UNKNOWN_PERIOD \<and> m_f d' = m_f d \<and>
    m_skip d' = (if m_f d = NullPtr then m_skip d else False) \<and> m_fpos d' = (if m_f d = NullPtr then m_fpos d else 0)"
proof -
  obtain d' where d': "query loopBack_xfer d = (Inr 0, d')" "m_wordSize d' = 4" "m_memDepth d' = 0"
    "m_periodNs d' = UNKNOWN_PERIOD" "m_f d' = m_f d" "m_skip d' = (if m_f d = NullPtr then m_skip d else False)"
    "m_fpos d' = (if m_f d = NullPtr then m_fpos d else 0)"
    using query_loop [OF assms, of 0] by (auto simp: loopBack_xfer_def emulMemDepth_def)
  with lb.query_wf [OF d'(1) assms(1)] show ?thesis by auto
qed

theorem loopback_query_witness:
  "\<exists>d'. query loopBack_xfer (loop_example\<lparr>m_f := Stream ''LENBITS: 5'', m_fpos := 11\<rparr>) = (Inr 0, d') \<and> drv_wf d' \<and>
    m_wordSize d' = 4 \<and> m_memDepth d' = 0 \<and> m_retry d' = 0 \<and> m_f d' = Stream ''LENBITS: 5'' \<and> \<not> m_skip d' \<and> m_fpos d' = 0"
  using loopback_query [of "loop_example\<lparr>m_f := Stream ''LENBITS: 5'', m_fpos := 11\<rparr>"] loop_example_simps(7)
  by (auto simp: le_platform_def drv_wf_def hdBufMax_def)

text \<open>
  C30.  On a big-endian host the loopback driver cannot be used: it copies the reply header in host byte
  order while the base class reads it as little-endian, and every query fails.
\<close>

theorem loopback_query_big_endian:
  assumes "drv_wf d" and "m_f d \<noteq> WildPtr" and "\<not> isLE (m_host d)"
  shows "fst (query loopBack_xfer d) = Inl (ProtoErr ''Received invalid word size'')"
proof -
  have r: "le_word32 (rev (le_bytes32 3)) = 0x03000000" by (simp add: le_word32_def le_bytes32_def)
  have m: "rev (le_bytes32 3) = mem_of_u32 (isLE (m_host d)) (push_bit 4 (word_of_nat 0 AND 0xfffff) OR 3)"
    using assms(3) by (simp add: mem_of_u32_def)
  have e: "getErr (le_word32 (rev (le_bytes32 3))) = 0" by (simp add: r getErr_def getCmd_def hdr_defs)
  obtain d2 where "query (loop_xfer 0) d = query_update 0x03000000 d2"
    using query_loop_xferRel [OF assms(1,2) m e] r by auto
  then show ?thesis
    by (simp add: loopBack_xfer_def emulMemDepth_def query_update_def Let_def wordSize_def)
qed

theorem loopback_query_big_endian_witness:
  "fst (query loopBack_xfer (loop_example\<lparr>m_host := \<lparr>isLE = False, raw_mem = \<lambda>_. 0\<rparr>\<rparr>)) =
    Inl (ProtoErr ''Received invalid word size'')"
  by (rule loopback_query_big_endian) (use loop_example_simps(7) in \<open>simp_all add: drv_wf_def hdBufMax_def\<close>)

text \<open>
  C31.  The emulated target swaps two error codes of the protocol: a request with an unknown version is
  reported to the user as an unsupported command, and an unknown command as an unsupported version.
\<close>

theorem loopback_swapped_errors:
  assumes "drv_wf d" and "isLE (m_host d)" and "4 \<le> txBytes" and "4 \<le> length txb"
    and "h = le_word32 (take 4 txb)" and "getVrs h \<noteq> PVER0 \<or> getCmd h \<notin> {CMD_Q, CMD_S}"
  shows "fst (fst (xferRel loopBack_xfer txb txBytes rxb sz d)) =
    Inl (ProtoErr (''Got error response from server -- '' @
      (if getVrs h \<noteq> PVER0 then ''Unsupported Command'' else ''Unsupported Protocol Version'')))"
proof -
  define e :: u32 where "e = (if getVrs h \<noteq> PVER0 then 2 else 1)"
  have "4 \<le> length (m_hdBuf d)" using assms(1) by (simp add: drv_wf_def hdBufMax_def)
  note x = loop_xfer_rejects [OF assms(2,3,4) this assms(5,6), folded e_def]
  have "getErr (err_header h e) = e" by (rule err_header_fields) (simp add: e_def)
  then have "fst (fst (xferRel loopBack_xfer txb txBytes rxb sz d)) = Inl (ProtoErr (err_reply_msg e))"
    using assms(2,4) x
    by (simp add: xferRel_def xferRel_loop.simps(2) getHdr_le getWordSize_def loopBack_xfer_def Let_def e_def)
  then show ?thesis by (simp add: e_def err_reply_msg_def getMsg_def hdr_defs)
qed

theorem loopback_swapped_errors_witness:
  "fst (fst (xferRel loopBack_xfer [0, 0, 0, 0x40] 4 [] 0 loop_example)) =
    Inl (ProtoErr (''Got error response from server -- '' @
      (if getVrs 0x40000000 \<noteq> PVER0 then ''Unsupported Command'' else ''Unsupported Protocol Version'')))"
  by (rule loopback_swapped_errors) (simp_all add: le_platform_def le_word32_def getVrs_def hdr_defs)

text \<open>
  C10.  The emulated UDP firmware executes a shift at most once.  After a shift request was answered, any
  number of repetitions of the same datagram, some of them dropped, produces only copies of the first
  reply and changes nothing in the firmware but the drop counter; in particular the playback file does
  not advance.
\<close>

theorem udp_exactly_once:
  assumes "udp_run_step (Some dg) True d = (Inr (Some p), d1)" and "isLE (m_host d)"
    and "getCmd (le_word32 (take 4 dg)) = CMD_S" and "4 \<le> length dg" and "4 \<le> length (m_rbuf d)" and "4 \<le> length (m_tbuf d)"
  shows "\<exists>m k. m \<le> n \<and>
    udp_run (replicate n (Some dg, True)) replies d1 = ((Blocked, replies @ replicate m p), d1\<lparr>m_drop := k\<rparr>)"
  using udp_repeat_run [OF _ _ assms(3)] udp_first_answer [OF assms] by blast

lemma udp_example_step:
  "\<exists>d1. udp_run_step (Some [7, 0, 0x10, 0x10, 1, 0, 0, 0, 0xA5, 0, 0, 0]) True udp_example =
    (Inr (Some [7, 0, 0x10, 0x10, 0xA5]), d1)"
proof -
  define rb :: "u8 list" where "rb = [7, 0, 0x10, 0x10, 1, 0, 0, 0, 0xA5, 0, 0, 0, 0, 0, 0, 0]"
  define d where "d = udp_example\<lparr>m_rbuf := rb\<rparr>"
  have d: "m_host d = le_platform" "m_skip d" "m_rbuf d = rb" "m_tbuf d = replicate 16 0"
    by (simp_all add: d_def)
  have len: "length rb = 16" by (simp add: rb_def)
  have h: "le_word32 (take 4 rb) = 0x10100007" by (simp add: rb_def le_word32_def)
  have f: "getCmd 0x10100007 = CMD_S" "getVrs 0x10100007 = PVER0" "getXid 0x10100007 = 1" "getXid 0 = 0"
    "getLen 0x10100007 = Inr 8"
    by (simp_all add: getCmd_def getVrs_def getXid_def getLen_def hdr_defs)
  have x: "loop_xfer udp_emulMemDepth rb 12 (replicate 4 0) 4 (replicate 12 0) 12 d =
      ((Inr (int 1), mem_of_u32 (isLE (m_host d)) 0x10100007 @ drop 4 (replicate 4 0),
        map (\<lambda>t. rb ! tdi_pos 4 t) [0..<1] @ drop 1 (replicate 12 0)), d)"
    by (rule loop_xfer_shift [OF d(2) _ h [symmetric] f(2,1,5)]) (simp_all add: len msg_size_def)
  have "le_bytes32 0x10100007 = take 4 rb" using le_bytes32_word32 [of "take 4 rb"] by (simp add: h len)
  then have bs: "le_bytes32 0x10100007 = [7, 0, 0x10, 0x10]" by (simp add: rb_def)
  have tdi: "rb ! tdi_pos 4 0 = 0xA5" by (simp add: rb_def tdi_pos_def)
  have x': "loop_xfer udp_emulMemDepth rb 12 (replicate 4 0) 4 (replicate 12 0) 12 d =
      ((Inr 1, [7, 0, 0x10, 0x10], 0xA5 # replicate 11 0), d)"
    unfolding x by (simp add: d le_platform_def mem_of_u32_def bs tdi)
  have z: "le_word32 (replicate 4 0) = 0" by (simp add: le_word32_def numeral_eq_Suc)
  have "udp_answer 12 True d = (Inr [7, 0, 0x10, 0x10, 0xA5],
      d\<lparr>m_tsiz := 1, m_tbuf := [7, 0, 0x10, 0x10, 0xA5] @ replicate 11 0\<rparr>)"
    by (simp add: udp_answer_def udp_loop_xfer_def d len getHdr_le h z f Let_def x' rd_mem_def)
  then show ?thesis
    by (simp add: udp_run_step_def Let_def bindS_def d_def rb_def numeral_eq_Suc)
qed

theorem udp_exactly_once_witness:
  "\<exists>d1 m k. udp_run_step (Some [7, 0, 0x10, 0x10, 1, 0, 0, 0, 0xA5, 0, 0, 0]) True udp_example =
      (Inr (Some [7, 0, 0x10, 0x10, 0xA5]), d1) \<and> m \<le> 3 \<and>
    udp_run (replicate 3 (Some [7, 0, 0x10, 0x10, 1, 0, 0, 0, 0xA5, 0, 0, 0], True)) [] d1 =
      ((Blocked, [] @ replicate m [7, 0, 0x10, 0x10, 0xA5]), d1\<lparr>m_drop := k\<rparr>)"
proof -
  obtain d1 where d1: "udp_run_step (Some [7, 0, 0x10, 0x10, 1, 0, 0, 0, 0xA5, 0, 0, 0]) True udp_example =
      (Inr (Some [7, 0, 0x10, 0x10, 0xA5]), d1)" using udp_example_step by blast
  from udp_exactly_once [OF d1, of 3 "[]"] d1 show ?thesis
    by (auto simp: le_platform_def le_word32_def getCmd_def hdr_defs)
qed

end
