(* ===== verification/Xvc_Server.thy ===== *)
theory Xvc_Server
  imports Xvc_Conn Drv_LoopBack
begin

text \<open>
  The top level of \<^verbatim>\<open>xvcSrv.cc\<close>: the class \<^verbatim>\<open>XvcServer\<close> that serves one client after the other,
  the driver registry, and the command line of \<^verbatim>\<open>main\<close>.  Messages to the terminal are not part of the
  model.
\<close>

section \<open>Exceptions\<close>

text \<open>What \<^verbatim>\<open>what()\<close> tells of an exception; \<open>err\<close> is the text of \<^verbatim>\<open>strerror(errno)\<close>.\<close>

fun err_what :: "string \<Rightarrow> xerr \<Rightarrow> string" where
  "err_what err (SysErr prefix) = prefix @ '': '' @ err"
| "err_what err (ProtoErr msg) = ''Protocol error: '' @ msg"
| "err_what err (TimeoutErr detail) = ''Timeout error; too many retries failed'' @ detail"
| "err_what err (RuntimeErr msg) = msg"
| "err_what err (Fault msg) = []"
| "err_what err Blocked = []"

section \<open>XvcServer\<close>

record xvcServer =
  s_sock :: int
  s_debug :: u32
  s_maxMsgSize :: u32
  s_once :: bool

definition xvcServer_new :: "sock_env \<Rightarrow> 16 word \<Rightarrow> u32 \<Rightarrow> u32 \<Rightarrow> bool \<Rightarrow> xvcServer res" where
  "xvcServer_new env port debug maxMsgSize once =
     bindR (sockSd_new env) (\<lambda>sd.
     bindR (bind_local env port) (\<lambda>_.
       if sys_listen env \<noteq> 0 then Inl (SysErr ''Unable to listen on socket'')
       else Inr \<lparr>s_sock = sd, s_debug = debug, s_maxMsgSize = maxMsgSize, s_once = once\<rparr>))"

text \<open>
  The clients of the server, one after the other: the result of \<^verbatim>\<open>accept\<close> and what the network does
  during the connection.
\<close>

record client =
  cl_accept :: int
  cl_events :: "net_event list"
  cl_writes :: "nat \<Rightarrow> int"
  cl_nodelay :: int

text \<open>
  \<^verbatim>\<open>XvcServer::run\<close>.  The result is the exception that leaves the function, if any, the bytes sent to
  each client and the driver; \<open>None\<close> when a connection never returns.  A \<^verbatim>\<open>SysErr\<close> of a connection is
  caught and the next client is served; every other exception, and one of the constructor of the
  connection, leaves the function.
\<close>

primrec server_run :: "'d jtag_ops \<Rightarrow> xvcServer \<Rightarrow> client list \<Rightarrow> 'd \<Rightarrow> ((xerr option \<times> u8 list list) \<times> 'd) option" where
  "server_run ops s [] d = Some ((Some Blocked, []), d)"
| "server_run ops s (cl # cls) d =
     (case xvcConn_new (cl_accept cl) (cl_events cl) (cl_writes cl) (cl_nodelay cl) d (unat (s_maxMsgSize s)) of
        Inl e \<Rightarrow> Some ((Some e, []), d)
      | Inr c \<Rightarrow>
          Option.bind (conn_run ops c) (\<lambda>(e, c').
            case e of
              SysErr _ \<Rightarrow>
                if s_once s then Some ((None, [c_out c']), c_drv c')
                else map_option (\<lambda>((r, outs), d'). ((r, c_out c' # outs), d')) (server_run ops s cls (c_drv c'))
            | _ \<Rightarrow> Some ((Some e, [c_out c']), c_drv c')))"

section \<open>DriverRegistry\<close>

text \<open>
  An entry holds a factory, a function that prints help, and whether a target has to be given.  A
  factory gets the arguments of the program and the target.  A null pointer is \<open>None\<close>.
\<close>

record 'd regEntry =
  re_name :: string
  re_creator :: "(string list \<Rightarrow> string option \<Rightarrow> 'd res) option"
  re_helper :: "string option"
  re_needTargetArg :: bool

definition registerFactory :: "string \<Rightarrow> (string list \<Rightarrow> string option \<Rightarrow> 'd res) option \<Rightarrow> string option \<Rightarrow> bool \<Rightarrow>
    'd regEntry list \<Rightarrow> 'd regEntry list" where
  "registerFactory name f h needTargetArg entries =
     entries @ [\<lparr>re_name = name, re_creator = f, re_helper = h, re_needTargetArg = needTargetArg\<rparr>]"

text \<open>The loop of \<^verbatim>\<open>find\<close> runs down from the last entry; \<open>i\<close> is the index plus one.\<close>

primrec find_down :: "string \<Rightarrow> 'd regEntry list \<Rightarrow> nat \<Rightarrow> nat" where
  "find_down drvnam entries 0 = 0"
| "find_down drvnam entries (Suc i) =
     (if re_name (entries ! i) = drvnam then Suc i else find_down drvnam entries i)"

definition reg_find :: "string option \<Rightarrow> 'd regEntry list \<Rightarrow> 'd regEntry option" where
  "reg_find drvnam entries =
     (let i0 = length entries;
          i = (case drvnam of Some (c # cs) \<Rightarrow> find_down (c # cs) entries i0 | _ \<Rightarrow> i0)
      in if 0 < i then Some (entries ! (i - 1)) else None)"

definition reg_has :: "string option \<Rightarrow> 'd regEntry list \<Rightarrow> bool" where
  "reg_has drvnam entries = (case reg_find drvnam entries of None \<Rightarrow> False | Some _ \<Rightarrow> True)"

definition printRegisteredDrivers :: "(string \<Rightarrow> string) \<Rightarrow> 'd regEntry list \<Rightarrow> string" where
  "printRegisteredDrivers fmt entries = concat (map (\<lambda>e. fmt (re_name e)) entries)"

definition reg_usage :: "string option \<Rightarrow> 'd regEntry list \<Rightarrow> string" where
  "reg_usage drvnam entries =
     (case reg_find drvnam entries of
        None \<Rightarrow> []
      | Some e \<Rightarrow> (case re_helper e of None \<Rightarrow> [] | Some h \<Rightarrow> h))"

definition reg_create :: "string option \<Rightarrow> string list \<Rightarrow> string option \<Rightarrow> 'd regEntry list \<Rightarrow> 'd res" where
  "reg_create name argv arg entries =
     (case reg_find name entries of
        None \<Rightarrow> Inl (RuntimeErr ''Internal Error: No driver module registered'')
      | Some e \<Rightarrow>
          (case re_creator e of
             None \<Rightarrow> Inl (RuntimeErr ''Internal Error: No driver module registered'')
           | Some create \<Rightarrow>
               if re_needTargetArg e \<and> (arg = None \<or> arg = Some []) then Inl (RuntimeErr ''Missing <target>'')
               else create argv arg))"

text \<open>
  The singleton: the registry is a static pointer, created on the first call of either accessor.
\<close>

definition getP :: "bool \<Rightarrow> 'd regEntry list option \<Rightarrow> 'd regEntry list option" where
  "getP creat theR = (case theR of None \<Rightarrow> if creat then Some [] else None | Some r \<Rightarrow> Some r)"

definition reg_get :: "'d regEntry list option \<Rightarrow> 'd regEntry list option" where
  "reg_get = getP True"

definition reg_init :: "'d regEntry list option \<Rightarrow> 'd regEntry list option" where
  "reg_init = getP True"

section \<open>main\<close>

text \<open>
  The options; \<^verbatim>\<open>getopt\<close> delivers them one by one with their arguments, \<open>?\<close> for one it does not
  know.  The result is an exit code or the values of the variables.
\<close>

record options =
  o_debug :: u32
  o_target :: "string option"
  o_drvnam :: string
  o_port :: u32
  o_maxMsg :: u32
  o_setTest :: bool
  o_testMode :: u32
  o_once :: bool
  o_help :: bool

definition options_new :: options where
  "options_new = \<lparr>o_debug = 0, o_target = None, o_drvnam = ''udp'', o_port = 2542, o_maxMsg = 32768, o_setTest = False,
     o_testMode = 0, o_once = False, o_help = False\<rparr>"

definition scan_opt :: "string \<Rightarrow> (u32 \<Rightarrow> options) \<Rightarrow> int + options" where
  "scan_opt arg upd = (case scan_i arg of None \<Rightarrow> Inl 1 | Some v \<Rightarrow> Inr (upd v))"

definition main_opt :: "char \<Rightarrow> string \<Rightarrow> options \<Rightarrow> int + options" where
  "main_opt opt optarg o1 =
     (if opt = CHR ''h'' then Inr (o1\<lparr>o_help := True\<rparr>)
      else if opt = CHR ''v'' then Inr (o1\<lparr>o_debug := o_debug o1 + 1\<rparr>)
      else if opt = CHR ''V'' then Inl 0
      else if opt = CHR ''t'' then Inr (o1\<lparr>o_target := Some optarg\<rparr>)
      else if opt = CHR ''s'' then Inr (o1\<lparr>o_debug := o_debug o1 OR 0x100\<rparr>)
      else if opt = CHR ''D'' then Inr (o1\<lparr>o_drvnam := optarg\<rparr>)
      else if opt = CHR ''M'' then scan_opt optarg (\<lambda>v. o1\<lparr>o_maxMsg := v\<rparr>)
      else if opt = CHR ''p'' then scan_opt optarg (\<lambda>v. o1\<lparr>o_port := v\<rparr>)
      else if opt = CHR ''T'' then scan_opt optarg (\<lambda>v. o1\<lparr>o_testMode := v, o_setTest := True\<rparr>)
      else if opt = CHR ''o'' then Inr (o1\<lparr>o_once := True\<rparr>)
      else Inl 1)"

primrec main_options :: "(char \<times> string) list \<Rightarrow> options \<Rightarrow> int + options" where
  "main_options [] o1 = Inr o1"
| "main_options (x # xs) o1 =
     (case main_opt (fst x) (snd x) o1 of Inl code \<Rightarrow> Inl code | Inr o2 \<Rightarrow> main_options xs o2)"

text \<open>
  How \<^verbatim>\<open>main\<close> ends: with an exit code, or by an exception nobody catches, which aborts the program.
  The handler around the choice of the driver catches what derives from \<^verbatim>\<open>std::runtime_error\<close>: all
  exceptions of the program.
\<close>

datatype main_end = Exit int | Uncaught xerr

fun catch_runtime :: "xerr \<Rightarrow> main_end" where
  "catch_runtime (Fault msg) = Uncaught (Fault msg)"
| "catch_runtime Blocked = Uncaught Blocked"
| "catch_runtime _ = Exit 1"

text \<open>
  The methods of a driver that \<^verbatim>\<open>main\<close> calls beside those of the server, and the environment:
  the constructor of the UDP driver for a target, the one of the emulated firmware for a file and a
  port, the entries a module registers when it can be loaded, and the result of
  \<^verbatim>\<open>pthread_create\<close>.  The thread it starts is \<open>udpTestThread\<close>; it shares nothing with the rest of the
  program but the network.
\<close>

record 'd drv_ops = "'d jtag_ops" +
  op_setDebug :: "u32 \<Rightarrow> 'd \<Rightarrow> 'd"
  op_getDebug :: "'d \<Rightarrow> u32"
  op_setTestMode :: "u32 \<Rightarrow> 'd \<Rightarrow> 'd"
  op_init :: "'d \<Rightarrow> unit res \<times> 'd"
  op_dumpInfo :: "'d \<Rightarrow> string"

record 'd main_env =
  me_new_udp :: "string list \<Rightarrow> string \<Rightarrow> 'd res"
  me_new_loop :: "string option \<Rightarrow> u32 \<Rightarrow> udpLoopBack res"
  me_dlopen :: "string \<Rightarrow> 'd regEntry list option"
  me_pthread_create :: int

text \<open>The choice of the driver; the second component of the result is the emulated firmware.\<close>

definition main_find :: "'d main_env \<Rightarrow> string \<Rightarrow> 'd regEntry list \<Rightarrow> (string option \<times> 'd regEntry list) res" where
  "main_find env drvnam entries =
     (if reg_has (Some drvnam) entries then Inr (Some drvnam, entries)
      else (case me_dlopen env drvnam of
              None \<Rightarrow> Inl (RuntimeErr ''Unable to load requested driver: '')
            | Some new \<Rightarrow> Inr (None, entries @ new)))"

definition main_driver :: "'d main_env \<Rightarrow> string list \<Rightarrow> options \<Rightarrow> 'd regEntry list \<Rightarrow>
    main_end + 'd \<times> udpLoopBack option" where
  "main_driver env argv opts entries =
     (if o_drvnam opts = ''udpLoopback'' then
        if o_help opts then Inl (Exit 0)
        else (case bindR (me_new_udp env argv ''localhost:2543'') (\<lambda>d.
                     bindR (me_new_loop env (o_target opts) 2543) (\<lambda>l. Inr (d, Some l))) of
            Inl e \<Rightarrow> Inl (catch_runtime e)
          | Inr dl \<Rightarrow> Inr dl)
      else
        (case main_find env (o_drvnam opts) entries of
           Inl e \<Rightarrow> Inl (catch_runtime e)
         | Inr (drvnam, entries') \<Rightarrow>
             if o_help opts then Inl (Exit 0)
             else (case reg_create drvnam argv (o_target opts) entries' of
                     Inl e \<Rightarrow> Inl (catch_runtime e)
                   | Inr d \<Rightarrow> Inr (d, None))))"

text \<open>Starting the emulated firmware and the driver.\<close>

definition main_loop :: "'d main_env \<Rightarrow> u32 \<Rightarrow> udpLoopBack option \<Rightarrow> udpLoopBack option res" where
  "main_loop env debug loop =
     (case loop of
        None \<Rightarrow> Inr None
      | Some l \<Rightarrow>
          (case init_drv udp_loop_xfer (setDebug debug l) of
             (Inl e, _) \<Rightarrow> Inl e
           | (Inr _, l') \<Rightarrow>
               if me_pthread_create env \<noteq> 0 then Inl (SysErr ''Unable to launch UDP loopback test thread'')
               else Inr (Some l')))"

definition main_init :: "('d, 'z) drv_ops_scheme \<Rightarrow> options \<Rightarrow> 'd \<Rightarrow> (string \<times> 'd) res" where
  "main_init ops opts d0 =
     (case op_init ops (op_setDebug ops (o_debug opts) d0) of
        (Inl e, _) \<Rightarrow> Inl e
      | (Inr _, d1) \<Rightarrow>
          let d2 = (if o_setTest opts then op_setTestMode ops (o_testMode opts) d1 else d1)
          in Inr (if op_getDebug ops d2 > 0 then op_dumpInfo ops d2 else [], d2))"

text \<open>
  \<^verbatim>\<open>main\<close>.  The result is how the program ends, with \<open>Blocked\<close> for a server that waits for the next
  client or for input, and the bytes sent to the clients; \<open>None\<close> when a connection never returns.
\<close>

definition main_serve :: "'d drv_ops \<Rightarrow> sock_env \<Rightarrow> options \<Rightarrow> client list \<Rightarrow> 'd \<Rightarrow> (main_end \<times> u8 list list) option" where
  "main_serve ops senv opts clients d =
     (case xvcServer_new senv (ucast (o_port opts)) (o_debug opts) (o_maxMsg opts) (o_once opts) of
        Inl e \<Rightarrow> Some (Uncaught e, [])
      | Inr s \<Rightarrow>
          map_option (\<lambda>((r, outs), _). (case r of None \<Rightarrow> Exit 0 | Some e \<Rightarrow> Uncaught e, outs))
            (server_run (jtag_ops.truncate ops) s clients d))"

definition xvcSrv_main :: "'d drv_ops \<Rightarrow> 'd main_env \<Rightarrow> sock_env \<Rightarrow> string list \<Rightarrow> (char \<times> string) list \<Rightarrow>
    'd regEntry list \<Rightarrow> client list \<Rightarrow> (main_end \<times> u8 list list) option" where
  "xvcSrv_main ops env senv argv args entries clients =
     (case main_options args options_new of
        Inl code \<Rightarrow> Some (Exit code, [])
      | Inr opts \<Rightarrow>
          (case main_driver env argv opts entries of
             Inl e \<Rightarrow> Some (e, [])
           | Inr (d, loop) \<Rightarrow>
               (case bindR (main_loop env (o_debug opts) loop) (\<lambda>_. main_init ops opts d) of
                  Inl e \<Rightarrow> Some (Uncaught e, [])
                | Inr (info, d') \<Rightarrow> main_serve ops senv opts clients d')))"

section \<open>Specification\<close>

text \<open>
  A well-behaved client: it sends the messages \<open>ms\<close>, takes the replies and closes the connection.
  \<open>sessions\<close> relates the messages of one client after the other to the bytes sent to each of them.
\<close>

definition polite :: "nat \<Rightarrow> client \<Rightarrow> xvc_msg list \<Rightarrow> bool" where
  "polite mx cl ms \<longleftrightarrow>
     0 \<le> cl_accept cl \<and> cl_nodelay cl = 0 \<and> (\<forall>i. 0 < cl_writes cl i) \<and> clean (cl_events cl) \<and> eof (cl_events cl) \<and>
     ev_bytes (cl_events cl) = concat (map encode_msg ms) \<and> list_all (msg_ok mx) ms"

inductive sessions :: "(bool \<times> bool \<Rightarrow> 's \<Rightarrow> bool \<times> 's) \<Rightarrow> (u32 \<Rightarrow> u32) \<Rightarrow> nat \<Rightarrow> xvc_msg list list \<Rightarrow> 's \<Rightarrow> u8 list list \<Rightarrow> 's \<Rightarrow> bool"
  for step period maxVecLen where
  sessions_nil: "sessions step period maxVecLen [] s [] s"
| sessions_cons: "session step period maxVecLen ms s out s1 \<Longrightarrow> sessions step period maxVecLen mss s1 outs s2 \<Longrightarrow>
    sessions step period maxVecLen (ms # mss) s (out # outs) s2"

text \<open>A client that opens with something that is not the start of a message.\<close>

definition rude :: "client \<Rightarrow> bool" where
  "rude cl \<longleftrightarrow>
     0 \<le> cl_accept cl \<and> cl_nodelay cl = 0 \<and> clean (cl_events cl) \<and> 2 \<le> length (ev_bytes (cl_events cl)) \<and>
     take 2 (ev_bytes (cl_events cl)) \<notin> set [ascii ''ge'', ascii ''se'', ascii ''sh'']"

text \<open>A driver without a device and an environment in which every call succeeds, for concrete runs.\<close>

definition null_drv_ops :: "unit drv_ops" where
  "null_drv_ops = jtag_ops.extend null_ops (drv_ops.fields (\<lambda>_ d. d) (\<lambda>_. 0) (\<lambda>_ d. d) (\<lambda>d. (Inr (), d)) (\<lambda>_. []))"

definition null_registry :: "unit regEntry list" where
  "null_registry = [\<lparr>re_name = ''udp'', re_creator = Some (\<lambda>_ _. Inr ()), re_helper = None, re_needTargetArg = True\<rparr>]"

definition null_env :: "unit main_env" where
  "null_env = \<lparr>me_new_udp = \<lambda>_ _. Inr (), me_new_loop = udpLoopBack_new le_platform 0 NullPtr (\<lambda>_. None)
       \<lparr>sys_socket = 3, sys_setsockopt = 0, sys_bind = \<lambda>_. 0, sys_listen = 0\<rparr>,
     me_dlopen = \<lambda>_. Some null_registry, me_pthread_create = 0\<rparr>"

definition null_senv :: sock_env where
  "null_senv = \<lparr>sys_socket = 4, sys_setsockopt = 0, sys_bind = \<lambda>port. if port < 1024 then -1 else 0, sys_listen = 0\<rparr>"

section \<open>Lemmas\<close>

lemma xvcConn_new_simps:
  assumes "0 \<le> accepted"
  obtains c where "xvcConn_new accepted evs wr nodelay d mx = Inr c" "c_drv c = d" "c_maxVecLen c = mx" "c_rxb c = []"
    "c_txb c = []" "c_in c = evs" "c_wr c = wr" "c_nodelay c = nodelay" "c_out c = []"
  using that assms by (simp add: xvcConn_new_def)

subsection \<open>A server over a device\<close>

context serial_driver
begin

lemma server_client:
  assumes "valid d" and "\<And>d. valid d \<Longrightarrow> chunks_fit ops sl (unat (s_maxMsgSize s)) d" and "polite mc cl ms"
    and "mc \<le> unat (s_maxMsgSize s)" and "min mc sl \<le> vlim"
  shows "\<exists>out d'. valid d' \<and> session step period (unat (s_maxMsgSize s)) ms (dev d) out (dev d') \<and>
    server_run ops s (cl # cls) d =
      (if s_once s then Some ((None, [out]), d')
       else map_option (\<lambda>((r, outs), d'). ((r, out # outs), d')) (server_run ops s cls d'))"
proof -
  let ?mx = "unat (s_maxMsgSize s)"
  have p: "0 \<le> cl_accept cl" "cl_nodelay cl = 0" "\<forall>i. 0 < cl_writes cl i" "clean (cl_events cl)" "eof (cl_events cl)"
    "ev_bytes (cl_events cl) = concat (map encode_msg ms)" "list_all (msg_ok mc) ms"
    using assms(3) by (simp_all add: polite_def)
  obtain c where c: "xvcConn_new (cl_accept cl) (cl_events cl) (cl_writes cl) (cl_nodelay cl) d ?mx = Inr c"
    "c_drv c = d" "c_maxVecLen c = ?mx" "c_rxb c = []" "c_txb c = []" "c_in c = cl_events cl" "c_wr c = cl_writes cl"
    "c_nodelay c = cl_nodelay cl" "c_out c = []"
    by (rule xvcConn_new_simps [OF p(1)])
  have "?mx < 2 ^ 32" using unsigned_less [of "s_maxMsgSize s"] by simp
  then obtain out c' where r: "conn_run ops c = Some (SysErr ''Unable to read from socket'', c')" "c_out c' = out"
    "valid (c_drv c')" "session step period ?mx ms (dev d) out (dev (c_drv c'))"
    using conn_run_dev [of c sl ms mc] assms(1,2,4,5) c p by auto
  then show ?thesis using c(1) by (intro exI [of _ out] exI [of _ "c_drv c'"]) simp
qed

lemma server_run_dev:
  assumes "valid d" and "\<And>d. valid d \<Longrightarrow> chunks_fit ops sl (unat (s_maxMsgSize s)) d" and "\<not> s_once s"
    and "list_all2 (polite mc) cls mss" and "mc \<le> unat (s_maxMsgSize s)" and "min mc sl \<le> vlim"
  shows "\<exists>outs d'. server_run ops s cls d = Some ((Some Blocked, outs), d') \<and> valid d' \<and>
    sessions step period (unat (s_maxMsgSize s)) mss (dev d) outs (dev d')"
  using assms(4,1)
proof (induction cls mss arbitrary: d rule: list_all2_induct)
  case Nil
  then show ?case using sessions_nil [of step period "unat (s_maxMsgSize s)" "dev d"] by auto
next
  case (Cons cl cls ms mss)
  from server_client [OF Cons.prems assms(2) Cons.hyps(1) assms(5,6), of cls] assms(3) obtain out d1 where
    one: "valid d1" "session step period (unat (s_maxMsgSize s)) ms (dev d) out (dev d1)"
    "server_run ops s (cl # cls) d = map_option (\<lambda>((r, outs), d'). ((r, out # outs), d')) (server_run ops s cls d1)"
    by auto
  from Cons.IH [OF one(1)] obtain outs d2 where
    rest: "server_run ops s cls d1 = Some ((Some Blocked, outs), d2)" "valid d2"
    "sessions step period (unat (s_maxMsgSize s)) mss (dev d1) outs (dev d2)" by auto
  show ?case using one(3) rest sessions_cons [OF one(2) rest(3)]
    by (intro exI [of _ "out # outs"] exI [of _ d2]) simp
qed

lemma msg_loop_first_error:
  assumes "conn_msg ops c = Some (Inl e, c')"
  shows "msg_loop ops c = Some (Inl e, c')"
  using assms by (simp add: msg_loop.simps [of ops c])

lemma conn_run_rude:
  assumes "valid (c_drv c)" and "c_maxVecLen c < 2 ^ 32" and "c_rxb c = []" and "c_txb c = []" and "chunks_fit ops sl (c_maxVecLen c) (c_drv c)"
    and "c_nodelay c = 0" and "clean (c_in c)" and "2 \<le> length (ev_bytes (c_in c))"
    and "take 2 (ev_bytes (c_in c)) \<notin> set [ascii ''ge'', ascii ''se'', ascii ''sh'']"
  shows "\<exists>c'. conn_run ops c = Some (ProtoErr ''unsupported message received'', c') \<and> c_out c' = c_out c \<and>
    dev (c_drv c') = dev (c_drv c)"
proof -
  obtain n d where q: "op_query ops (c_drv c) = (Inr n, d)" "dev d = dev (c_drv c)" using query_dev [OF assms(1)] by blast
  obtain r0 c0 where a: "allocBufs ops c = (r0, c0)" by (cases "allocBufs ops c")
  have c0: "r0 = Inr ()" "conn_good valid sl c0" "c_rl c0 = 0" "c_rp c0 = 0" "c_drv c0 = d" "c_in c0 = c_in c"
    "c_out c0 = c_out c" "c_nodelay c0 = 0"
    using allocBufs_good [OF assms(1-4) q(1) assms(5) a] assms(6) by auto
  have b0: "conn_bufs c0" "c_rp c0 + c_chunk c0 \<le> length (c_rxb c0)" "0 < c_chunk c0"
    using c0(2,4) by (simp_all add: conn_good_def conn_bufs_def)
  obtain r1 c1 where rd: "conn_read (c_rp c0) (c_chunk c0) c0 = (r1, c1)" by (cases "conn_read (c_rp c0) (c_chunk c0) c0")
  have "ev_bytes (c_in c) \<noteq> []" using assms(8) by auto
  with conn_read_spec [OF rd b0(2)] c0(6) b0(3) assms(7) obtain rxb evs rej g where
    c1: "c1 = c0\<lparr>c_rxb := rxb, c_in := evs, c_rejected := rej\<rparr>" "length rxb = length (c_rxb c0)" and g: "r1 = Inr g" "0 < g"
    "g \<le> int (c_chunk c0)" "take (nat g) (drop (c_rp c0) rxb) @ ev_bytes evs = ev_bytes (c_in c)" "clean_kept (c_in c) evs"
    by auto
  define c2 where "c2 = c1\<lparr>c_rl := nat g\<rparr>"
  have c2: "conn_bufs c2" "conn_at c2" "avail c2 = ev_bytes (c_in c)" "clean (c_in c2)" "c_out c2 = c_out c" "c_drv c2 = d"
    using b0(1) c0(4,5,7) c1 g clean_keptD(1) [OF g(5) assms(7)]
    by (auto simp: c2_def conn_bufs_def conn_at_def avail_def)
  have "conn_run ops c = conn_loop ops c0" using a c0(1,8) by (simp add: conn_run_def)
  moreover have "conn_loop ops c0 = Some (e, c')" if "conn_msg ops c2 = Some (Inl e, c')" for e c'
    using rd g(1,2) msg_loop_first_error [OF that] by (simp add: conn_loop.simps [of ops c0] c2_def)
  moreover have "\<exists>c'. conn_msg ops c2 = Some (Inl (ProtoErr ''unsupported message received''), c') \<and> c_out c' = c_out c \<and> c_drv c' = d"
    using c2(1,2)
  proof (cases rule: conn_msg_cases [where ops = ops])
    case (failed e c')
    then show ?thesis using c2(3,4) assms(8) by simp
  next
    case (tagged c3)
    then show ?thesis using c2 assms(9) by (simp add: conn_fix_def)
  qed
  ultimately show ?thesis using q(2) by auto
qed

lemma server_rude:
  assumes "valid d" and "\<And>d. valid d \<Longrightarrow> chunks_fit ops sl (unat (s_maxMsgSize s)) d" and "rude cl"
  shows "\<exists>d'. dev d' = dev d \<and>
    server_run ops s (cl # cls) d = Some ((Some (ProtoErr ''unsupported message received''), [[]]), d')"
proof -
  let ?mx = "unat (s_maxMsgSize s)"
  have p: "0 \<le> cl_accept cl" "cl_nodelay cl = 0" "clean (cl_events cl)" "2 \<le> length (ev_bytes (cl_events cl))"
    "take 2 (ev_bytes (cl_events cl)) \<notin> set [ascii ''ge'', ascii ''se'', ascii ''sh'']"
    using assms(3) by (simp_all add: rude_def)
  obtain c where c: "xvcConn_new (cl_accept cl) (cl_events cl) (cl_writes cl) (cl_nodelay cl) d ?mx = Inr c"
    "c_drv c = d" "c_maxVecLen c = ?mx" "c_rxb c = []" "c_txb c = []" "c_in c = cl_events cl" "c_wr c = cl_writes cl"
    "c_nodelay c = cl_nodelay cl" "c_out c = []"
    by (rule xvcConn_new_simps [OF p(1)])
  have "?mx < 2 ^ 32" using unsigned_less [of "s_maxMsgSize s"] by simp
  then obtain c' where r: "conn_run ops c = Some (ProtoErr ''unsupported message received'', c')" "c_out c' = []"
    "dev (c_drv c') = dev d"
    using conn_run_rude [of c] assms(1,2) c p by auto
  then show ?thesis using c(1) by (intro exI [of _ "c_drv c'"]) simp
qed

lemma server_run_rude:
  assumes "valid d" and "\<And>d. valid d \<Longrightarrow> chunks_fit ops sl (unat (s_maxMsgSize s)) d" and "\<not> s_once s"
    and "list_all2 (polite mc) cls mss" and "mc \<le> unat (s_maxMsgSize s)" and "min mc sl \<le> vlim" and "rude cl"
  shows "\<exists>outs d'. server_run ops s (cls @ cl # later) d =
      Some ((Some (ProtoErr ''unsupported message received''), outs @ [[]]), d') \<and>
    sessions step period (unat (s_maxMsgSize s)) mss (dev d) outs (dev d')"
  using assms(4,1)
proof (induction cls mss arbitrary: d rule: list_all2_induct)
  case Nil
  from server_rude [OF Nil assms(2,7), of later] sessions_nil [of step period "unat (s_maxMsgSize s)" "dev d"]
  show ?case by (auto intro: exI [of _ "[]"])
next
  case (Cons cl1 cls ms mss)
  from server_client [OF Cons.prems assms(2) Cons.hyps(1) assms(5,6), of "cls @ cl # later"] assms(3) obtain out d1 where
    one: "valid d1" "session step period (unat (s_maxMsgSize s)) ms (dev d) out (dev d1)"
    "server_run ops s (cl1 # cls @ cl # later) d =
       map_option (\<lambda>((r, outs), d'). ((r, out # outs), d')) (server_run ops s (cls @ cl # later) d1)"
    by auto
  from Cons.IH [OF one(1)] obtain outs d2 where
    rest: "server_run ops s (cls @ cl # later) d1 = Some ((Some (ProtoErr ''unsupported message received''), outs @ [[]]), d2)"
    "sessions step period (unat (s_maxMsgSize s)) mss (dev d1) outs (dev d2)" by auto
  show ?case using one(3) rest sessions_cons [OF one(2) rest(2)]
    by (intro exI [of _ "out # outs"] exI [of _ d2]) simp
qed

end

subsection \<open>Registry\<close>

lemma find_down_rev:
  "n \<le> length entries \<Longrightarrow>
   find (\<lambda>e. re_name e = nm) (rev (take n entries)) =
     (if 0 < find_down nm entries n then Some (entries ! (find_down nm entries n - 1)) else None)"
  by (induction n) (simp_all add: take_Suc_conv_app_nth)

lemma reg_find_rev:
  "reg_find nm entries =
     (case nm of
        Some (c # cs) \<Rightarrow> find (\<lambda>e. re_name e = c # cs) (rev entries)
      | _ \<Rightarrow> if entries = [] then None else Some (last entries))"
  using find_down_rev [of "length entries" entries]
  by (auto simp: reg_find_def last_conv_nth Let_def split: option.splits list.splits)

subsection \<open>Options\<close>

lemma main_port_only:
  "main_driver env argv (opts\<lparr>o_port := p\<rparr>) entries = main_driver env argv opts entries"
  "main_init ops (opts\<lparr>o_port := p\<rparr>) d = main_init ops opts d"
  "o_debug (opts\<lparr>o_port := p\<rparr>) = o_debug opts"
  by (simp_all add: main_driver_def main_init_def split: sum.splits prod.splits)

lemma main_options_append:
  "main_options (xs @ ys) o1 = (case main_options xs o1 of Inl code \<Rightarrow> Inl code | Inr o2 \<Rightarrow> main_options ys o2)"
  by (induction xs arbitrary: o1) (auto split: sum.splits)

lemma ucast_cut: "(ucast (word_of_nat n :: u32) :: 16 word) = word_of_nat (n mod 2 ^ 16)"
  by (rule bit_word_eqI) (simp only: take_bit_eq_mod [symmetric], simp add: bit_simps)

section \<open>Properties\<close>

text \<open>
  C33.  The registry keeps every driver that registers; looking up a name gives the driver registered last
  under it, and a null or empty name the driver registered last of all.
\<close>

theorem registry_latest:
  "reg_find nm (registerFactory name f h needTarget entries) =
     (if nm \<in> set [None, Some [], Some name]
      then Some \<lparr>re_name = name, re_creator = f, re_helper = h, re_needTargetArg = needTarget\<rparr>
      else reg_find nm entries)"
  by (auto simp: reg_find_rev registerFactory_def split: option.splits list.splits)

text \<open>
  C34.  Without a target the server with a driver that needs one stops with exit code 1: neither the
  driver nor a socket is created.
\<close>

theorem main_needs_target:
  assumes "main_options args options_new = Inr opts" and "\<not> o_help opts" and "o_drvnam opts \<noteq> ''udpLoopback''"
    and "reg_find (Some (o_drvnam opts)) entries = Some e" and "re_needTargetArg e" and "o_target opts \<in> set [None, Some []]"
  shows "xvcSrv_main ops env senv argv args entries clients = Some (Exit 1, [])"
proof -
  have "main_find env (o_drvnam opts) entries = Inr (Some (o_drvnam opts), entries)"
    using assms(4) by (simp add: main_find_def reg_has_def)
  moreover have "reg_create (Some (o_drvnam opts)) argv (o_target opts) entries \<in>
      Inl ` {RuntimeErr ''Internal Error: No driver module registered'', RuntimeErr ''Missing <target>''}"
    using assms(4-6) by (auto simp: reg_create_def split: option.splits)
  ultimately have "main_driver env argv opts entries = Inl (Exit 1)"
    using assms(2,3) by (auto simp: main_driver_def)
  then show ?thesis using assms(1) by (simp add: xvcSrv_main_def)
qed

theorem main_needs_target_witness:
  "xvcSrv_main null_drv_ops null_env null_senv [''xvcSrv'', ''-v''] [(CHR ''v'', [])] null_registry [] = Some (Exit 1, [])"
  by (rule main_needs_target [where opts = "options_new\<lparr>o_debug := 1\<rparr>" and e = "null_registry ! 0"])
    (simp_all add: main_opt_def options_new_def reg_find_def null_registry_def)

text \<open>
  C35.  The TCP port given with \<^verbatim>\<open>-p\<close> is cut to sixteen bits without a check.  After any other options that are accepted,
  once the driver was created and initialised and the socket opened, \<open>-p n\<close> with \<open>n < 2^31\<close> makes the program bind port
  \<open>n mod 2^16\<close>: it serves its clients when that port can be bound and ends with the exception of \<^verbatim>\<open>bind\<close> when it cannot.
\<close>

theorem main_port_cut:
  assumes "n < 2 ^ 31" and "main_options args options_new = Inr opts" and "main_driver env argv opts entries = Inr (d, None)"
    and "main_init ops opts d = Inr (info, d')" and "0 \<le> sys_socket senv" and "sys_setsockopt senv = 0" and "sys_listen senv = 0"
  shows "xvcSrv_main ops env senv argv (args @ [(CHR ''p'', dec_string n)]) entries clients =
    (if sys_bind senv (word_of_nat (n mod 2 ^ 16)) = 0
     then map_option (\<lambda>((r, outs), _). (case r of None \<Rightarrow> Exit 0 | Some e \<Rightarrow> Uncaught e, outs))
       (server_run (jtag_ops.truncate ops)
         \<lparr>s_sock = sys_socket senv, s_debug = o_debug opts, s_maxMsgSize = o_maxMsg opts, s_once = o_once opts\<rparr> clients d')
     else Some (Uncaught (SysErr ''Unable to bind Stream socket to local address''), []))"
proof -
  have o: "main_options (args @ [(CHR ''p'', dec_string n)]) options_new = Inr (opts\<lparr>o_port := word_of_nat n\<rparr>)"
    using assms(2) scan_i_dec [OF assms(1)] by (simp add: main_options_append main_opt_def scan_opt_def)
  have "xvcSrv_main ops env senv argv (args @ [(CHR ''p'', dec_string n)]) entries clients =
      main_serve ops senv (opts\<lparr>o_port := word_of_nat n\<rparr>) clients d'"
    using assms(3,4) by (simp add: xvcSrv_main_def o main_port_only main_loop_def)
  then show ?thesis using assms(5-7)
    by (simp add: main_serve_def xvcServer_new_def sockSd_new_def bind_local_def ucast_cut)
qed

theorem main_port_cut_witness:
  "xvcSrv_main null_drv_ops null_env null_senv [] ([(CHR ''t'', ''host'')] @ [(CHR ''p'', dec_string 66000)]) null_registry [] =
     Some (Uncaught (SysErr ''Unable to bind Stream socket to local address''), [])"
proof -
  have "sys_bind null_senv (word_of_nat (66000 mod 2 ^ 16)) \<noteq> 0" by (simp add: null_senv_def)
  then show ?thesis
    by (subst main_port_cut [where opts = "options_new\<lparr>o_target := Some ''host''\<rparr>" and d = "()" and d' = "()" and info = "[]"])
      (simp_all add: main_opt_def options_new_def main_driver_def main_find_def reg_has_def reg_find_def reg_create_def null_registry_def
        main_init_def null_drv_ops_def null_ops_def jtag_ops.defs drv_ops.defs null_senv_def)
qed

end
