(* ===== verification/Srv_LoopBack.thy ===== *)
theory Srv_LoopBack
  imports Xvc_Server
begin

text \<open>
  The server with the loopback driver: the driver meets the contracts that the connection relies on,
  and with them the behaviour of a whole connection follows.
\<close>

section \<open>The driver as the server sees it\<close>

definition loopBack_ops :: "loopBack jtag_ops" where
  "loopBack_ops = axisToJtag_ops loopBack_xfer loop_getMaxVectorSize"

section \<open>Specification\<close>

text \<open>
  The states of a driver without a playback file on a little-endian host and with the sniffer off.  The constructor
  without a file name leaves \<^verbatim>\<open>f_\<close> uninitialised; the states here are those of an object whose \<^verbatim>\<open>f_\<close> happens to be null
  (\<open>loop_valid_new\<close>): with any other value the first query uses it as a file (\<open>loop_wild_query\<close>).  Vectors of up to 1020
  bytes fit into the transmit buffer.
\<close>

definition loop_valid :: "loopBack \<Rightarrow> bool" where
  "loop_valid d \<longleftrightarrow>
     drv_wf d \<and> m_wordSize d = 4 \<and> isLE (m_host d) \<and> m_f d = NullPtr \<and> m_skip d \<and> \<not> getSniff d \<and>
     m_periodNs d = UNKNOWN_PERIOD"

definition loop_limit :: nat where
  "loop_limit = 1020"

text \<open>The device behind the driver: a wire from TDI to TDO.\<close>

definition wire :: "bool \<times> bool \<Rightarrow> unit \<Rightarrow> bool \<times> unit" where
  "wire tms_tdi s = (snd tms_tdi, s)"

section \<open>Lemmas\<close>

lemma loop_fits: "n \<le> loop_limit \<Longrightarrow> msg_size 4 n \<le> 2044"
  using msg_size_le [of 4 n 255] by (simp add: loop_limit_def)

lemma loop_valid_upd:
  assumes "loop_valid d" and "length tx = m_bufSz d" and "length hb = hdBufMax"
  shows "loop_valid (d\<lparr>m_xid := x, m_txBuf := tx, m_hdBuf := hb\<rparr>)"
  using assms by (auto simp: loop_valid_def drv_wf_def getSniff_def)

lemma loop_send:
  assumes "loop_valid d" and "1 \<le> bits" and "n = (bits + 7) div 8" and "n \<le> loop_limit"
    and "n \<le> length tms" and "n \<le> length tdi" and "n \<le> length tdo"
  shows "\<exists>d'. op_sendVectors loopBack_ops bits tms tdi tdo d = ((Inr (), take n tdi @ drop n tdo), d') \<and> loop_valid d'"
proof -
  have d: "drv_wf d" "m_wordSize d = 4" "isLE (m_host d)" "m_skip d" "\<not> getSniff d"
    using assms(1) by (simp_all add: loop_valid_def)
  have fit: "msg_size 4 n \<le> m_bufSz d" using loop_fits [OF assms(4)] d(1) by (simp add: drv_wf_def)
  have bits: "bits \<le> 2 ^ 20" using assms(3,4) by (simp add: loop_limit_def)
  show ?thesis
    using sendVectors_loop [OF d assms(2) bits assms(3,5,6,7) fit, of emulMemDepth] loop_valid_upd [OF assms(1)]
    by (auto simp: loopBack_ops_def axisToJtag_ops_def loopBack_xfer_def)
qed

text \<open>The header of a shift of zero bits has all bits set: the emulated target rejects its version.\<close>

lemma loop_send_zero:
  assumes "loop_valid d"
  shows "\<exists>m d'. op_sendVectors loopBack_ops 0 tms tdi tdo d = ((Inl (ProtoErr m), tdo), d')"
proof -
  have d: "drv_wf d" "m_wordSize d = 4" "isLE (m_host d)"
    using assms(1) by (simp_all add: loop_valid_def)
  define h where "h = fst (mkShift 0 (m_xid d))"
  have "h = - 1" by (rule bit_word_eqI) (simp add: h_def bit_mkShift)
  then have v: "getVrs h \<noteq> PVER0" by (simp add: getVrs_def hdr_defs)
  obtain tx where tx: "shift_msg 4 h 0 tms tdi tx"
    and send: "sendVectors loopBack_xfer 0 tms tdi tdo d = send_sniff 0 tms tdi
      (xferRel loopBack_xfer tx (msg_size 4 0) tdo 0 (d\<lparr>m_xid := next_xid (m_xid d), m_txBuf := tx\<rparr>))"
    by (rule sendVectors_msg [of 0 0 4 d tms tdi loopBack_xfer tdo])
      (use d in \<open>auto simp: h_def msg_size_def drv_wf_def\<close>)
  define d1 where "d1 = d\<lparr>m_xid := next_xid (m_xid d), m_txBuf := tx\<rparr>"
  note hdr = shift_msg_hdr [OF tx order_refl]
  have hw: "h = le_word32 (take 4 tx)" using hdr(1) by simp
  have hb: "4 \<le> length (m_hdBuf d1)" "isLE (m_host d1)" using d by (simp_all add: d1_def drv_wf_def hdBufMax_def)
  have x: "loopBack_xfer tx (msg_size 4 0) (m_hdBuf d1) (m_wordSize d1) tdo 0 d1 =
      ((Inr 0, le_bytes32 (err_header h 2) @ drop 4 (m_hdBuf d1), tdo), d1)"
    using loop_xfer_rejects [OF hb(2) _ hdr(2) hb(1) hw, of "msg_size 4 0"] v
    by (simp add: loopBack_xfer_def msg_size_def)
  have "\<exists>d'. xferRel loopBack_xfer tx (msg_size 4 0) tdo 0 d1 = ((Inl (ProtoErr (err_reply_msg 2)), tdo), d')"
    using x hdr(2) hb(2) err_header_fields [of 2 h]
    by (simp add: xferRel_def xferRel_loop.simps(2) getHdr_le getWordSize_def)
  then show ?thesis using send by (auto simp: d1_def send_sniff_def loopBack_ops_def axisToJtag_ops_def)
qed

lemma loop_query:
  assumes "loop_valid d"
  shows "\<exists>d'. op_query loopBack_ops d = (Inr 0, d') \<and> loop_valid d'"
proof -
  have d: "drv_wf d" "m_f d \<noteq> WildPtr" "isLE (m_host d)" using assms by (simp_all add: loop_valid_def)
  obtain d' where q: "query loopBack_xfer d = (Inr 0, d')" "m_wordSize d' = 4" "m_periodNs d' = UNKNOWN_PERIOD"
    "m_f d' = m_f d" "m_skip d' = (if m_f d = NullPtr then m_skip d else False)"
    using query_loop [OF d, of 0] by (auto simp: loopBack_xfer_def emulMemDepth_def)
  with lb.query_wf [OF q(1) d(1)] assms show ?thesis
    by (auto simp: loop_valid_def getSniff_def loopBack_ops_def axisToJtag_ops_def)
qed

lemma dev_run_wire: "length xs = length ys \<Longrightarrow> dev_run wire (zip xs ys) () = (ys, ())"
  by (induction xs ys rule: list_induct2) (simp_all add: wire_def)

text \<open>The constructor without a file name, when \<^verbatim>\<open>f_\<close> is null and when it is not.\<close>

lemma loop_valid_new:
  assumes "loopBack_new host xid0 NullPtr fopen fnam = Inr d" and "fnam \<in> {None, Some []}" and "isLE host"
  shows "loop_valid d"
  using assms
  by (auto simp: loopBack_new_def Let_def loop_valid_def drv_wf_def getSniff_def axisToJtag_new_def hdBufMax_def
      axisToJtag.defs loopBack.defs jtagDriver.defs jtagDriver_new_def)

lemma loop_wild_query:
  assumes "loopBack_new host xid0 WildPtr fopen fnam = Inr d" and "fnam \<in> {None, Some []}"
  shows "fst (query loopBack_xfer d) = Inl (Fault ''fseek on an indeterminate pointer'')"
proof -
  have d: "drv_wf d" "m_f d = WildPtr" "m_wordSize d = 4" using assms
    by (auto simp: loopBack_new_def Let_def drv_wf_def axisToJtag_new_def hdBufMax_def
        axisToJtag.defs loopBack.defs jtagDriver.defs jtagDriver_new_def)
  then have l: "4 \<le> length (m_txBuf d)" "4 \<le> length (m_hdBuf d)" by (auto simp: drv_wf_def hdBufMax_def)
  define tx where "tx = le_bytes32 mkQuery @ drop 4 (m_txBuf d)"
  have set: "setHdr (isLE (m_host d)) 4 (m_txBuf d) mkQuery = Inr tx" using setHdr_le [of 4 "m_txBuf d"] l by (simp add: tx_def)
  have tx4: "take 4 tx = le_bytes32 mkQuery" "4 \<le> length tx" by (simp_all add: tx_def)
  have "fst (fst (loopBack_xfer tx 4 (m_hdBuf d) 4 [] 0 (d\<lparr>m_txBuf := tx\<rparr>))) = Inl (Fault ''fseek on an indeterminate pointer'')"
    using tx4 d(2) by (simp add: loopBack_xfer_def loop_xfer_def Let_def rd_mem_ok emulWordSize_def rewind_def)
  then obtain hb rx d' where "loopBack_xfer tx 4 (m_hdBuf d) 4 [] 0 (d\<lparr>m_txBuf := tx\<rparr>) =
      ((Inl (Fault ''fseek on an indeterminate pointer''), hb, rx), d')"
    by (metis prod.exhaust_sel)
  then show ?thesis using set d(3) tx4
    by (simp add: query_def getWordSize_def xferRel_def xferRel_loop.simps getHdr_le)
qed

text \<open>The server cuts nothing, as the driver sets no limit: a vector is as long as the client's shift.\<close>

lemma loop_fit_max: "loop_valid d \<Longrightarrow> chunks_fit loopBack_ops mx mx d"
  using loop_query [of d]
  by (auto simp: chunks_fit_def sup_len_def loopBack_ops_def axisToJtag_ops_def loop_getMaxVectorSize_def)

lemma loop_fit: "loop_valid d \<Longrightarrow> mx \<le> loop_limit \<Longrightarrow> chunks_fit loopBack_ops loop_limit mx d"
  using loop_query [of d]
  by (auto simp: chunks_fit_def sup_len_def loopBack_ops_def axisToJtag_ops_def loop_getMaxVectorSize_def)

section \<open>Interpretations\<close>

text \<open>A driver state on which \<^verbatim>\<open>sendVectors\<close> is total over the vectors the server passes.\<close>

interpretation lb_drv: jtag_driver loopBack_ops loop_valid loop_limit
proof
  fix d :: loopBack and q d' assume v: "loop_valid d" and "op_query loopBack_ops d = (q, d')"
  then show "no_fault q" using loop_query [OF v] by auto
next
  fix d :: loopBack and n d' assume v: "loop_valid d" and "op_query loopBack_ops d = (Inr n, d')"
  then show "loop_valid d'" using loop_query [OF v] by auto
next
  fix d :: loopBack and bits tms tdi tdo r tdo' d'
  assume a: "loop_valid d" "(bits + 7) div 8 \<le> loop_limit" "(bits + 7) div 8 \<le> length tms"
    "(bits + 7) div 8 \<le> length tdi" "(bits + 7) div 8 \<le> length tdo"
    "op_sendVectors loopBack_ops bits tms tdi tdo d = ((r, tdo'), d')"
  show "no_fault r \<and> length tdo' = length tdo"
  proof (cases "bits = 0")
    case True
    then show ?thesis using loop_send_zero [OF a(1), of tms tdi tdo] a(6) by auto
  next
    case False
    then show ?thesis using loop_send [OF a(1) _ refl a(2-5)] a(4-6) by auto
  qed
next
  fix d :: loopBack and bits tms tdi tdo tdo' d'
  assume a: "loop_valid d" "(bits + 7) div 8 \<le> loop_limit" "(bits + 7) div 8 \<le> length tms"
    "(bits + 7) div 8 \<le> length tdi" "(bits + 7) div 8 \<le> length tdo"
    "op_sendVectors loopBack_ops bits tms tdi tdo d = ((Inr (), tdo'), d')"
  show "loop_valid d'"
  proof (cases "bits = 0")
    case True
    then show ?thesis using loop_send_zero [OF a(1), of tms tdi tdo] a(6) by auto
  next
    case False
    then show ?thesis using loop_send [OF a(1) _ refl a(2-5)] a(6) by auto
  qed
next
  fix d :: loopBack and tms tdi tdo assume "loop_valid d"
  from loop_send_zero [OF this, of tms tdi tdo]
  show "fst (fst (op_sendVectors loopBack_ops 0 tms tdi tdo d)) \<noteq> Inr ()" by auto
qed

interpretation lb_dev: serial_driver loopBack_ops loop_valid loop_limit "\<lambda>_. ()" wire "\<lambda>p. p"
proof
  fix d :: loopBack assume "loop_valid d"
  from loop_query [OF this] show "\<exists>n d'. op_query loopBack_ops d = (Inr n, d') \<and> () = ()" by auto
next
  fix d :: loopBack and p assume "loop_valid d"
  then show "op_setPeriodNs loopBack_ops p d = p"
    by (simp add: loop_valid_def loopBack_ops_def axisToJtag_ops_def setPeriodNs_def getPeriodNs_def Let_def UNKNOWN_PERIOD_def)
next
  fix d :: loopBack and bits n and tms tdi tdo :: "u8 list"
  assume a: "loop_valid d" "1 \<le> bits" "n = (bits + 7) div 8" "n \<le> loop_limit" "n \<le> length tms" "n \<le> length tdi" "n \<le> length tdo"
  have "bits \<le> 8 * n" using a(3) by simp
  then have "take bits (bits_of_bytes (take n tdi @ drop n tdo)) = take bits (bits_of_bytes tdi)"
    and "length (take bits (bits_of_bytes tms)) = length (take bits (bits_of_bytes tdi))"
    using a(5,6) by (simp_all add: take_bits_of_bytes [symmetric] min_def)
  then show "\<exists>tdo' d'. op_sendVectors loopBack_ops bits tms tdi tdo d = ((Inr (), tdo'), d') \<and> drop n tdo' = drop n tdo \<and>
      (take bits (bits_of_bytes tdo'), ()) = dev_run wire (zip (take bits (bits_of_bytes tms)) (take bits (bits_of_bytes tdi))) ()"
    using loop_send [OF a] a(6) by (auto simp: dev_run_wire)
qed

section \<open>Concrete runs\<close>

lemma loop_valid_example: "loop_valid loop_example"
  using loop_example_simps
  by (simp add: loop_valid_def le_platform_def)
    (simp add: loop_example_def fresh_drv_def axisToJtag_new_def axisToJtag.defs loopBack.defs jtagDriver.defs jtagDriver_new_def)

section \<open>Properties\<close>

text \<open>
  C1.  A client of the server with the loopback driver gets for every message the reply that the protocol
  asks for, in order, and its TDI bits as TDO: whatever way the network cuts the stream of messages into
  segments, whatever portions the replies are taken in, and whoever else tries to connect meanwhile.  The
  server then waits for more, or reports the end of the stream when the client has closed it.

  The conditions: the driver has no playback file and \<^verbatim>\<open>f_\<close> is null, the host is little-endian and the sniffer off
  (\<open>loop_valid\<close>), and no shift of the client has more than \<open>mc\<close> bytes, where \<open>mc\<close> is at most 1020, as longer vectors do not
  fit into the transmit buffer.  The maximum \<open>mx\<close> that the server announces may be larger; its default is 32768.
\<close>

theorem loopback_session:
  assumes "loop_valid d" and "mc \<le> loop_limit" and "mc \<le> mx" and "mx < 2 ^ 32" and "xvcConn_new sd evs wr 0 d mx = Inr c"
    and "clean evs" and "\<forall>i. 0 < wr i" and "ev_bytes evs = concat (map encode_msg ms)" and "list_all (msg_ok mc) ms"
  shows "\<exists>c'. conn_run loopBack_ops c = Some (if eof evs then SysErr ''Unable to read from socket'' else Blocked, c') \<and>
    session wire (\<lambda>p. p) mx ms () (c_out c') ()"
  using lb_dev.conn_session [OF assms(1) loop_fit_max [OF assms(1)] assms(4-9,3) min.coboundedI1 [OF assms(2)]] by auto

theorem loopback_session_witness:
  "\<exists>c'. conn_run loopBack_ops
      (case xvcConn_new 5 [Data (ascii ''getinfo:shi''), NewClient True, Data (ascii ''ft:'' @ [12, 0, 0, 0, 1, 2]), Data [3, 4]] (\<lambda>_. 1) 0 loop_example 32768
       of Inr c \<Rightarrow> c) =
      Some (if eof [Data (ascii ''getinfo:shi''), NewClient True, Data (ascii ''ft:'' @ [12, 0, 0, 0, 1, 2]), Data [3, 4]]
        then SysErr ''Unable to read from socket'' else Blocked, c') \<and>
    session wire (\<lambda>p. p) 32768 [GetInfo, Shift 12 [1, 2] [3, 4]] () (c_out c') ()"
  by (rule loopback_session [where mc = 1020 and sd = 5 and d = loop_example and wr = "\<lambda>_. 1" and evs = "[Data (ascii ''getinfo:shi''), NewClient True, Data (ascii ''ft:'' @ [12, 0, 0, 0, 1, 2]), Data [3, 4]]"])
    (simp_all add: loop_valid_example loop_limit_def xvcConn_new_def ascii_def vec_bytes_def le_bytes32_def)

text \<open>
  C8.  When the server is started with \<^verbatim>\<open>-M\<close> and at most 1020, no client can make it leave the defined behaviour or hang with
  the loopback driver: whatever bytes and errors the network delivers, the connection ends in an exception of the program
  or waits for input.  With a larger maximum, as the default of 32768, a long vector is written past the end of the
  transmit buffer.  As in the other sessions there is no playback file, \<^verbatim>\<open>f_\<close> is null, the host little-endian and the sniffer off.
\<close>

theorem loopback_server_safe:
  assumes "loop_valid d" and "mx \<le> loop_limit" and "xvcConn_new sd evs wr nodelay d mx = Inr c"
  shows "\<exists>e c'. conn_run loopBack_ops c = Some (e, c') \<and> no_fault (Inl e :: unit res)"
  using lb_drv.conn_run_safe [of c] xvcConn_newD [OF assms(3)] loop_fit [OF assms(1,2)] assms(1,2) by (simp add: loop_limit_def)

theorem loopback_server_safe_witness:
  "\<exists>e c'. conn_run loopBack_ops
      (case xvcConn_new 5 [Data (ascii ''shift:'' @ [255, 255, 255, 255]), ReadErr] (\<lambda>_. 0) 0 loop_example 1020 of Inr c \<Rightarrow> c) =
    Some (e, c') \<and> no_fault (Inl e :: unit res)"
  by (rule loopback_server_safe [where sd = 5 and d = loop_example and mx = 1020 and wr = "\<lambda>_. 0" and nodelay = 0 and evs = "[Data (ascii ''shift:'' @ [255, 255, 255, 255]), ReadErr]"])
    (simp_all add: loop_valid_example loop_limit_def xvcConn_new_def)

text \<open>
  C2.  Without the option \<^verbatim>\<open>-o\<close> the server with the loopback driver serves its clients one after the other: each gets the
  replies to its own messages, and when it has closed the connection the server takes the next one, and waits
  when there is none.  The clients keep to the protocol and their shifts have at most \<open>mc\<close> bytes, with \<open>mc\<close> at most 1020 and at
  most the maximum of the server; the driver has no playback file, \<^verbatim>\<open>f_\<close> is null, the host little-endian and the sniffer off.
\<close>

theorem loopback_serves_all:
  assumes "loop_valid d" and "mc \<le> loop_limit" and "mc \<le> unat (s_maxMsgSize s)" and "\<not> s_once s"
    and "list_all2 (polite mc) cls mss"
  shows "\<exists>outs d'. server_run loopBack_ops s cls d = Some ((Some Blocked, outs), d') \<and> loop_valid d' \<and>
    sessions wire (\<lambda>p. p) (unat (s_maxMsgSize s)) mss () outs ()"
  by (rule lb_dev.server_run_dev [OF assms(1) loop_fit_max assms(4,5,3) min.coboundedI1 [OF assms(2)]])

theorem loopback_serves_all_witness:
  "\<exists>outs d'. server_run loopBack_ops \<lparr>s_sock = 3, s_debug = 0, s_maxMsgSize = 32768, s_once = False\<rparr>
      [\<lparr>cl_accept = 4, cl_events = [Data (ascii ''getinfo:''), Data []], cl_writes = \<lambda>_. 1, cl_nodelay = 0\<rparr>,
       \<lparr>cl_accept = 4, cl_events = [Data (ascii ''shift:'' @ [3, 0, 0, 0, 1, 5]), Data []], cl_writes = \<lambda>_. 9, cl_nodelay = 0\<rparr>]
      loop_example = Some ((Some Blocked, outs), d') \<and> loop_valid d' \<and>
    sessions wire (\<lambda>p. p) (unat (s_maxMsgSize \<lparr>s_sock = 3, s_debug = 0, s_maxMsgSize = 32768, s_once = False\<rparr>))
      [[GetInfo], [Shift 3 [1] [5]]] () outs ()"
  by (rule loopback_serves_all [where mc = 64])
    (simp_all add: loop_valid_example loop_limit_def polite_def ascii_def eof_def vec_bytes_def le_bytes32_def)

text \<open>
  C32.  A client that opens with a message the server does not know takes the server down: the
  exception is not the one that the loop over the clients catches, so the program ends and whoever
  comes later is not served.
\<close>

theorem loopback_rude_client:
  assumes "loop_valid d" and "unat (s_maxMsgSize s) \<le> loop_limit" and "\<not> s_once s"
    and "list_all2 (polite (unat (s_maxMsgSize s))) cls mss" and "rude cl"
  shows "\<exists>outs d'. server_run loopBack_ops s (cls @ cl # later) d =
      Some ((Some (ProtoErr ''unsupported message received''), outs @ [[]]), d') \<and>
    sessions wire (\<lambda>p. p) (unat (s_maxMsgSize s)) mss () outs ()"
  by (rule lb_dev.server_run_rude [OF assms(1) loop_fit [OF _ assms(2)] assms(3,4) order_refl min.cobounded2 assms(5)])

theorem loopback_rude_client_witness:
  "\<exists>outs d'. server_run loopBack_ops \<lparr>s_sock = 3, s_debug = 0, s_maxMsgSize = 64, s_once = False\<rparr>
      ([] @ \<lparr>cl_accept = 4, cl_events = [Data (ascii ''GET /'')], cl_writes = \<lambda>_. 1, cl_nodelay = 0\<rparr> #
       [\<lparr>cl_accept = 4, cl_events = [Data (ascii ''getinfo:''), Data []], cl_writes = \<lambda>_. 1, cl_nodelay = 0\<rparr>])
      loop_example = Some ((Some (ProtoErr ''unsupported message received''), outs @ [[]]), d') \<and>
    sessions wire (\<lambda>p. p) (unat (s_maxMsgSize \<lparr>s_sock = 3, s_debug = 0, s_maxMsgSize = 64, s_once = False\<rparr>)) [] () outs ()"
  by (rule loopback_rude_client)
    (simp_all add: loop_valid_example loop_limit_def rude_def ascii_def)

end
