(* ===== verification/Reg_Io.thy ===== *)
theory Reg_Io
  imports Xvc_Driver C_Scan
begin

text \<open>
  Access to device registers, for the drivers of memory-mapped hardware: the class \<^verbatim>\<open>MemMap\<close> of
  \<^verbatim>\<open>mmioHelper.h\<close>, polling, and the transfer loops that the drivers have in common.

  The hardware is a parameter: a record of functions on its state, one for each kind of access the
  program makes (reading and writing the descriptor of an interrupt, reading the clock, sleeping for some
  nanoseconds, reading and writing a register).  A driver keeps the state of its hardware in the member \<open>m_hw\<close>, and
  time passes for the hardware while the program sleeps.  The program ignores the result of \<^verbatim>\<open>nanosleep\<close>.
\<close>

section \<open>Hardware\<close>

record 's irq_env =
  irq_write :: "'s \<Rightarrow> int \<times> 's"
  irq_read :: "'s \<Rightarrow> (int \<times> u32) \<times> 's"
  clock_gettime :: "'s \<Rightarrow> (int \<times> int) \<times> 's"
  nanosleep :: "u64 \<Rightarrow> 's \<Rightarrow> 's"

record 's mmio = "'s irq_env" +
  mm_rd :: "nat \<Rightarrow> 's \<Rightarrow> u32 \<times> 's"
  mm_wr :: "nat \<Rightarrow> u32 \<Rightarrow> 's \<Rightarrow> 's"

record 's regDrv = axisToJtag +
  m_hw :: 's

text \<open>An access to the hardware as an operation of the driver; a pause is one.\<close>

definition hwS :: "('s \<Rightarrow> 'a \<times> 's) \<Rightarrow> (('s, 'z) regDrv_scheme, 'a) sm" where
  "hwS f d = (case f (m_hw d) of (x, s) \<Rightarrow> (Inr x, d\<lparr>m_hw := s\<rparr>))"

definition sleepS :: "('s, 'e) irq_env_scheme \<Rightarrow> u64 \<Rightarrow> (('s, 'z) regDrv_scheme, unit) sm" where
  "sleepS hw ns = hwS (\<lambda>s. ((), nanosleep hw ns s))"

section \<open>MemMap\<close>

text \<open>
  \<^verbatim>\<open>strtoul(s, &end, 0)\<close>: the value and the rest of the string, or nothing when there is no number (then
  \<^verbatim>\<open>end == s\<close>).
\<close>

definition strtoul :: "string \<Rightarrow> (u64 \<times> string) option" where
  "strtoul s0 =
     (let s = dropWhile is_space s0;
          neg = (take 1 s = ''-'');
          s1 = (if take 1 s = ''-'' \<or> take 1 s = ''+'' then drop 1 s else s);
          hex = (take 2 s1 \<in> set [''0x'', ''0X''] \<and> (\<exists>c\<in>set (take 1 (drop 2 s1)). digit_val 16 c \<noteq> None));
          base = (if hex then 16 else if take 1 s1 = ''0'' then 8 else 10);
          s2 = (if hex then drop 2 s1 else s1);
          ds = takeWhile (\<lambda>c. digit_val base c \<noteq> None) s2;
          v = scan_digits base 0 ds
      in if ds = [] then None
         else Some (if 2 ^ 64 \<le> v then - 1 else if neg then - word_of_nat v else word_of_nat v,
                    drop (length ds) s2))"

text \<open>
  The constructor.  The environment gives the result of \<^verbatim>\<open>open\<close>, the page size, and whether \<^verbatim>\<open>mmap\<close>
  succeeds for a size and a file offset.  A mapping is its size, the offset of the device in it
  (\<^verbatim>\<open>mapOff\<close>), the file offset and the descriptor.
\<close>

record map_env =
  sys_open :: "string \<Rightarrow> int"
  sys_pagesize :: u64
  sys_mmap :: "u64 \<Rightarrow> u64 \<Rightarrow> bool"

record memMap =
  mp_siz :: u64
  mp_off :: u64
  mp_pos :: u64
  mp_fd :: int

definition map_target :: "string \<Rightarrow> (string \<times> u64) res" where
  "map_target devnam =
     (let nm = takeWhile (\<lambda>c. c \<noteq> CHR '':'') devnam; rest = drop (length nm + 1) devnam
      in if rest = [] then Inr (nm, 0)
         else (case strtoul rest of
                 Some (off, []) \<Rightarrow> Inr (nm, off)
               | _ \<Rightarrow> Inl (RuntimeErr ''MemMap Invalid name; expected <filen>[:<offset>]'')))"

definition memMap_new :: "map_env \<Rightarrow> string \<Rightarrow> u64 \<Rightarrow> memMap res" where
  "memMap_new env devnam siz =
     bindR (map_target devnam) (\<lambda>(nm, off).
       let fd = sys_open env nm; pgsz = sys_pagesize env in
       if fd < 0 then Inl (SysErr ''Unable to open FIFO device file'')
       else
         let mapOff = off AND (pgsz - 1); mapSiz = (mapOff + siz + pgsz - 1) div pgsz * pgsz in
         if \<not> sys_mmap env mapSiz (off - mapOff) then Inl (SysErr ''Unable to mmap device'')
         else Inr \<lparr>mp_siz = mapSiz, mp_off = mapOff, mp_pos = off - mapOff, mp_fd = fd\<rparr>)"

text \<open>Register number \<open>idx\<close> of 32 bits; outside of the mapping there is no memory.\<close>

definition map_has :: "memMap \<Rightarrow> nat \<Rightarrow> bool" where
  "map_has m idx \<longleftrightarrow> unat (mp_off m) + 4 * idx + 4 \<le> unat (mp_siz m)"

definition map_rd :: "'s mmio \<Rightarrow> memMap \<Rightarrow> nat \<Rightarrow> (('s, 'z) regDrv_scheme, u32) sm" where
  "map_rd hw m idx =
     (if map_has m idx then hwS (mm_rd hw idx) else throwS (Fault ''access outside of the mapping''))"

definition map_wr :: "'s mmio \<Rightarrow> memMap \<Rightarrow> nat \<Rightarrow> u32 \<Rightarrow> (('s, 'z) regDrv_scheme, unit) sm" where
  "map_wr hw m idx v =
     (if map_has m idx then hwS (\<lambda>s. ((), mm_wr hw idx v s)) else throwS (Fault ''access outside of the mapping''))"

section \<open>Polling\<close>

text \<open>
  The loop \<^verbatim>\<open>while (test(register)) wait();\<close> with the last value read; it is \<open>None\<close> when it never ends.
  An operation with such a loop that does not end is \<open>Blocked\<close>.
\<close>

partial_function (option) poll_loop :: "('d, u32) sm \<Rightarrow> (u32 \<Rightarrow> bool) \<Rightarrow> ('d, unit) sm \<Rightarrow> 'd \<Rightarrow> (u32 res \<times> 'd) option" where
  "poll_loop rd busy wt d =
     (case rd d of
        (Inl e, d1) \<Rightarrow> Some (Inl e, d1)
      | (Inr v, d1) \<Rightarrow>
          if busy v then
            (case wt d1 of
               (Inl e, d2) \<Rightarrow> Some (Inl e, d2)
             | (Inr _, d2) \<Rightarrow> poll_loop rd busy wt d2)
          else Some (Inr v, d1))"

definition runS :: "('d \<Rightarrow> ('a res \<times> 'd) option) \<Rightarrow> ('d, 'a) sm" where
  "runS m d = (case m d of None \<Rightarrow> (Inl Blocked, d) | Some rd \<Rightarrow> rd)"

definition poll :: "('d, u32) sm \<Rightarrow> (u32 \<Rightarrow> bool) \<Rightarrow> ('d, unit) sm \<Rightarrow> ('d, u32) sm" where
  "poll rd busy wt = runS (poll_loop rd busy wt)"

text \<open>Waiting for an interrupt on a descriptor: four bytes are written and read.\<close>

definition irq_wait :: "('s, 'e) irq_env_scheme \<Rightarrow> (('s, 'z) regDrv_scheme, u32) sm" where
  "irq_wait hw =
     bindS (hwS (irq_write hw)) (\<lambda>put.
       if put \<noteq> 4 then throwS (SysErr ''Unable to write to IRQ descriptor'')
       else bindS (hwS (irq_read hw)) (\<lambda>(got, evs).
         if got \<noteq> 4 then throwS (SysErr ''Unable to read from IRQ descriptor'') else retS evs))"

section \<open>Transfers through a FIFO of words\<close>

text \<open>
  The state of a transfer: the header buffer, the receive buffer and the object.
\<close>

type_synonym 'd xst = "u8 list \<times> u8 list \<times> 'd"

definition onD :: "('d, 'a) sm \<Rightarrow> ('d xst, 'a) sm" where
  "onD m x = (case x of (hb, rx, d) \<Rightarrow> case m d of (r, d') \<Rightarrow> (r, (hb, rx, d')))"

definition put_hb :: "nat \<Rightarrow> u8 list \<Rightarrow> ('d xst, unit) sm" where
  "put_hb i bs x =
     (case x of (hb, rx, d) \<Rightarrow>
        case wr_mem hb i bs of Inl e \<Rightarrow> (Inl e, (hb, rx, d)) | Inr hb' \<Rightarrow> (Inr (), (hb', rx, d)))"

definition put_rx :: "nat \<Rightarrow> u8 list \<Rightarrow> ('d xst, unit) sm" where
  "put_rx i bs x =
     (case x of (hb, rx, d) \<Rightarrow>
        case wr_mem rx i bs of Inl e \<Rightarrow> (Inl e, (hb, rx, d)) | Inr rx' \<Rightarrow> (Inr (), (hb, rx', d)))"

text \<open>A transfer on this state as an implementation of \<^verbatim>\<open>xfer\<close>.\<close>

definition io_xfer :: "(u8 list \<Rightarrow> nat \<Rightarrow> nat \<Rightarrow> nat \<Rightarrow> ('d xst, int) sm) \<Rightarrow> 'd xfer_fn" where
  "io_xfer f txb txBytes hb hsize rx sz d =
     (case f txb txBytes hsize sz (hb, rx, d) of (r, (hb', rx', d')) \<Rightarrow> ((r, hb', rx'), d'))"

text \<open>Sending \<open>k\<close> words of the message from offset \<open>i\<close>; \<open>le\<close> is the byte order of the host.\<close>

primrec tx_words :: "(u32 \<Rightarrow> ('d, unit) sm) \<Rightarrow> bool \<Rightarrow> u8 list \<Rightarrow> nat \<Rightarrow> nat \<Rightarrow> ('d, unit) sm" where
  "tx_words put le txb 0 i = retS ()"
| "tx_words put le txb (Suc k) i =
     bindS (liftR (rd_mem txb i 4)) (\<lambda>bs.
     bindS (put (u32_of_mem le bs)) (\<lambda>_. tx_words put le txb k (i + 4)))"

text \<open>
  Receiving: \<open>k\<close> words of the header (with \<open>got\<close> bytes of the reply left; the result is the number of
  bytes left after the header), \<open>k\<close> words of the payload, and words nobody wants.
\<close>

primrec rx_header :: "('d, u32) sm \<Rightarrow> bool \<Rightarrow> nat \<Rightarrow> nat \<Rightarrow> nat \<Rightarrow> ('d xst, nat) sm" where
  "rx_header rd le 0 i got = retS got"
| "rx_header rd le (Suc k) i got =
     bindS (onD rd) (\<lambda>w.
       if got < 4 then throwS (ProtoErr ''Didn't receive enough data for header'')
       else bindS (put_hb i (mem_of_u32 le w)) (\<lambda>_. rx_header rd le k (i + 4) (got - 4)))"

primrec rx_words :: "('d, u32) sm \<Rightarrow> bool \<Rightarrow> nat \<Rightarrow> nat \<Rightarrow> ('d xst, unit) sm" where
  "rx_words rd le 0 i = retS ()"
| "rx_words rd le (Suc k) i =
     bindS (onD rd) (\<lambda>w. bindS (put_rx i (mem_of_u32 le w)) (\<lambda>_. rx_words rd le k (i + 4)))"

primrec rx_discard :: "('d, u32) sm \<Rightarrow> nat \<Rightarrow> ('d xst, unit) sm" where
  "rx_discard rd 0 = retS ()"
| "rx_discard rd (Suc k) = bindS (onD rd) (\<lambda>_. rx_discard rd k)"

definition rx_payload :: "('d, u32) sm \<Rightarrow> bool \<Rightarrow> nat \<Rightarrow> nat \<Rightarrow> ('d xst, nat) sm" where
  "rx_payload rd le got sz =
     (let mn = (if sz < got then sz else got); minw = mn div 4; rem = mn - 4 * minw;
          i = 4 * minw + (if rem \<noteq> 0 then 4 else 0)
      in bindS (rx_words rd le minw 0) (\<lambda>_.
         bindS (if rem \<noteq> 0
                then bindS (onD rd) (\<lambda>w. put_rx (4 * minw) (take rem (mem_of_u32 le w)))
                else retS ()) (\<lambda>_.
         bindS (rx_discard rd ((got - i + 3) div 4)) (\<lambda>_. retS mn))))"

text \<open>The simulated loss of a reply in test mode.\<close>

definition drop_test :: "('a jtagDriver_scheme, unit) sm" where
  "drop_test d =
     (let d1 = (if m_drEn d then d\<lparr>m_drop := m_drop d + 1\<rparr> else d)
      in if m_drEn d1 \<and> m_drop d1 AND 0xff = 0 then (Inl (TimeoutErr []), d1) else (Inr (), d1))"

text \<open>The reception of a reply of \<open>got\<close> bytes.\<close>

definition rx_reply :: "('a jtagDriver_scheme, u32) sm \<Rightarrow> bool \<Rightarrow> nat \<Rightarrow> nat \<Rightarrow> nat \<Rightarrow> ('a jtagDriver_scheme xst, int) sm" where
  "rx_reply rd le hsize got sz =
     (if 0 = got then throwS (ProtoErr ''Didn't receive enough data for header'')
      else bindS (rx_header rd le (hsize div 4) 0 got) (\<lambda>pld.
           bindS (rx_payload rd le pld sz) (\<lambda>mn.
           bindS (onD drop_test) (\<lambda>_. retS (c_int mn)))))"

section \<open>Transfers through a serialiser of words\<close>

text \<open>
  The drivers of serialisers measure for a while how long the hardware needs, to decide whether they
  sleep between two readings of the busy flag.
\<close>

record 's polledDrv = "'s regDrv" +
  m_doSleep :: bool
  m_measure :: u32
  m_pollTime :: u64
  m_maxPollDelayUs :: u64

definition MIN_SLEEP_NS :: u64 where
  "MIN_SLEEP_NS = 20 * 1000 * 1000"

definition measure_start :: "('s, 'e) irq_env_scheme \<Rightarrow> (('s, 'z) polledDrv_scheme, (int \<times> int) option) sm" where
  "measure_start hw d =
     (if m_measure d \<noteq> 0
      then bindS (hwS (clock_gettime hw)) (\<lambda>t. retS (Some t)) (d\<lparr>m_doSleep := False\<rparr>)
      else (Inr None, d))"

definition diff_ns :: "int \<times> int \<Rightarrow> int \<times> int \<Rightarrow> u64" where
  "diff_ns now start = word_of_int (fst now - fst start) * 1000000000 + word_of_int (snd now - snd start)"

definition measure_update :: "u64 \<Rightarrow> ('s, 'z) polledDrv_scheme \<Rightarrow> ('s, 'z) polledDrv_scheme" where
  "measure_update diffNs d =
     (let d1 = (if MIN_SLEEP_NS \<le> diffNs
                then d\<lparr>m_pollTime := diffNs, m_measure := 0, m_doSleep := True\<rparr>
                else d\<lparr>m_measure := m_measure d - 1\<rparr>);
          diffUs = diffNs div 1000
      in if m_maxPollDelayUs d1 < diffUs then d1\<lparr>m_maxPollDelayUs := diffUs\<rparr> else d1)"

definition measure_end :: "('s, 'e) irq_env_scheme \<Rightarrow> (int \<times> int) option \<Rightarrow> (('s, 'z) polledDrv_scheme, unit) sm" where
  "measure_end hw start d =
     (if m_measure d \<noteq> 0
      then (case start of
              None \<Rightarrow> (Inl (Fault ''use of an uninitialised variable''), d)
            | Some t \<Rightarrow> bindS (hwS (clock_gettime hw)) (\<lambda>now d. (Inr (), measure_update (diff_ns now t) d)) d)
      else (Inr (), d))"

text \<open>
  The loop over the words of a message with \<open>nbits\<close> bits left: \<open>x32\<close> shifts up to 32 bits and returns
  TDO and the time it started.  \<open>p_in\<close> and \<open>p_out\<close> are the offsets of the pointers \<^verbatim>\<open>pi\<close> and \<^verbatim>\<open>po\<close>.
\<close>

definition serdes_word :: "('s, 'e) irq_env_scheme \<Rightarrow> (u32 \<Rightarrow> u32 \<Rightarrow> nat \<Rightarrow> (('s, 'z) polledDrv_scheme, u32 \<times> (int \<times> int) option) sm) \<Rightarrow>
    bool \<Rightarrow> u8 list \<Rightarrow> nat \<Rightarrow> nat \<Rightarrow> nat \<Rightarrow> (('s, 'z) polledDrv_scheme xst, unit) sm" where
  "serdes_word hw x32 le txb p_in p_out l =
     bindS (liftR (getw32 le (drop p_in txb))) (\<lambda>tms.
     bindS (liftR (getw32 le (drop (p_in + 4) txb))) (\<lambda>tdi.
     bindS (onD (x32 tms tdi l)) (\<lambda>(tdo, start).
     bindS (\<lambda>(hb, rx, d).
        case setw32 le (drop p_out rx) tdo ((l + 7) div 8) of
          Inl e \<Rightarrow> (Inl e, (hb, rx, d))
        | Inr r \<Rightarrow> (Inr (), (hb, take p_out rx @ r, d))) (\<lambda>_.
     onD (measure_end hw start)))))"

function serdes_loop :: "('s, 'e) irq_env_scheme \<Rightarrow> (u32 \<Rightarrow> u32 \<Rightarrow> nat \<Rightarrow> (('s, 'z) polledDrv_scheme, u32 \<times> (int \<times> int) option) sm) \<Rightarrow>
    bool \<Rightarrow> u8 list \<Rightarrow> nat \<Rightarrow> nat \<Rightarrow> nat \<Rightarrow> (('s, 'z) polledDrv_scheme xst, unit) sm" where
  "serdes_loop hw x32 le txb p_in p_out nbits =
     (if 0 < nbits then
        let l = (if nbits < 32 then nbits else 32)
        in bindS (serdes_word hw x32 le txb p_in p_out l)
             (\<lambda>_. serdes_loop hw x32 le txb (p_in + 8) (p_out + (l + 7) div 8) (nbits - l))
      else retS ())"
  by pat_completeness auto
termination
  by (relation "measure (\<lambda>(hw, x32, le, txb, p_in, p_out, nbits). nbits)") auto

declare serdes_loop.simps [simp del]

text \<open>
  The transfer of the serialiser drivers, which have to interpret the header themselves: the checks, the
  answer to a query, and the size of a shift.  \<open>start\<close> is what comes before the loop.
\<close>

definition serdes_body :: "('s, 'e) irq_env_scheme \<Rightarrow> (('s, 'z) polledDrv_scheme, unit) sm \<Rightarrow>
    (u32 \<Rightarrow> u32 \<Rightarrow> nat \<Rightarrow> (('s, 'z) polledDrv_scheme, u32 \<times> (int \<times> int) option) sm) \<Rightarrow>
    bool \<Rightarrow> nat \<Rightarrow> u8 list \<Rightarrow> u8 list \<Rightarrow> nat \<Rightarrow> nat \<Rightarrow> nat \<Rightarrow> (('s, 'z) polledDrv_scheme xst, int) sm" where
  "serdes_body hw start x32 le wsz hb txb txBytes hsize sz =
     bindS (liftR (getHdr le txb)) (\<lambda>hdr.
       if getVrs hdr \<noteq> PVER0 then throwS (RuntimeErr ''AxiDbgBridgeIP driver: xfer() found unexpected version'')
       else if hsize \<noteq> 4 then throwS (RuntimeErr ''AxiDbgBridgeIP driver: xfer() found unexpected header size'')
       else if getCmd hdr = CMD_Q then
         bindS (liftR (bindR (mkQueryReply PVER0 4 0 UNKNOWN_PERIOD) (\<lambda>h. setHdr le wsz hb h)))
           (\<lambda>hb' (_, rx, d). (Inr 4, (hb', rx, d)))
       else if getCmd hdr \<noteq> CMD_S then throwS (RuntimeErr ''AxiDbgBridgeIP driver: xfer() found unexpected command'')
       else
         bindS (liftR (getLen hdr)) (\<lambda>nbits.
           let nbytes = (nbits + 7) div 8; nwords = (nbytes + hsize - 1) div hsize in
           if txBytes < nwords * 2 * hsize then throwS (RuntimeErr ''AXI-DebugBridge IP: not enough input data'')
           else if sz < nbytes then throwS (RuntimeErr ''AXI-DebugBridge IP: output buffer too small'')
           else
             bindS (liftR (setHdr le wsz hb hdr)) (\<lambda>hb'.
             bindS (\<lambda>(_, rx, d). (Inr (), (hb', rx, d))) (\<lambda>_.
             bindS (onD start) (\<lambda>_.
             bindS (serdes_loop hw x32 le txb hsize 0 nbits) (\<lambda>_. retS (int nbytes)))))))"

definition serdes_xfer :: "('s, 'e) irq_env_scheme \<Rightarrow> (('s, 'z) polledDrv_scheme, unit) sm \<Rightarrow>
    (u32 \<Rightarrow> u32 \<Rightarrow> nat \<Rightarrow> (('s, 'z) polledDrv_scheme, u32 \<times> (int \<times> int) option) sm) \<Rightarrow>
    u8 list \<Rightarrow> nat \<Rightarrow> nat \<Rightarrow> nat \<Rightarrow> (('s, 'z) polledDrv_scheme xst, int) sm" where
  "serdes_xfer hw start x32 txb txBytes hsize sz x =
     (case x of (hb, rx, d) \<Rightarrow> serdes_body hw start x32 (isLE (m_host d)) (getWordSize d) hb txb txBytes hsize sz x)"

section \<open>Lemmas\<close>

lemma hwS_simp [simp]: "hwS f d = (Inr (fst (f (m_hw d))), d\<lparr>m_hw := snd (f (m_hw d))\<rparr>)"
  by (simp add: hwS_def split: prod.split)

lemma map_has_mono: "map_has m j \<Longrightarrow> i \<le> j \<Longrightarrow> map_has m i"
  by (simp add: map_has_def)

lemma map_io [simp]:
  "map_has m idx \<Longrightarrow> map_rd hw m idx d = (Inr (fst (mm_rd hw idx (m_hw d))), d\<lparr>m_hw := snd (mm_rd hw idx (m_hw d))\<rparr>)"
  "map_has m idx \<Longrightarrow> map_wr hw m idx v d = (Inr (), d\<lparr>m_hw := mm_wr hw idx v (m_hw d)\<rparr>)"
  by (simp_all add: map_rd_def map_wr_def)

text \<open>A poll ends when every round that finds the device busy decreases a measure.\<close>

lemma poll_ends:
  assumes "I d"
    and "\<And>d. I d \<Longrightarrow> \<exists>v d1. rd d = (Inr v, d1) \<and>
      (if busy v then \<exists>u d2. wt d1 = (Inr u, d2) \<and> I d2 \<and> (\<mu> d2 :: nat) < \<mu> d else Q v d1)"
  shows "\<exists>v d'. poll rd busy wt d = (Inr v, d') \<and> Q v d'"
proof -
  have "\<exists>v d'. poll_loop rd busy wt d = Some (Inr v, d') \<and> Q v d'"
    using assms(1)
  proof (induction "\<mu> d" arbitrary: d rule: less_induct)
    case less
    obtain v d1 where r: "rd d = (Inr v, d1)"
      "if busy v then \<exists>u d2. wt d1 = (Inr u, d2) \<and> I d2 \<and> \<mu> d2 < \<mu> d else Q v d1"
      using assms(2) [OF less.prems] by blast
    show ?case
    proof (cases "busy v")
      case True
      then obtain u d2 where "wt d1 = (Inr u, d2)" "I d2" "\<mu> d2 < \<mu> d" using r(2) by auto
      then show ?thesis using less.hyps [of d2] True r(1) by (simp add: poll_loop.simps [of rd busy wt d])
    qed (use r in \<open>simp add: poll_loop.simps [of rd busy wt d]\<close>)
  qed
  then show ?thesis by (auto simp: poll_def runS_def)
qed

text \<open>The same for hardware that counts down the readings for which it is busy.\<close>

lemma poll_count:
  fixes d :: "('s, 'z) regDrv_scheme"
  assumes "P (m_hw d)"
    and "\<And>s. P s \<Longrightarrow> \<exists>v s'. rd (d\<lparr>m_hw := s\<rparr>) = (Inr v, d\<lparr>m_hw := s'\<rparr>) \<and> P s' \<and> (busy v \<longleftrightarrow> cnt s \<noteq> (0 :: nat)) \<and>
      cnt s' = cnt s - 1 \<and> (cnt s = 0 \<longrightarrow> Q v s')"
    and "\<And>s. P s \<Longrightarrow> \<exists>s'. wt (d\<lparr>m_hw := s\<rparr>) = (Inr (), d\<lparr>m_hw := s'\<rparr>) \<and> P s' \<and> cnt s' \<le> cnt s"
  shows "\<exists>v s'. poll rd busy wt d = (Inr v, d\<lparr>m_hw := s'\<rparr>) \<and> P s' \<and> Q v s'"
proof -
  let ?I = "\<lambda>d'. \<exists>s. d' = d\<lparr>m_hw := s\<rparr> \<and> P s" and ?Q = "\<lambda>v d'. \<exists>s. d' = d\<lparr>m_hw := s\<rparr> \<and> P s \<and> Q v s"
  have "\<exists>v d'. poll rd busy wt d = (Inr v, d') \<and> ?Q v d'"
  proof (rule poll_ends [where I = ?I and \<mu> = "\<lambda>d'. cnt (m_hw d')"])
    show "?I d" using assms(1) by (intro exI [of _ "m_hw d"]) simp
  next
    fix d' assume "?I d'"
    then obtain s where s: "d' = d\<lparr>m_hw := s\<rparr>" "P s" by blast
    obtain v s1 where r: "rd (d\<lparr>m_hw := s\<rparr>) = (Inr v, d\<lparr>m_hw := s1\<rparr>)" "P s1" "busy v \<longleftrightarrow> cnt s \<noteq> 0" "cnt s1 = cnt s - 1" "cnt s = 0 \<longrightarrow> Q v s1"
      using assms(2) [OF s(2)] by (elim exE conjE) (rule that)
    obtain s2 where w: "wt (d\<lparr>m_hw := s1\<rparr>) = (Inr (), d\<lparr>m_hw := s2\<rparr>)" "P s2" "cnt s2 \<le> cnt s1" using assms(3) [OF r(2)] by (elim exE conjE) (rule that)
    show "\<exists>v d1. rd d' = (Inr v, d1) \<and>
        (if busy v then \<exists>u d2. wt d1 = (Inr u, d2) \<and> ?I d2 \<and> cnt (m_hw d2) < cnt (m_hw d') else ?Q v d1)"
    proof (cases "cnt s = 0")
      case True
      then have "?Q v (d\<lparr>m_hw := s1\<rparr>)" "\<not> busy v" using r by simp_all (rule exI [of _ s1], simp)
      then show ?thesis using r(1) s(1) by (intro exI [of _ v] exI [of _ "d\<lparr>m_hw := s1\<rparr>"]) simp
    next
      case False
      have "?I (d\<lparr>m_hw := s2\<rparr>)" using w(2) by (intro exI [of _ s2]) simp
      moreover have "cnt (m_hw (d\<lparr>m_hw := s2\<rparr>)) < cnt (m_hw d')" using False r(4) w(3) s(1) by simp
      ultimately have "\<exists>u d2. wt (d\<lparr>m_hw := s1\<rparr>) = (Inr u, d2) \<and> ?I d2 \<and> cnt (m_hw d2) < cnt (m_hw d')" using w(1) by blast
      then show ?thesis using False r(1,3) s(1) by auto
    qed
  qed
  then show ?thesis by blast
qed

lemma unat_add_small: "unat a + unat b < 2 ^ 64 \<Longrightarrow> unat (a + b) = unat a + unat (b :: u64)"
  by (simp add: unat_word_ariths)

lemma unat_pow64: "k < 64 \<Longrightarrow> unat (2 ^ k :: u64) = 2 ^ k"
proof -
  assume "k < 64"
  then have "(2 :: nat) ^ k < 2 ^ 64" by (rule power_strict_increasing) simp
  then have "take_bit 64 ((2 :: nat) ^ k) = 2 ^ k" by (rule take_bit_nat_eq_self)
  moreover have "unat (word_of_nat (2 ^ k) :: u64) = take_bit 64 (2 ^ k)" by (simp only: unsigned_of_nat) simp
  ultimately show ?thesis by simp
qed

lemma map_size:
  fixes off siz :: u64
  assumes "k \<le> 62" and "unat siz < 2 ^ 62"
  shows "unat (take_bit k off) + unat siz \<le> unat ((take_bit k off + siz + 2 ^ k - 1) div 2 ^ k * 2 ^ k)"
proof -
  define m where "m = take_bit k off + siz + (2 ^ k - 1)"
  have k62: "(2 :: nat) ^ k \<le> 2 ^ 62" using assms(1) by (rule power_increasing) simp
  have t: "unat (take_bit k off) < 2 ^ k" by (simp add: unsigned_take_bit_eq)
  have p: "unat (2 ^ k :: u64) = 2 ^ k" using unat_pow64 [of k] assms(1) by simp
  have "(1 :: u64) \<le> 2 ^ k" using p by (simp add: word_le_nat_alt)
  then have "unat (2 ^ k - 1 :: u64) = 2 ^ k - 1" using p by (simp add: unat_sub)
  moreover have "unat (take_bit k off + siz) = unat (take_bit k off) + unat siz"
    using assms(2) t k62 by (intro unat_add_small) simp
  ultimately have m: "unat m = unat (take_bit k off) + unat siz + (2 ^ k - 1)"
    unfolding m_def using assms(2) t k62 by (subst unat_add_small) simp_all
  have "unat m < 2 ^ LENGTH(64)" by (rule unsigned_less)
  then have lt: "unat m < 18446744073709551616" by simp
  have q: "unat m div 2 ^ k < 18446744073709551616" "unat m div 2 ^ k * 2 ^ k < 18446744073709551616"
    by (rule le_less_trans [OF div_le_dividend lt], rule le_less_trans [OF div_times_less_eq_dividend lt])
  then have "unat (m div 2 ^ k * 2 ^ k) = unat m div 2 ^ k * 2 ^ k"
    by (simp add: unat_word_ariths unat_div p)
  moreover have "unat (take_bit k off) + unat siz \<le> unat m div 2 ^ k * 2 ^ k"
  proof -
    have "unat m < unat m div 2 ^ k * 2 ^ k + 2 ^ k" using div_mult_mod_eq [of "unat m" "2 ^ k"] by (metis add_strict_left_mono mod_less_divisor zero_less_numeral zero_less_power)
    then show ?thesis using m by linarith
  qed
  ultimately show ?thesis by (simp add: m_def add_diff_eq)
qed

lemma memMap_new_covers:
  assumes "memMap_new env devnam siz = Inr m" and "sys_pagesize env = 2 ^ k" and "k \<le> 62" and "unat siz < 2 ^ 62"
  shows "unat (mp_off m) + unat siz \<le> unat (mp_siz m)"
proof -
  obtain nm off where "mp_off m = off AND (2 ^ k - 1)" "mp_siz m = (mp_off m + siz + 2 ^ k - 1) div 2 ^ k * 2 ^ k"
    using assms(1,2) by (auto simp: memMap_new_def Let_def split: if_splits)
  moreover have "off AND (2 ^ k - 1) = take_bit k off" by (simp add: take_bit_eq_mask mask_eq_exp_minus_1)
  ultimately show ?thesis using map_size [OF assms(3,4), of off] by simp
qed

subsection \<open>Invariants of the objects\<close>

text \<open>
  An invariant of the object that depends neither on the hardware nor on the counter of the test mode is
  kept by all accesses to the hardware, and the transfers keep it and the sizes of the buffers.
\<close>

definition xst_inv :: "nat \<Rightarrow> nat \<Rightarrow> ('d \<Rightarrow> bool) \<Rightarrow> 'd xst \<Rightarrow> bool" where
  "xst_inv nh nr I x \<longleftrightarrow> length (fst x) = nh \<and> length (fst (snd x)) = nr \<and> I (snd (snd x))"

lemma presS_onD [intro]: "presS I m \<Longrightarrow> presS (xst_inv nh nr I) (onD m)"
  by (rule presS_I) (auto simp: xst_inv_def onD_def split: prod.splits dest: presS_D)

lemma presS_put [intro]: "presS (xst_inv nh nr I) (put_hb i bs)" "presS (xst_inv nh nr I) (put_rx i bs)"
  by (rule presS_I, auto simp: xst_inv_def put_hb_def put_rx_def split: prod.splits sum.splits dest: wr_mem_length)+

lemma presS_tx_words [intro]: "(\<And>w. presS I (put w)) \<Longrightarrow> presS I (tx_words put le txb k i)"
  by (induction k arbitrary: i) (auto intro!: presS_bind)

lemma presS_rx_header [intro]: "presS I rd \<Longrightarrow> presS (xst_inv nh nr I) (rx_header rd le k i got)"
  by (induction k arbitrary: i got) (auto intro!: presS_bind presS_if)

lemma presS_rx_words [intro]: "presS I rd \<Longrightarrow> presS (xst_inv nh nr I) (rx_words rd le k i)"
  by (induction k arbitrary: i) (auto intro!: presS_bind)

lemma presS_rx_discard [intro]: "presS I rd \<Longrightarrow> presS (xst_inv nh nr I) (rx_discard rd k)"
  by (induction k) (auto intro!: presS_bind)

lemma poll_loop_inv:
  assumes "poll_loop rd busy wt d = Some x" and "presS I rd" and "presS I wt" and "I d"
  shows "I (snd x)"
proof -
  have "presS I rd \<longrightarrow> presS I wt \<longrightarrow> I d \<longrightarrow> I (snd x)"
  proof (rule poll_loop.raw_induct [OF _ assms(1)], intro impI)
    fix f :: "('a, u32) sm \<Rightarrow> (u32 \<Rightarrow> bool) \<Rightarrow> ('a, unit) sm \<Rightarrow> 'a \<Rightarrow> (u32 res \<times> 'a) option" and rd busy wt d x
    assume IH: "\<And>rd busy wt d x. f rd busy wt d = Some x \<Longrightarrow> presS I rd \<longrightarrow> presS I wt \<longrightarrow> I d \<longrightarrow> I (snd x)"
      and eq: "(case rd d of (Inl e, d1) \<Rightarrow> Some (Inl e, d1) | (Inr v, d1) \<Rightarrow> if busy v then
          (case wt d1 of (Inl e, d2) \<Rightarrow> Some (Inl e, d2) | (Inr _, d2) \<Rightarrow> f rd busy wt d2) else Some (Inr v, d1)) = Some x"
      and p: "presS I rd" "presS I wt" "I d"
    obtain r1 d1 where r: "rd d = (r1, d1)" by (cases "rd d")
    obtain r2 d2 where w: "wt d1 = (r2, d2)" by (cases "wt d1")
    have i: "I d1" "I d2" using presS_D [OF p(1,3) r] presS_D [OF p(2) _ w] by simp_all
    show "I (snd x)"
    proof (cases r1)
      case (Inr v)
      then show ?thesis using eq i IH [of rd busy wt d2 x] p r w by (cases "busy v"; cases r2) auto
    qed (use eq i r in auto)
  qed
  then show ?thesis using assms(2-4) by blast
qed

lemma presS_poll [intro]: "presS I rd \<Longrightarrow> presS I wt \<Longrightarrow> presS I (poll rd busy wt)"
  by (rule presS_I) (auto simp: poll_def runS_def split: option.splits dest: poll_loop_inv)

lemma setw32_length: "setw32 le buf w l = Inr b \<Longrightarrow> length b = length buf"
  by (auto simp: setw32_def Let_def dest: wr_mem_length)

lemma presS_serdes_word [intro]:
  assumes "\<And>tms tdi. presS I (x32 tms tdi l)" and "\<And>t. presS I (measure_end hw t)"
  shows "presS (xst_inv nh nr I) (serdes_word hw x32 le txb p_in p_out l)"
proof -
  have "presS (xst_inv nh nr I) (\<lambda>(hb, rx, d). case setw32 le (drop p_out rx) tdo n of
      Inl e \<Rightarrow> (Inl e, (hb, rx, d)) | Inr r \<Rightarrow> (Inr (), (hb, take p_out rx @ r, d)))" for tdo n
  proof (rule presS_I)
    fix x r x' assume a: "xst_inv nh nr I x" "(\<lambda>(hb, rx, d). case setw32 le (drop p_out rx) tdo n of
      Inl e \<Rightarrow> (Inl e, (hb, rx, d)) | Inr r \<Rightarrow> (Inr (), (hb, take p_out rx @ r, d))) x = (r, x')"
    obtain hb rx d where x: "x = (hb, rx, d)" by (cases x)
    show "xst_inv nh nr I x'"
      using a setw32_length [of le "drop p_out rx" tdo n] by (auto simp: x xst_inv_def split: sum.splits)
  qed
  then show ?thesis unfolding serdes_word_def using assms by (auto intro!: presS_bind split: prod.split)
qed

lemma presS_serdes_loop [intro]:
  assumes "\<And>tms tdi l. presS I (x32 tms tdi l)" and "\<And>t. presS I (measure_end hw t)"
  shows "presS (xst_inv nh nr I) (serdes_loop hw x32 le txb p_in p_out nbits)"
proof (induction nbits arbitrary: p_in p_out rule: less_induct)
  case (less nbits)
  show ?case using less.IH assms
    by (subst serdes_loop.simps) (auto intro!: presS_if presS_bind presS_serdes_word simp: Let_def)
qed

lemma presS_serdes_xfer [intro]:
  assumes "\<And>tms tdi l. presS I (x32 tms tdi l)" and "\<And>t. presS I (measure_end hw t)" and "presS I start"
  shows "presS (xst_inv nh nr I) (serdes_xfer hw start x32 txb txBytes hsize sz)"
proof (rule presS_I)
  fix x r x' assume a: "xst_inv nh nr I x" "serdes_xfer hw start x32 txb txBytes hsize sz x = (r, x')"
  obtain hb rx d where x: "x = (hb, rx, d)" by (cases x)
  have hb [intro]: "presS (xst_inv nh nr I) (\<lambda>(_, rx, d). (r, (hb', rx, d)))" if "length hb' = length hb" for r :: "'r res" and hb'
    using that a(1) by (auto simp: presS_def xst_inv_def x)
  have "presS (xst_inv nh nr I) (serdes_body hw start x32 le wsz hb txb txBytes hsize sz)" for le wsz
    unfolding serdes_body_def Let_def
    by (rule presS_lift_bind presS_if(1) presS_bind presS_pure presS_onD presS_serdes_loop assms hb | (auto dest: setHdr_length; fail))+
  then show "xst_inv nh nr I x'" using a presS_D unfolding x serdes_xfer_def prod.case by metis
qed

lemma io_xfer_inv:
  assumes "presS (xst_inv (length hb) (length rx) I) (f txb n hs sz)" and "I d" and "io_xfer f txb n hb hs rx sz d = ((r, hb', rx'), d')"
  shows "length hb' = length hb \<and> length rx' = length rx \<and> I d'"
proof -
  obtain r1 hb1 rx1 d1 where x: "f txb n hs sz (hb, rx, d) = (r1, (hb1, rx1, d1))" by (metis prod_cases4)
  have "xst_inv (length hb) (length rx) I (hb, rx, d)" using assms(2) by (simp add: xst_inv_def)
  from presS_D [OF assms(1) this x] show ?thesis using assms(3) x by (simp add: io_xfer_def xst_inv_def)
qed

locale reg_inv =
  fixes I :: "('s, 'z) regDrv_scheme \<Rightarrow> bool"
  assumes inv_hw: "I d \<Longrightarrow> I (d\<lparr>m_hw := s\<rparr>)" and inv_drop: "I d \<Longrightarrow> I (d\<lparr>m_drop := n\<rparr>)"
begin

lemma pres_hwS [intro]: "presS I (hwS f)"
  by (rule presS_I) (auto intro: inv_hw)

lemma pres_map [intro]: "presS I (map_rd hw m idx)" "presS I (map_wr hw m idx v)"
  unfolding map_rd_def map_wr_def by (auto intro!: presS_if)

lemma pres_sleep [intro]: "presS I (sleepS hw ns)"
  unfolding sleepS_def by (rule pres_hwS)

lemma pres_irq [intro]: "presS I (irq_wait hw)"
  unfolding irq_wait_def by (auto intro!: presS_bind presS_if split: prod.split)

lemma pres_drop [intro]: "presS I drop_test"
  by (rule presS_I) (auto simp: drop_test_def Let_def intro: inv_drop split: if_splits)

lemma pres_rx_reply [intro]: "presS I rd \<Longrightarrow> presS (xst_inv nh nr I) (rx_reply rd le hsize got sz)"
  unfolding rx_reply_def rx_payload_def Let_def by (auto intro!: presS_if presS_bind)

end

subsection \<open>The mapped window\<close>

text \<open>
  A mapping of a device file covers the registers asked for: the window that is mapped starts at a
  multiple of the page size, contains the offset given and at least the number of bytes asked for.
\<close>

lemma memMap_window:
  assumes "memMap_new env devnam siz = Inr m" and "sys_pagesize env = 2 ^ k" and "k \<le> 62" and "unat siz < 2 ^ 62"
    and "map_target devnam = Inr (nm, off)"
  shows "mp_pos m + mp_off m = off \<and> take_bit k (mp_pos m) = 0 \<and> unat (mp_off m) + unat siz \<le> unat (mp_siz m)"
proof -
  have m: "mp_off m = take_bit k off" "mp_pos m = off - take_bit k off"
    using assms(1,2,5) by (auto simp: memMap_new_def Let_def take_bit_eq_mask mask_eq_exp_minus_1 split: if_splits)
  have "off - take_bit k off = push_bit k (drop_bit k off)"
    by (metis add_diff_cancel_right' bits_ident)
  then have "take_bit k (mp_pos m) = 0" by (simp add: m(2) take_bit_push_bit)
  then show ?thesis using memMap_new_covers [OF assms(1-4)] by (simp add: m)
qed

end
