(* ===== verification/Stream_Driver.thy ===== *)
theory Stream_Driver
  imports Xvc_Driver
begin

text \<open>
  Drivers that derive from \<^verbatim>\<open>JtagDriverAxisToJtag\<close>: a transport and a target that together answer
  queries and shifts make a driver that is a faithful wire to the device behind them.
\<close>

section \<open>Specification\<close>

text \<open>The states of the base class in which vectors of \<open>vlim\<close> bytes can be sent to a target with word size \<open>w\<close>.\<close>

definition base_valid :: "nat \<Rightarrow> nat \<Rightarrow> u32 \<Rightarrow> 'a axisToJtag_scheme \<Rightarrow> bool" where
  "base_valid w vlim per d \<longleftrightarrow>
     drv_wf d \<and> m_wordSize d = w \<and> \<not> getSniff d \<and> m_periodNs d = per \<and> msg_size w vlim \<le> m_bufSz d"

text \<open>The answer to a request for the period \<open>p\<close> of a target that reports the period \<open>per\<close>.\<close>

definition period_reply :: "u32 \<Rightarrow> u32 \<Rightarrow> u32" where
  "period_reply per p = (if p = 0 \<or> per \<noteq> UNKNOWN_PERIOD then per else p)"

text \<open>The bytes of every second word from offset \<open>p\<close>: one of the two vectors of a message.\<close>

primrec word_bytes :: "u8 list \<Rightarrow> nat \<Rightarrow> nat \<Rightarrow> u8 list" where
  "word_bytes tx p 0 = []"
| "word_bytes tx p (Suc k) = take 4 (drop p tx) @ word_bytes tx (p + 8) k"

section \<open>Lemmas\<close>

lemma length_word_bytes: "p + 8 * k \<le> length tx + 4 \<Longrightarrow> length (word_bytes tx p k) = 4 * k"
  by (induction k arbitrary: p) simp_all

lemma nth_word_bytes:
  "p + 8 * k \<le> length tx + 4 \<Longrightarrow> j < 4 * k \<Longrightarrow> word_bytes tx p k ! j = tx ! (p + 8 * (j div 4) + j mod 4)"
proof (induction k arbitrary: p j)
  case (Suc k)
  show ?case
  proof (cases "j < 4")
    case True
    then show ?thesis using Suc.prems by (simp add: nth_append)
  next
    case False
    then have "word_bytes tx p (Suc k) ! j = tx ! (p + 8 + 8 * ((j - 4) div 4) + (j - 4) mod 4)"
      using Suc.prems Suc.IH [of "p + 8" "j - 4"] by (simp add: nth_append)
    moreover obtain i where "j = i + 4" using False by (metis add.commute le_add_diff_inverse not_less)
    ultimately show ?thesis by (simp add: add.assoc)
  qed
qed simp

lemma shift_msg_vectors:
  assumes "shift_msg 4 h n tms tdi tx" and "n \<le> length tms" and "n \<le> length tdi" and "k = (n + 3) div 4"
  shows "take n (word_bytes tx 4 k) = take n tms" and "take n (word_bytes tx 8 k) = take n tdi" and "4 + 8 * k \<le> length tx"
proof -
  show len: "4 + 8 * k \<le> length tx" using assms(1,4) by (simp add: shift_msg_def msg_size_def add.commute)
  have n: "n \<le> 4 * k" using assms(4) by simp
  have pos: "tx ! (4 + 8 * (j div 4) + j mod 4) = tms ! j" "tx ! (8 + 8 * (j div 4) + j mod 4) = tdi ! j" if "j < n" for j
    using assms(1) that by (auto simp: shift_msg_def tms_pos_def tdi_pos_def)
  show "take n (word_bytes tx 4 k) = take n tms" "take n (word_bytes tx 8 k) = take n tdi"
    using len n assms(2,3) pos
    by (auto intro!: nth_equalityI simp: length_word_bytes nth_word_bytes)
qed

lemma take_bits_cong: "bits \<le> 8 * n \<Longrightarrow> take n xs = take n ys \<Longrightarrow> take bits (bits_of_bytes xs) = take bits (bits_of_bytes ys)"
  by (drule min_absorb1) (metis take_bits_of_bytes take_take)

lemma drv_frame_eqs:
  assumes "drv_frame d' = drv_frame d"
  shows "m_debug d' = m_debug d" "m_host d' = m_host d" "m_wordSize d' = m_wordSize d" "m_memDepth d' = m_memDepth d"
    "m_txBuf d' = m_txBuf d" "m_bufSz d' = m_bufSz d" "m_xid d' = m_xid d" "m_periodNs d' = m_periodNs d" "m_retry d' = m_retry d"
  using assms by (simp_all add: drv_frame_def)

lemma period_reply_unknown [simp]: "period_reply UNKNOWN_PERIOD = (\<lambda>p. p)"
  by (auto simp: period_reply_def UNKNOWN_PERIOD_def)

lemma msg_size_mono: "0 < w \<Longrightarrow> m \<le> n \<Longrightarrow> msg_size w m \<le> msg_size w n"
  unfolding msg_size_def by (intro add_left_mono mult_le_mono div_le_mono diff_le_mono add_right_mono order_refl) simp_all

lemma more_upd [simp]:
  "axisToJtag.more (d\<lparr>m_xid := x, m_txBuf := tx\<rparr>) = axisToJtag.more d"
  "axisToJtag.more (d\<lparr>m_txBuf := tx\<rparr>) = axisToJtag.more d"
  "axisToJtag.more (d\<lparr>m_hdBuf := hb\<rparr>) = axisToJtag.more d"
  by simp_all

lemma more_query_update:
  "query_update h d = (r, d') \<Longrightarrow> axisToJtag.more d' = axisToJtag.more d \<and> m_host d' = m_host d \<and> m_drEn d' = m_drEn d \<and>
    m_xid d' = m_xid d \<and> (\<forall>n. r = Inr n \<longrightarrow> m_retry d' = (if memDepth h = 0 then 0 else 5))"
  by (auto simp: query_update_def Let_def split: if_splits)

subsection \<open>Reliable transfers to a target\<close>

text \<open>
  The laws of the transfers that the base class makes: \<open>good\<close> and \<open>dev\<close> look only at the host, the test mode, the transaction id, the number
  of retries and at what the subclass adds to the object; a query gives the header \<open>hq\<close>, a shift with the next
  transaction id the TDO bits of the device, and a message of another protocol version with an unknown command an error.
\<close>

locale reliable_driver =
  fixes xf :: "'a axisToJtag_scheme xfer_fn" and maxVec :: "'a axisToJtag_scheme \<Rightarrow> nat"
    and good :: "'a axisToJtag_scheme \<Rightarrow> bool" and dev :: "'a axisToJtag_scheme \<Rightarrow> 's"
    and step :: "bool \<times> bool \<Rightarrow> 's \<Rightarrow> bool \<times> 's" and w :: nat and hq :: u32 and vlim :: nat
  assumes rel_w: "4 \<le> w" "w \<le> 16" "vlim \<le> 2 ^ 17"
    and rel_hq: "getErr hq = 0" "wordSize hq = w"
    and rel_more: "axisToJtag.more d' = axisToJtag.more d \<Longrightarrow> m_host d' = m_host d \<Longrightarrow> m_drEn d' = m_drEn d \<Longrightarrow> m_xid d' = m_xid d \<Longrightarrow>
      m_retry d' = m_retry d \<or> m_retry d' = (if memDepth hq = 0 then 0 else 5) \<Longrightarrow> good d \<Longrightarrow> good d' \<and> dev d' = dev d"
    and rel_query: "good d \<Longrightarrow> m_wordSize d = u \<Longrightarrow> u = 4 \<or> u = w \<Longrightarrow> u \<le> length tx \<Longrightarrow>
      take u tx = le_bytes32 mkQuery @ replicate (u - 4) 0 \<Longrightarrow> length (m_hdBuf d) = hdBufMax \<Longrightarrow>
      \<exists>got d'. xferRel xf tx u [] 0 d = ((Inr (got, hq), []), d') \<and> length (m_hdBuf d') = hdBufMax \<and>
        drv_frame d' = drv_frame d \<and> good d' \<and> dev d' = dev d"
    and rel_shift: "good d \<Longrightarrow> m_wordSize d = w \<Longrightarrow> length (m_hdBuf d) = hdBufMax \<Longrightarrow> shift_msg w h n tms tdi tx \<Longrightarrow>
      n \<le> length tms \<Longrightarrow> n \<le> length tdi \<Longrightarrow> getVrs h = PVER0 \<Longrightarrow> getCmd h = CMD_S \<Longrightarrow> getXid h = next_xid (m_xid d) \<Longrightarrow>
      getLen h = Inr bits \<Longrightarrow> n = (bits + 7) div 8 \<Longrightarrow> n \<le> vlim \<Longrightarrow> n \<le> length rx \<Longrightarrow>
      d1 = d\<lparr>m_xid := next_xid (m_xid d), m_txBuf := tx\<rparr> \<Longrightarrow>
      \<exists>got hr rx' d'. xferRel xf tx (msg_size w n) rx n d1 = ((Inr (got, hr), rx'), d') \<and> length (m_hdBuf d') = hdBufMax \<and>
        drv_frame d' = drv_frame d1 \<and> good d' \<and> length rx' = length rx \<and> drop n rx' = drop n rx \<and>
        (take bits (bits_of_bytes rx'), dev d') =
          dev_run step (zip (take bits (bits_of_bytes tms)) (take bits (bits_of_bytes tdi))) (dev d)"
    and rel_version: "good d \<Longrightarrow> m_wordSize d = w \<Longrightarrow> length (m_hdBuf d) = hdBufMax \<Longrightarrow> w \<le> length tx \<Longrightarrow>
      take w tx = le_bytes32 h @ replicate (w - 4) 0 \<Longrightarrow> getVrs h \<noteq> PVER0 \<and> getCmd h \<notin> {CMD_Q, CMD_S} \<Longrightarrow> d1 = d\<lparr>m_xid := next_xid (m_xid d), m_txBuf := tx\<rparr> \<Longrightarrow>
      \<exists>e rx' d'. xferRel xf tx w rx 0 d1 = ((Inl e, rx'), d') \<and> length rx' = length rx \<and> no_fault (Inl e :: unit res)"
begin

abbreviation valid :: "'a axisToJtag_scheme \<Rightarrow> bool" where
  "valid d \<equiv> base_valid w vlim (cvtPerNs hq) d \<and> good d"

lemma query_init:
  assumes "drv_wf d" and "m_wordSize d = u" and "u = 4 \<or> u = w" and "\<not> getSniff d"
    and "msg_size w vlim \<le> max (m_bufSz d) ((2 * memDepth hq + 1) * w)" and "good d"
  shows "\<exists>d'. query xf d = (Inr (memDepth hq * w), d') \<and> valid d' \<and> dev d' = dev d \<and>
    m_bufSz d' = max (m_bufSz d) ((2 * memDepth hq + 1) * w)"
proof -
  have b: "length (m_txBuf d) = m_bufSz d" "length (m_hdBuf d) = hdBufMax" "u < 2 ^ 32" "u \<le> length (m_txBuf d)" "4 \<le> u" "u \<le> 16"
    using assms(1-3) rel_w by (auto simp: drv_wf_def)
  define tx where "tx = le_bytes32 mkQuery @ replicate (u - 4) 0 @ drop u (m_txBuf d)"
  have set: "setHdr (isLE (m_host d)) u (m_txBuf d) mkQuery = Inr tx"
    using setHdr_le [OF b(5,3,4)] by (simp add: tx_def)
  have tx: "u \<le> length tx" "take u tx = le_bytes32 mkQuery @ replicate (u - 4) 0"
    using b(5) by (simp_all add: tx_def)
  define d1 where "d1 = d\<lparr>m_txBuf := tx\<rparr>"
  have d1: "good d1" "m_wordSize d1 = u" "length (m_hdBuf d1) = hdBufMax" "dev d1 = dev d"
    using assms(2,6) b(2) rel_more [of d1 d] by (simp_all add: d1_def)
  obtain got d3 where x: "xferRel xf tx u [] 0 d1 = ((Inr (got, hq), []), d3)"
    and f: "length (m_hdBuf d3) = hdBufMax" "drv_frame d3 = drv_frame d1" "good d3" "dev d3 = dev d1"
    using rel_query [OF d1(1,2) assms(3) tx d1(3)] by blast
  then have q: "query xf d = query_update hq d3"
    using set assms(2) by (simp add: query_def getWordSize_def d1_def [symmetric])
  have d3: "length (m_txBuf d3) = m_bufSz d3" "length (m_hdBuf d3) = hdBufMax" "2048 \<le> m_bufSz d3" "m_debug d3 = m_debug d"
    "m_bufSz d3 = m_bufSz d"
    using drv_frame_eqs [OF f(2)] f(1) b(1,4) assms(1,2) by (simp_all add: d1_def tx_def drv_wf_def)
  have mul: "memDepth hq * w \<le> 2 ^ 16 * 16" using memDepth_bound [of hq] rel_w(2) by (intro mult_le_mono) simp_all
  then have "(2 * memDepth hq + 1) * w < 2 ^ 32" using rel_w(2) by (simp add: algebra_simps)
  moreover have "memDepth hq * w < 2 ^ 32" using mul by simp
  ultimately have siz: "c_unsigned ((2 * memDepth hq + 1) * w) = (2 * memDepth hq + 1) * w"
    "c_unsigned (memDepth hq * w) = memDepth hq * w" by (simp_all only: c_unsigned_less)
  obtain d4 where u: "query_update hq d3 = (Inr (memDepth hq * w), d4)" and v: "base_valid w vlim (cvtPerNs hq) d4"
    and sz: "m_bufSz d4 = max (m_bufSz d) ((2 * memDepth hq + 1) * w)"
    using d3 siz rel_hq(2) rel_w memDepth_bound [of hq] assms(4,5)
    by (auto simp: query_update_def Let_def base_valid_def drv_wf_def getSniff_def)
  have "axisToJtag.more d4 = axisToJtag.more d3" "m_host d4 = m_host d3" "m_drEn d4 = m_drEn d3" "m_xid d4 = m_xid d3"
    "m_retry d4 = (if memDepth hq = 0 then 0 else 5)" using more_query_update [OF u] by simp_all
  with v f d1(4) sz rel_more [of d4 d3] show ?thesis using q u by auto
qed

lemma query_ok:
  assumes "drv_wf d" and "m_wordSize d = w" and "\<not> getSniff d" and "msg_size w vlim \<le> m_bufSz d" and "good d"
  shows "\<exists>d'. query xf d = (Inr (memDepth hq * w), d') \<and> valid d' \<and> dev d' = dev d \<and>
    m_bufSz d' = max (m_bufSz d) ((2 * memDepth hq + 1) * w)"
  using query_init [OF assms(1,2) disjI2 [OF refl] assms(3) _ assms(5)] assms(4) by simp

lemma send_ok:
  assumes "valid d" and "1 \<le> bits" and "n = (bits + 7) div 8" and "n \<le> vlim"
    and "n \<le> length tms" and "n \<le> length tdi" and "n \<le> length tdo"
  shows "\<exists>tdo' d'. sendVectors xf bits tms tdi tdo d = ((Inr (), tdo'), d') \<and> valid d' \<and> length tdo' = length tdo \<and>
    drop n tdo' = drop n tdo \<and>
    (take bits (bits_of_bytes tdo'), dev d') =
      dev_run step (zip (take bits (bits_of_bytes tms)) (take bits (bits_of_bytes tdi))) (dev d)"
proof -
  have bv: "drv_wf d" "w = m_wordSize d" "\<not> getSniff d" "m_periodNs d = cvtPerNs hq" "msg_size w vlim \<le> m_bufSz d" "good d"
    using assms(1) by (simp_all add: base_valid_def)
  have "n \<le> 131072" using assms(4) rel_w(3) by simp
  then have b20: "bits \<le> 2 ^ 20" unfolding assms(3) by simp
  have b32: "bits < 2 ^ 32" and ub: "unat (word_of_nat bits :: u32) = bits"
    using b20 by (simp_all add: unat_u32_of_nat)
  define h where "h = fst (mkShift (word_of_nat bits) (m_xid d))"
  note f = mkShift_fields [of "word_of_nat bits" "m_xid d", folded h_def, unfolded ub, OF assms(2) b20]
  have fits: "msg_size w n \<le> length (m_txBuf d)"
    using msg_size_mono [OF _ assms(4), of w] rel_w(1) bv(1,5) by (simp add: drv_wf_def)
  obtain tx where len: "length tx = length (m_txBuf d)" and msg: "shift_msg w h n tms tdi tx"
    and send: "sendVectors xf bits tms tdi tdo d = send_sniff bits tms tdi
      (xferRel xf tx (msg_size w n) tdo n (d\<lparr>m_xid := next_xid (m_xid d), m_txBuf := tx\<rparr>))"
    using sendVectors_msg [OF b32 assms(3) bv(2) rel_w(1,2) assms(5,6) fits, folded h_def] by blast
  define d1 where "d1 = d\<lparr>m_xid := next_xid (m_xid d), m_txBuf := tx\<rparr>"
  have hd: "length (m_hdBuf d) = hdBufMax" using bv(1) by (simp add: drv_wf_def)
  obtain got hr rx d3 where x: "xferRel xf tx (msg_size w n) tdo n d1 = ((Inr (got, hr), rx), d3)"
    and d3: "length (m_hdBuf d3) = hdBufMax" "drv_frame d3 = drv_frame d1" "good d3" and rx: "length rx = length tdo" "drop n rx = drop n tdo"
    "(take bits (bits_of_bytes rx), dev d3) =
      dev_run step (zip (take bits (bits_of_bytes tms)) (take bits (bits_of_bytes tdi))) (dev d)"
    using rel_shift [OF bv(6) bv(2) [symmetric] hd msg assms(5,6) f(1-4) assms(3,4,7) d1_def] by auto
  moreover have "\<not> getSniff d3" using drv_frame_eqs(1) [OF d3(2)] bv(3) by (simp add: d1_def getSniff_def)
  ultimately have s: "sendVectors xf bits tms tdi tdo d = ((Inr (), rx), d3)"
    using send by (simp add: d1_def [symmetric] send_sniff_def)
  have "base_valid w vlim (cvtPerNs hq) d3"
    using drv_frame_eqs [OF d3(2)] bv d3(1) len by (simp add: d1_def base_valid_def drv_wf_def getSniff_def)
  then show ?thesis using s rx d3(3) by auto
qed

lemma send_zero_fails:
  assumes "valid d"
  shows "\<exists>e tdo' d'. sendVectors xf 0 tms tdi tdo d = ((Inl e, tdo'), d') \<and> no_fault (Inl e :: unit res) \<and> length tdo' = length tdo"
proof -
  have bv: "drv_wf d" "w = m_wordSize d" "good d" using assms by (simp_all add: base_valid_def)
  define h where "h = fst (mkShift 0 (m_xid d))"
  have "h = - 1" by (rule bit_word_eqI) (simp add: h_def bit_mkShift)
  then have v: "getVrs h \<noteq> PVER0 \<and> getCmd h \<notin> {CMD_Q, CMD_S}" by (simp add: getVrs_def getCmd_def hdr_defs)
  have fits: "msg_size w 0 \<le> length (m_txBuf d)" using bv(1) rel_w by (simp add: drv_wf_def msg_size_def)
  obtain tx where msg: "shift_msg w h 0 tms tdi tx"
    and send: "sendVectors xf 0 tms tdi tdo d = send_sniff 0 tms tdi
      (xferRel xf tx (msg_size w 0) tdo 0 (d\<lparr>m_xid := next_xid (m_xid d), m_txBuf := tx\<rparr>))"
    using sendVectors_msg [OF _ _ bv(2) rel_w(1,2) _ _ fits, of 0 tms tdi xf tdo] by (auto simp: h_def)
  have sz: "msg_size w 0 = w" using rel_w(1) by (simp add: msg_size_def)
  have tx: "w \<le> length tx" "take w tx = le_bytes32 h @ replicate (w - 4) 0" using msg sz by (simp_all add: shift_msg_def)
  have hd: "length (m_hdBuf d) = hdBufMax" using bv(1) by (simp add: drv_wf_def)
  obtain e rx d2 where "xferRel xf tx w tdo 0 (d\<lparr>m_xid := next_xid (m_xid d), m_txBuf := tx\<rparr>) = ((Inl e, rx), d2)" "length rx = length tdo"
    "no_fault (Inl e :: unit res)"
    using rel_version [OF bv(3) bv(2) [symmetric] hd tx v refl, of tdo] by blast
  then show ?thesis using send sz by (simp add: send_sniff_def)
qed

sublocale serial_driver "axisToJtag_ops xf maxVec" valid vlim dev step "period_reply (cvtPerNs hq)"
proof
  fix d q d' assume "valid d" "op_query (axisToJtag_ops xf maxVec) d = (q, d')"
  then show "no_fault q" using query_ok [of d] by (auto simp: axisToJtag_ops_def base_valid_def)
next
  fix d n d' assume "valid d" "op_query (axisToJtag_ops xf maxVec) d = (Inr n, d')"
  then show "valid d'" using query_ok [of d] by (auto simp: axisToJtag_ops_def base_valid_def)
next
  fix d bits tms tdi tdo r tdo' d'
  assume a: "valid d" "(bits + 7) div 8 \<le> vlim" "(bits + 7) div 8 \<le> length tms" "(bits + 7) div 8 \<le> length tdi"
    "(bits + 7) div 8 \<le> length tdo" "op_sendVectors (axisToJtag_ops xf maxVec) bits tms tdi tdo d = ((r, tdo'), d')"
  show "no_fault r \<and> length tdo' = length tdo"
  proof (cases "bits = 0")
    case True
    then show ?thesis using send_zero_fails [OF a(1), of tms tdi tdo] a(6) by (auto simp: axisToJtag_ops_def no_fault_Inl)
  next
    case False
    then show ?thesis using send_ok [OF a(1) _ refl a(2-5)] a(6) by (auto simp: axisToJtag_ops_def)
  qed
next
  fix d bits tms tdi tdo tdo' d'
  assume a: "valid d" "(bits + 7) div 8 \<le> vlim" "(bits + 7) div 8 \<le> length tms" "(bits + 7) div 8 \<le> length tdi"
    "(bits + 7) div 8 \<le> length tdo" "op_sendVectors (axisToJtag_ops xf maxVec) bits tms tdi tdo d = ((Inr (), tdo'), d')"
  show "valid d'"
  proof (cases "bits = 0")
    case True
    then show ?thesis using send_zero_fails [OF a(1), of tms tdi tdo] a(6) by (auto simp: axisToJtag_ops_def)
  next
    case False
    then show ?thesis using send_ok [OF a(1) _ refl a(2-5)] a(6) by (auto simp: axisToJtag_ops_def)
  qed
next
  fix d tms tdi tdo assume "valid d"
  from send_zero_fails [OF this, of tms tdi tdo]
  show "fst (fst (op_sendVectors (axisToJtag_ops xf maxVec) 0 tms tdi tdo d)) \<noteq> Inr ()" by (auto simp: axisToJtag_ops_def)
next
  fix d assume "valid d"
  then show "\<exists>n d'. op_query (axisToJtag_ops xf maxVec) d = (Inr n, d') \<and> dev d' = dev d"
    using query_ok [of d] by (auto simp: axisToJtag_ops_def base_valid_def)
next
  fix d p assume "valid d"
  then show "op_setPeriodNs (axisToJtag_ops xf maxVec) p d = period_reply (cvtPerNs hq) p"
    by (simp add: axisToJtag_ops_def base_valid_def setPeriodNs_def getPeriodNs_def period_reply_def Let_def UNKNOWN_PERIOD_def)
next
  fix d bits n and tms tdi tdo :: "u8 list"
  assume a: "valid d" "1 \<le> bits" "n = (bits + 7) div 8" "n \<le> vlim" "n \<le> length tms" "n \<le> length tdi" "n \<le> length tdo"
  from send_ok [OF a]
  show "\<exists>tdo' d'. op_sendVectors (axisToJtag_ops xf maxVec) bits tms tdi tdo d = ((Inr (), tdo'), d') \<and> drop n tdo' = drop n tdo \<and>
      (take bits (bits_of_bytes tdo'), dev d') =
        dev_run step (zip (take bits (bits_of_bytes tms)) (take bits (bits_of_bytes tdi))) (dev d)"
    by (auto simp: axisToJtag_ops_def)
qed

lemma rel_serial: "serial_driver (axisToJtag_ops xf maxVec) valid vlim dev step (period_reply (cvtPerNs hq))"
  by unfold_locales

lemma rel_init:
  assumes "drv_wf d" and "m_wordSize d = 4" and "\<not> getSniff d"
    and "msg_size w vlim \<le> max (m_bufSz d) ((2 * memDepth hq + 1) * w)" and "good d"
  shows "\<exists>d'. init_drv xf d = (Inr (), d') \<and> valid d' \<and> dev d' = dev d"
  using query_init [OF assms(1,2) disjI1 [OF refl] assms(3-5)] by (auto simp: init_drv_def)

end

subsection \<open>A transport with a target\<close>

text \<open>
  The laws: \<open>good\<close> and \<open>dev\<close> look only at the host, the test mode and at what the subclass adds to the object; a query is answered with
  the header \<open>hq\<close>, a shift with a header of the same transaction and the TDO bits of the device, and a
  message of another protocol version with an error.
\<close>

locale stream_driver =
  fixes xf :: "'a axisToJtag_scheme xfer_fn" and maxVec :: "'a axisToJtag_scheme \<Rightarrow> nat"
    and good :: "'a axisToJtag_scheme \<Rightarrow> bool" and dev :: "'a axisToJtag_scheme \<Rightarrow> 's"
    and step :: "bool \<times> bool \<Rightarrow> 's \<Rightarrow> bool \<times> 's" and w :: nat and hq :: u32 and vlim :: nat
  assumes w_ok: "4 \<le> w" "w \<le> 16" "vlim \<le> 2 ^ 17"
    and hq_ok: "getErr hq = 0" "wordSize hq = w"
    and good_more: "axisToJtag.more d' = axisToJtag.more d \<Longrightarrow> m_host d' = m_host d \<Longrightarrow> m_drEn d' = m_drEn d \<Longrightarrow> good d' = good d"
    and dev_more: "axisToJtag.more d' = axisToJtag.more d \<Longrightarrow> m_host d' = m_host d \<Longrightarrow> m_drEn d' = m_drEn d \<Longrightarrow> dev d' = dev d"
    and query_law: "good d \<Longrightarrow> m_wordSize d = u \<Longrightarrow> u = 4 \<or> u = w \<Longrightarrow> u \<le> length tx \<Longrightarrow>
      take u tx = le_bytes32 mkQuery @ replicate (u - 4) 0 \<Longrightarrow> length hb = hdBufMax \<Longrightarrow>
      \<exists>got hb' d'. xf tx u hb u [] 0 d = ((Inr got, hb', []), d') \<and> length hb' = hdBufMax \<and> take 4 hb' = le_bytes32 hq \<and>
        drv_frame d' = drv_frame d \<and> good d' \<and> dev d' = dev d"
    and shift_law: "good d \<Longrightarrow> m_wordSize d = w \<Longrightarrow> shift_msg w h n tms tdi tx \<Longrightarrow> n \<le> length tms \<Longrightarrow> n \<le> length tdi \<Longrightarrow>
      getVrs h = PVER0 \<Longrightarrow> getCmd h = CMD_S \<Longrightarrow> getLen h = Inr bits \<Longrightarrow> n = (bits + 7) div 8 \<Longrightarrow> n \<le> vlim \<Longrightarrow>
      n \<le> length rx \<Longrightarrow> length hb = hdBufMax \<Longrightarrow>
      \<exists>got hb' rx' d'. xf tx (msg_size w n) hb w rx n d = ((Inr got, hb', rx'), d') \<and> length hb' = hdBufMax \<and>
        getErr (le_word32 (take 4 hb')) = 0 \<and> getXid (le_word32 (take 4 hb')) = getXid h \<and>
        drv_frame d' = drv_frame d \<and> good d' \<and> length rx' = length rx \<and> drop n rx' = drop n rx \<and>
        (take bits (bits_of_bytes rx'), dev d') =
          dev_run step (zip (take bits (bits_of_bytes tms)) (take bits (bits_of_bytes tdi))) (dev d)"
    and version_law: "good d \<Longrightarrow> m_wordSize d = w \<Longrightarrow> w \<le> length tx \<Longrightarrow> take w tx = le_bytes32 h @ replicate (w - 4) 0 \<Longrightarrow>
      getVrs h \<noteq> PVER0 \<Longrightarrow> length hb = hdBufMax \<Longrightarrow>
      \<exists>r hb' rx' d' e. xf tx w hb w rx 0 d = ((r, hb', rx'), d') \<and> length rx' = length rx \<and>
        outcome_of (getXid h) (isLE (m_host d')) r hb' = Fail e \<and> no_fault (Inl e :: unit res)"
begin

sublocale reliable_driver xf maxVec good dev step w hq vlim
proof
  fix d d' :: "'a axisToJtag_scheme"
  assume "axisToJtag.more d' = axisToJtag.more d" "m_host d' = m_host d" "m_drEn d' = m_drEn d" "good d"
  then show "good d' \<and> dev d' = dev d" using good_more [of d' d] dev_more [of d' d] by simp
next
  fix d :: "'a axisToJtag_scheme" and tx :: "u8 list" and u
  assume a: "good d" "m_wordSize d = u" "u = 4 \<or> u = w" "u \<le> length tx" "take u tx = le_bytes32 mkQuery @ replicate (u - 4) 0"
    "length (m_hdBuf d) = hdBufMax"
  have u: "4 \<le> u" using a(3) w_ok(1) by auto
  then have tx: "take 4 tx = le_bytes32 mkQuery" using arg_cong [OF a(5), of "take 4"] by simp
  obtain got hb d2 where x: "xf tx u (m_hdBuf d) (m_wordSize d) [] 0 d = ((Inr got, hb, []), d2)"
    and hb: "length hb = hdBufMax" "take 4 hb = le_bytes32 hq" and d2: "drv_frame d2 = drv_frame d" "good d2" "dev d2 = dev d"
    using query_law [OF a(1-6)] a(2) by auto
  have "xferRel xf tx u [] 0 d = ((Inr (got, hq), []), d2\<lparr>m_hdBuf := hb\<rparr>)"
    using xferRel_accept [where xf = xf, OF _ refl x] hb hq_ok(1) tx u a(4) by (simp add: hdBufMax_def)
  then show "\<exists>got d'. xferRel xf tx u [] 0 d = ((Inr (got, hq), []), d') \<and> length (m_hdBuf d') = hdBufMax \<and>
      drv_frame d' = drv_frame d \<and> good d' \<and> dev d' = dev d"
    using hb(1) d2 good_more [of "d2\<lparr>m_hdBuf := hb\<rparr>" d2] dev_more [of "d2\<lparr>m_hdBuf := hb\<rparr>" d2] by (simp add: drv_frame_def)
next
  fix d d1 :: "'a axisToJtag_scheme" and h n bits and tms tdi tx rx :: "u8 list"
  assume a: "good d" "m_wordSize d = w" "length (m_hdBuf d) = hdBufMax" "shift_msg w h n tms tdi tx" "n \<le> length tms" "n \<le> length tdi"
    "getVrs h = PVER0" "getCmd h = CMD_S" "getLen h = Inr bits" "n = (bits + 7) div 8" "n \<le> vlim" "n \<le> length rx"
    "d1 = d\<lparr>m_xid := next_xid (m_xid d), m_txBuf := tx\<rparr>"
  have d1: "good d1" "m_wordSize d1 = w" "length (m_hdBuf d1) = hdBufMax" "dev d1 = dev d"
    using a(1-3,13) good_more [of d1 d] dev_more [of d1 d] by simp_all
  note hdr = shift_msg_hdr [OF a(4) w_ok(1)]
  obtain got hb rx' d2 where x: "xf tx (msg_size w n) (m_hdBuf d1) (m_wordSize d1) rx n d1 = ((Inr got, hb, rx'), d2)"
    and hb: "length hb = hdBufMax" "getErr (le_word32 (take 4 hb)) = 0" "getXid (le_word32 (take 4 hb)) = getXid h"
    and d2: "drv_frame d2 = drv_frame d1" "good d2" and rx: "length rx' = length rx" "drop n rx' = drop n rx"
    "(take bits (bits_of_bytes rx'), dev d2) =
      dev_run step (zip (take bits (bits_of_bytes tms)) (take bits (bits_of_bytes tdi))) (dev d)"
    using shift_law [OF d1(1,2) a(4-12) d1(3)] d1(2,4) by auto
  have hw: "h = le_word32 (take 4 tx)" using hdr(1) by simp
  have r: "xferRel xf tx (msg_size w n) rx n d1 = ((Inr (got, le_word32 (take 4 hb)), rx'), d2\<lparr>m_hdBuf := hb\<rparr>)"
    using xferRel_accept [where xf = xf, OF hdr(2) hw x] hb by (simp add: hdBufMax_def)
  show "\<exists>got hr rx' d'. xferRel xf tx (msg_size w n) rx n d1 = ((Inr (got, hr), rx'), d') \<and> length (m_hdBuf d') = hdBufMax \<and>
      drv_frame d' = drv_frame d1 \<and> good d' \<and> length rx' = length rx \<and> drop n rx' = drop n rx \<and>
      (take bits (bits_of_bytes rx'), dev d') = dev_run step (zip (take bits (bits_of_bytes tms)) (take bits (bits_of_bytes tdi))) (dev d)"
    by (intro exI conjI, rule r)
      (use hb(1) d2 rx good_more [of "d2\<lparr>m_hdBuf := hb\<rparr>" d2] dev_more [of "d2\<lparr>m_hdBuf := hb\<rparr>" d2] in \<open>simp_all add: drv_frame_def\<close>)
next
  fix d d1 :: "'a axisToJtag_scheme" and h and tx rx :: "u8 list"
  assume a: "good d" "m_wordSize d = w" "length (m_hdBuf d) = hdBufMax" "w \<le> length tx" "take w tx = le_bytes32 h @ replicate (w - 4) 0"
    "getVrs h \<noteq> PVER0 \<and> getCmd h \<notin> {CMD_Q, CMD_S}" "d1 = d\<lparr>m_xid := next_xid (m_xid d), m_txBuf := tx\<rparr>"
  have d1: "good d1" "m_wordSize d1 = w" "length (m_hdBuf d1) = hdBufMax" using a(1-3,7) good_more [of d1 d] by simp_all
  have tx: "take 4 tx = le_bytes32 h" "4 \<le> length tx" using arg_cong [OF a(5), of "take 4"] w_ok(1) a(4) by simp_all
  obtain r hb rx' d2 e where x: "xf tx w (m_hdBuf d1) (m_wordSize d1) rx 0 d1 = ((r, hb, rx'), d2)" "length rx' = length rx"
    "outcome_of (getXid h) (isLE (m_host d2)) r hb = Fail e" "no_fault (Inl e :: unit res)"
    using version_law [OF d1(1,2) a(4,5) conjunct1 [OF a(6)] d1(3), of rx] d1(2) by auto
  have "attempt xf (getXid h) tx w 0 (rx, d1) = (Fail e, rx', d2\<lparr>m_hdBuf := hb\<rparr>)"
    using x by (simp add: attempt_def getWordSize_def)
  then have "xferRel xf tx w rx 0 d1 = ((Inl e, rx'), d2\<lparr>m_hdBuf := hb\<rparr>)"
    using tx by (simp add: xferRel_def getHdr_le xferRel_loop_unfold)
  then show "\<exists>e rx' d'. xferRel xf tx w rx 0 d1 = ((Inl e, rx'), d') \<and> length rx' = length rx \<and> no_fault (Inl e :: unit res)"
    using x(2,4) by blast
qed (use w_ok hq_ok in simp_all)

end

end
