(* ===== verification/Serdes_Driver.thy ===== *)
theory Serdes_Driver
  imports Reg_Io Stream_Driver
begin

text \<open>
  Drivers of serialisers: an operation that shifts up to 32 bits through a device makes, with the
  transfer loop of the drivers, a driver that is a faithful wire to the device.
\<close>

section \<open>Specification\<close>

text \<open>The low \<open>l\<close> bits of a word in the order in which they are shifted.\<close>

definition low_bits :: "nat \<Rightarrow> u32 \<Rightarrow> bool list" where
  "low_bits l v = map (bit v) [0..<l]"

section \<open>Lemmas\<close>

lemma onD_simps [simp]:
  "m d = (r, d') \<Longrightarrow> onD m (hb, rx, d) = (r, (hb, rx, d'))"
  by (simp add: onD_def)

text \<open>The header with which the serialiser drivers answer a query: words of four bytes and no limit.\<close>

lemma hq3: "cvtPerNs 3 = UNKNOWN_PERIOD" "memDepth 3 = 0"
  by (simp_all add: cvtPerNs_def memDepth_def XID_SHIFT_def)

lemma length_low_bits [simp]: "length (low_bits l v) = l"
  by (simp add: low_bits_def)

lemma bits_of_word: "bits_of_bytes (le_bytes32 v) = low_bits 32 v"
proof -
  have byte: "bits_of_byte (ucast (drop_bit k v)) = map (bit v) [k..<k + 8]" for k
    by (rule nth_equalityI) (simp_all add: bits_of_byte_def bit_simps)
  have "bits_of_bytes (le_bytes32 v) =
      map (bit v) [0..<0 + 8] @ map (bit v) [8..<8 + 8] @ map (bit v) [16..<16 + 8] @ map (bit v) [24..<24 + 8]"
    using byte [of 0] by (simp only: le_bytes32_def bits_of_bytes_simps byte drop_bit_0 id_apply append_Nil2)
  also have "\<dots> = map (bit v) ([0..<8] @ [8..<16] @ [16..<24] @ [24..<32])" by simp
  also have "[0..<8] @ [8..<16] @ [16..<24] @ [24..<32] = [0..<(32 :: nat)]"
    by code_simp
  finally show ?thesis by (simp add: low_bits_def)
qed

lemma low_bits_take: "l \<le> 32 \<Longrightarrow> low_bits l v = take l (bits_of_bytes (le_bytes32 v))"
  by (simp add: bits_of_word low_bits_def take_map)

lemma low_bits_word: "length bs = 4 \<Longrightarrow> l \<le> 32 \<Longrightarrow> low_bits l (le_word32 bs) = take l (bits_of_bytes bs)"
  by (simp add: low_bits_take)

lemma low_bits_bytes:
  assumes "l \<le> 32" and "k = (l + 7) div 8"
  shows "take l (bits_of_bytes (take k (le_bytes32 v))) = low_bits l v"
proof -
  have "l \<le> 8 * k" using assms(2) by simp
  then have "take l (take (8 * k) (bits_of_bytes (le_bytes32 v))) = take l (bits_of_bytes (le_bytes32 v))"
    by (simp add: min_absorb1)
  then show ?thesis using low_bits_take [OF assms(1)] by (simp only: take_bits_of_bytes)
qed

lemma measure_end_spec:
  assumes "m_measure d \<noteq> 0 \<longrightarrow> t \<noteq> None"
  shows "\<exists>d'. measure_end env t d = (Inr (), d') \<and> drv_frame d' = drv_frame d"
  using assms
  by (auto simp: measure_end_def bindS_def hwS_def measure_update_def drv_frame_def Let_def split: prod.splits)

subsection \<open>From words to vectors\<close>

text \<open>
  The laws of a serialiser: after \<open>start\<close> the operation \<open>x32\<close> may be used for one word after the other,
  as long as they are whole words; it shifts the low \<open>l\<close> bits through the device.
\<close>

locale word_shifter =
  fixes env :: "('h, 'e) irq_env_scheme" and start :: "(('h, 'z) polledDrv_scheme, unit) sm"
    and x32 :: "u32 \<Rightarrow> u32 \<Rightarrow> nat \<Rightarrow> (('h, 'z) polledDrv_scheme, u32 \<times> (int \<times> int) option) sm"
    and good :: "('h, 'z) polledDrv_scheme \<Rightarrow> bool" and rdy :: "('h, 'z) polledDrv_scheme \<Rightarrow> bool"
    and dev :: "('h, 'z) polledDrv_scheme \<Rightarrow> 's" and step :: "bool \<times> bool \<Rightarrow> 's \<Rightarrow> bool \<times> 's"
  assumes shifter_more: "axisToJtag.more d' = axisToJtag.more d \<Longrightarrow> m_host d' = m_host d \<Longrightarrow> good d' = good d \<and> dev d' = dev d"
    and start_law: "good d \<Longrightarrow> \<exists>d'. start d = (Inr (), d') \<and> rdy d' \<and> drv_frame d' = drv_frame d \<and> dev d' = dev d"
    and x32_law: "rdy d \<Longrightarrow> 1 \<le> l \<Longrightarrow> l \<le> 32 \<Longrightarrow>
      \<exists>tdo t d'. x32 tms tdi l d = (Inr (tdo, t), d') \<and> (m_measure d' \<noteq> 0 \<longrightarrow> t \<noteq> None) \<and> good d' \<and> (l = 32 \<longrightarrow> rdy d') \<and>
        drv_frame d' = drv_frame d \<and>
        (low_bits l tdo, dev d') = dev_run step (zip (low_bits l tms) (low_bits l tdi)) (dev d)"
    and rdy_good: "rdy d \<Longrightarrow> good d"
    and measure_law: "good d \<Longrightarrow> measure_end env t d = (Inr (), d') \<Longrightarrow>
      good d' \<and> (rdy d \<longrightarrow> rdy d') \<and> dev d' = dev d"
begin

lemma serdes_word_ok:
  assumes "rdy d" and "1 \<le> l" and "l \<le> 32" and "p_in + 8 \<le> length tx" and "p_out + k \<le> length rx" and "k = (l + 7) div 8"
  shows "\<exists>bs d'. serdes_word env x32 le tx p_in p_out l (hb, rx, d) =
      (Inr (), (hb, take p_out rx @ bs @ drop (p_out + k) rx, d')) \<and> length bs = k \<and>
    good d' \<and> (l = 32 \<longrightarrow> rdy d') \<and> drv_frame d' = drv_frame d \<and>
    (take l (bits_of_bytes bs), dev d') =
      dev_run step (zip (take l (bits_of_bytes (take 4 (drop p_in tx)))) (take l (bits_of_bytes (take 4 (drop (p_in + 4) tx))))) (dev d)"
proof -
  define tms tdi where ws: "tms = le_word32 (take 4 (drop p_in tx))" "tdi = le_word32 (take 4 (drop (p_in + 4) tx))"
  have g: "getw32 le (drop p_in tx) = Inr tms" "getw32 le (drop (p_in + 4) tx) = Inr tdi"
    using assms(4) by (simp_all add: getw32_le ws)
  have lb: "low_bits l tms = take l (bits_of_bytes (take 4 (drop p_in tx)))"
    "low_bits l tdi = take l (bits_of_bytes (take 4 (drop (p_in + 4) tx)))"
    using assms(3,4) by (simp_all add: ws low_bits_word)
  obtain tdo t d1 where x: "x32 tms tdi l d = (Inr (tdo, t), d1)" "m_measure d1 \<noteq> 0 \<longrightarrow> t \<noteq> None" "good d1" "l = 32 \<longrightarrow> rdy d1"
    "drv_frame d1 = drv_frame d" "(low_bits l tdo, dev d1) = dev_run step (zip (low_bits l tms) (low_bits l tdi)) (dev d)"
    using x32_law [OF assms(1-3)] by blast
  obtain d2 where m: "measure_end env t d1 = (Inr (), d2)" "drv_frame d2 = drv_frame d1" using measure_end_spec [OF x(2)] by blast
  define bs where "bs = take k (le_bytes32 tdo)"
  have k: "k \<le> 4" "length bs = k" using assms(3,6) by (simp_all add: bs_def)
  have "setw32 le (drop p_out rx) tdo k = Inr (bs @ drop k (drop p_out rx))"
    using assms(5) k by (simp add: setw32_le wr_mem_ok bs_def)
  then have "serdes_word env x32 le tx p_in p_out l (hb, rx, d) = (Inr (), (hb, take p_out rx @ bs @ drop (p_out + k) rx, d2))"
    using g x(1) m(1) by (simp add: serdes_word_def bindS_def assms(6) [symmetric] add.commute)
  moreover have "take l (bits_of_bytes bs) = low_bits l tdo" using low_bits_bytes [OF assms(3,6)] by (simp add: bs_def)
  moreover have "good d2" "l = 32 \<longrightarrow> rdy d2" "dev d2 = dev d1" using measure_law [OF x(3) m(1)] x(4) by blast+
  ultimately show ?thesis using x(5,6) m(2) k(2) lb by (intro exI [of _ bs] exI [of _ d2]) simp
qed

lemma serdes_loop_ok:
  assumes "good d" and "nbits \<noteq> 0 \<longrightarrow> rdy d" and "k = (nbits + 31) div 32" and "n = (nbits + 7) div 8"
    and "p_in + 8 * k \<le> length tx" and "p_out + n \<le> length rx"
  shows "\<exists>bs d'. serdes_loop env x32 le tx p_in p_out nbits (hb, rx, d) =
      (Inr (), (hb, take p_out rx @ bs @ drop (p_out + n) rx, d')) \<and> length bs = n \<and> good d' \<and> drv_frame d' = drv_frame d \<and>
    (take nbits (bits_of_bytes bs), dev d') =
      dev_run step (zip (take nbits (bits_of_bytes (word_bytes tx p_in k))) (take nbits (bits_of_bytes (word_bytes tx (p_in + 4) k)))) (dev d)"
  using assms
proof (induction nbits arbitrary: k n p_in p_out rx d rule: less_induct)
  case (less nbits)
  consider "nbits = 0" | "0 < nbits" "nbits < 32" | "32 \<le> nbits" by linarith
  then show ?case
  proof cases
    case 1
    then show ?thesis using less.prems by (simp add: serdes_loop.simps)
  next
    case 2
    then have k: "k = Suc 0" using less.prems(3) by simp
    have fit: "p_in + 8 \<le> length tx" using less.prems(5) k by simp
    obtain bs d1 where w: "serdes_word env x32 le tx p_in p_out nbits (hb, rx, d) =
        (Inr (), (hb, take p_out rx @ bs @ drop (p_out + n) rx, d1))" "length bs = n" "good d1" "drv_frame d1 = drv_frame d"
      "(take nbits (bits_of_bytes bs), dev d1) = dev_run step
        (zip (take nbits (bits_of_bytes (take 4 (drop p_in tx)))) (take nbits (bits_of_bytes (take 4 (drop (p_in + 4) tx))))) (dev d)"
      using serdes_word_ok [OF _ _ _ fit less.prems(6,4), of d le hb] less.prems(2) 2 by auto
    have "serdes_loop env x32 le tx p_in p_out nbits (hb, rx, d) = serdes_word env x32 le tx p_in p_out nbits (hb, rx, d)"
      using 2 w(1) by (simp add: serdes_loop.simps [of _ _ _ _ _ _ nbits] serdes_loop.simps [of _ _ _ _ _ _ 0] Let_def)
    then show ?thesis using w k by auto
  next
    case 3
    define m where "m = nbits - 32"
    obtain k' where k: "k = Suc k'" "k' = (m + 31) div 32" using less.prems(3) 3 by (cases k) (auto simp: m_def)
    have n: "n = 4 + (m + 7) div 8" using less.prems(4) 3 by (simp add: m_def)
    have fit: "p_in + 8 \<le> length tx" "p_out + 4 \<le> length rx" using less.prems(5,6) k n by simp_all
    have rdy: "rdy d" and l32: "1 \<le> (32 :: nat)" "(32 :: nat) \<le> 32" and four: "4 = (32 + 7) div (8 :: nat)"
      using less.prems(2) 3 by simp_all
    obtain bs d1 where w: "serdes_word env x32 le tx p_in p_out 32 (hb, rx, d) =
        (Inr (), (hb, take p_out rx @ bs @ drop (p_out + 4) rx, d1))" "length bs = 4" "good d1" "rdy d1" "drv_frame d1 = drv_frame d"
      "(take 32 (bits_of_bytes bs), dev d1) = dev_run step
        (zip (take 32 (bits_of_bytes (take 4 (drop p_in tx)))) (take 32 (bits_of_bytes (take 4 (drop (p_in + 4) tx))))) (dev d)"
      using serdes_word_ok [OF rdy l32 fit four, of le hb] by blast
    define rx1 where "rx1 = take p_out rx @ bs @ drop (p_out + 4) rx"
    have rx1: "length rx1 = length rx" "take (p_out + 4) rx1 = take p_out rx @ bs"
      "drop (p_out + (4 + j)) rx1 = drop (p_out + (4 + j)) rx" for j
      using fit(2) w(2) by (simp_all add: rx1_def ac_simps)
    have "m < nbits" using 3 by (simp add: m_def)
    from less.IH [OF this w(3) _ k(2) refl, of "p_in + 8" "p_out + 4" rx1] w(4) less.prems(5,6) k(1) n rx1(1)
    obtain bs2 d2 where r: "serdes_loop env x32 le tx (p_in + 8) (p_out + 4) m (hb, rx1, d1) =
        (Inr (), (hb, take (p_out + 4) rx1 @ bs2 @ drop (p_out + 4 + (m + 7) div 8) rx1, d2))" "length bs2 = (m + 7) div 8"
      "good d2" "drv_frame d2 = drv_frame d1"
      "(take m (bits_of_bytes bs2), dev d2) = dev_run step (zip (take m (bits_of_bytes (word_bytes tx (p_in + 8) k')))
          (take m (bits_of_bytes (word_bytes tx (p_in + 8 + 4) k')))) (dev d1)"
      by auto
    have l: "serdes_loop env x32 le tx p_in p_out nbits (hb, rx, d) =
        (Inr (), (hb, take p_out rx @ (bs @ bs2) @ drop (p_out + n) rx, d2))"
      using 3 w(1) r(1) n by (simp add: serdes_loop.simps [of _ _ _ _ _ _ nbits] Let_def m_def [symmetric] rx1_def [symmetric] rx1(2,3) add.assoc)
    have split: "take nbits (bits_of_bytes (us @ vs)) = take 32 (bits_of_bytes us) @ take m (bits_of_bytes vs)"
      if "length us = 4" for us vs :: "u8 list"
      using that 3 by (simp add: m_def)
    have len4: "length (take 4 (drop p_in tx)) = 4" "length (take 4 (drop (p_in + 4) tx)) = 4" using fit(1) by simp_all
    have "(take nbits (bits_of_bytes (bs @ bs2)), dev d2) = dev_run step
        (zip (take nbits (bits_of_bytes (word_bytes tx p_in k))) (take nbits (bits_of_bytes (word_bytes tx (p_in + 4) k)))) (dev d)"
      using dev_run_compose [OF w(6) r(5)] len4 w(2)
      by (simp add: k(1) split zip_append ac_simps del: bits_of_bytes_simps)
    then show ?thesis using l r(2-4) w(2,5) n by (intro exI [of _ "bs @ bs2"] exI [of _ d2]) simp
  qed
qed

text \<open>The header word in the receive buffer for headers.\<close>

lemma serdes_query:
  assumes "good d" and "m_wordSize d = 4" and "4 \<le> length tx" and "take 4 tx = le_bytes32 mkQuery" and "length hb = hdBufMax"
  shows "serdes_xfer env start x32 tx txBytes 4 sz (hb, rx, d) = (Inr 4, (le_bytes32 3 @ drop 4 hb, rx, d))"
proof -
  have hdr: "getHdr le tx = Inr mkQuery" for le using assms(3,4) by (simp add: getHdr_le)
  have "mkQueryReply PVER0 4 0 UNKNOWN_PERIOD = Inr 3"
    by (simp add: mkQueryReply_def encPerNs_def hdr_defs)
  moreover have "setHdr le 4 hb 3 = Inr (le_bytes32 3 @ drop 4 hb)" for le
    using assms(5) by (simp add: setHdr_le hdBufMax_def)
  ultimately show ?thesis using hdr assms(2) by (simp add: serdes_xfer_def serdes_body_def bindS_def getWordSize_def)
qed

lemma serdes_version:
  assumes "4 \<le> length tx" and "take 4 tx = le_bytes32 h" and "getVrs h \<noteq> PVER0"
  shows "serdes_xfer env start x32 tx txBytes hsize sz (hb, rx, d) =
    (Inl (RuntimeErr ''AxiDbgBridgeIP driver: xfer() found unexpected version''), (hb, rx, d))"
  using assms by (simp add: serdes_xfer_def serdes_body_def bindS_def getHdr_le)

lemma serdes_shift:
  assumes "good d" and "m_wordSize d = 4" and "shift_msg 4 h n tms tdi tx" and "n \<le> length tms" and "n \<le> length tdi"
    and "getVrs h = PVER0" and "getCmd h = CMD_S" and "getLen h = Inr bits" and "n = (bits + 7) div 8"
    and "n \<le> length rx" and "length hb = hdBufMax"
  shows "\<exists>bs d'. serdes_xfer env start x32 tx (msg_size 4 n) 4 n (hb, rx, d) =
      (Inr (int n), (le_bytes32 h @ drop 4 hb, bs @ drop n rx, d')) \<and> length bs = n \<and> good d' \<and> drv_frame d' = drv_frame d \<and>
    (take bits (bits_of_bytes bs), dev d') =
      dev_run step (zip (take bits (bits_of_bytes tms)) (take bits (bits_of_bytes tdi))) (dev d)"
proof -
  define k where "k = (n + 3) div 4"
  note vec = shift_msg_vectors [OF assms(3-5) k_def]
  note hdr = shift_msg_hdr [OF assms(3) order_refl]
  have k: "k = (bits + 31) div 32" unfolding k_def assms(9) by (simp add: div_mult2_eq [symmetric] flip: div_mult2_eq)
  have le: "bits \<le> 8 * n" using assms(9) by simp
  have bitsv: "take bits (bits_of_bytes (word_bytes tx 4 k)) = take bits (bits_of_bytes tms)"
    "take bits (bits_of_bytes (word_bytes tx 8 k)) = take bits (bits_of_bytes tdi)"
    by (rule take_bits_cong [OF le vec(1)], rule take_bits_cong [OF le vec(2)])
  obtain d1 where st: "start d = (Inr (), d1)" "rdy d1" "drv_frame d1 = drv_frame d" "dev d1 = dev d"
    using start_law [OF assms(1)] by blast
  obtain bs d2 where l: "serdes_loop env x32 (isLE (m_host d)) tx 4 0 bits (le_bytes32 h @ drop 4 hb, rx, d1) =
      (Inr (), (le_bytes32 h @ drop 4 hb, take 0 rx @ bs @ drop (0 + n) rx, d2))" "length bs = n" "good d2"
    "drv_frame d2 = drv_frame d1" "(take bits (bits_of_bytes bs), dev d2) =
      dev_run step (zip (take bits (bits_of_bytes (word_bytes tx 4 k))) (take bits (bits_of_bytes (word_bytes tx (4 + 4) k)))) (dev d1)"
    using serdes_loop_ok [OF rdy_good [OF st(2)] _ k assms(9) vec(3), of 0 rx "isLE (m_host d)" "le_bytes32 h @ drop 4 hb"]
      st(2) assms(10) by auto
  have "\<not> msg_size 4 n < (n + 4 - 1) div 4 * 2 * 4" by (simp add: msg_size_def)
  then have "serdes_xfer env start x32 tx (msg_size 4 n) 4 n (hb, rx, d) =
      (Inr (int n), (le_bytes32 h @ drop 4 hb, bs @ drop n rx, d2))"
    using hdr assms(2,6-8,11) st(1) l(1)
    by (simp add: serdes_xfer_def serdes_body_def bindS_def getHdr_le getWordSize_def setHdr_le hdBufMax_def assms(9) [symmetric] Let_def)
  then show ?thesis using l(2-5) st(3,4) bitsv by auto
qed

end

subsection \<open>The driver\<close>

text \<open>A driver whose transfer is the loop over such an operation.\<close>

locale serdes_driver = word_shifter env start x32 good rdy dev step
  for env :: "('h, 'e) irq_env_scheme" and start :: "(('h, 'z) polledDrv_scheme, unit) sm"
    and x32 :: "u32 \<Rightarrow> u32 \<Rightarrow> nat \<Rightarrow> (('h, 'z) polledDrv_scheme, u32 \<times> (int \<times> int) option) sm"
    and good :: "('h, 'z) polledDrv_scheme \<Rightarrow> bool" and rdy :: "('h, 'z) polledDrv_scheme \<Rightarrow> bool"
    and dev :: "('h, 'z) polledDrv_scheme \<Rightarrow> 's" and step :: "bool \<times> bool \<Rightarrow> 's \<Rightarrow> bool \<times> 's" +
  fixes xf :: "('h, 'z) polledDrv_scheme xfer_fn" and maxVec :: "('h, 'z) polledDrv_scheme \<Rightarrow> nat" and vlim :: nat
  assumes xf_law: "good d \<Longrightarrow> xf tx n hb hs rx sz d = io_xfer (serdes_xfer env start x32) tx n hb hs rx sz d"
    and vlim_law: "vlim \<le> 2 ^ 17"
begin

sublocale stream_driver xf maxVec good dev step 4 3 vlim
proof
  show "getErr 3 = 0" "wordSize 3 = 4" by (simp_all add: getErr_def getCmd_def wordSize_def hdr_defs)
next
  fix d' d :: "('h, 'z) polledDrv_scheme" assume "axisToJtag.more d' = axisToJtag.more d" "m_host d' = m_host d"
  from shifter_more [OF this] show "good d' = good d" "dev d' = dev d" by simp_all
next
  fix d :: "('h, 'z) polledDrv_scheme" and tx hb :: "u8 list" and u
  assume a: "good d" "m_wordSize d = u" "u = 4 \<or> u = 4" "u \<le> length tx" "take u tx = le_bytes32 mkQuery @ replicate (u - 4) 0"
    "length hb = hdBufMax"
  then show "\<exists>got hb' d'. xf tx u hb u [] 0 d = ((Inr got, hb', []), d') \<and> length hb' = hdBufMax \<and> take 4 hb' = le_bytes32 3 \<and>
      drv_frame d' = drv_frame d \<and> good d' \<and> dev d' = dev d"
    using serdes_query [of d tx hb 4 0 "[]"] by (simp add: xf_law io_xfer_def hdBufMax_def)
next
  fix d :: "('h, 'z) polledDrv_scheme" and tx hb tms tdi rx :: "u8 list" and h n bits
  assume a: "good d" "m_wordSize d = 4" "shift_msg 4 h n tms tdi tx" "n \<le> length tms" "n \<le> length tdi"
    "getVrs h = PVER0" "getCmd h = CMD_S" "getLen h = Inr bits" "n = (bits + 7) div 8" "n \<le> vlim" "n \<le> length rx" "length hb = hdBufMax"
  have err: "getErr h = 0" using a(7) by (simp add: getErr_def)
  obtain bs d' where s: "serdes_xfer env start x32 tx (msg_size 4 n) 4 n (hb, rx, d) =
      (Inr (int n), (le_bytes32 h @ drop 4 hb, bs @ drop n rx, d'))" "length bs = n" "good d'" "drv_frame d' = drv_frame d"
    "(take bits (bits_of_bytes bs), dev d') = dev_run step (zip (take bits (bits_of_bytes tms)) (take bits (bits_of_bytes tdi))) (dev d)"
    using serdes_shift [OF a(1-9,11,12)] by blast
  have "bits \<le> 8 * n" using a(9) by simp
  then show "\<exists>got hb' rx' d'. xf tx (msg_size 4 n) hb 4 rx n d = ((Inr got, hb', rx'), d') \<and> length hb' = hdBufMax \<and>
      getErr (le_word32 (take 4 hb')) = 0 \<and> getXid (le_word32 (take 4 hb')) = getXid h \<and>
      drv_frame d' = drv_frame d \<and> good d' \<and> length rx' = length rx \<and> drop n rx' = drop n rx \<and>
      (take bits (bits_of_bytes rx'), dev d') =
        dev_run step (zip (take bits (bits_of_bytes tms)) (take bits (bits_of_bytes tdi))) (dev d)"
    using s a(1,11,12) err by (simp add: xf_law io_xfer_def hdBufMax_def)
next
  fix d :: "('h, 'z) polledDrv_scheme" and tx hb rx :: "u8 list" and h
  assume a: "good d" "4 \<le> length tx" "take 4 tx = le_bytes32 h @ replicate (4 - 4) 0" "getVrs h \<noteq> PVER0"
  then show "\<exists>r hb' rx' d' e. xf tx 4 hb 4 rx 0 d = ((r, hb', rx'), d') \<and> length rx' = length rx \<and>
      outcome_of (getXid h) (isLE (m_host d')) r hb' = Fail e \<and> no_fault (Inl e :: unit res)"
    using serdes_version [of tx h 4 4 0 hb rx d] by (simp add: xf_law io_xfer_def outcome_of_def)
qed (use vlim_law in simp_all)

end

end
