(* ===== verification/Drv_Bridge.thy ===== *)
theory Drv_Bridge
  imports Serdes_Driver
begin

text \<open>
  The driver of the AXI debug bridge, class \<^verbatim>\<open>JtagDriverZynqAxiDbgBridgeIP\<close> of
  \<^verbatim>\<open>xvcDrvAxiDbgBridgeIP.h\<close> and \<^verbatim>\<open>xvcDrvAxiDbgBridgeIP.cc\<close>.  The bridge shifts up to 32 bits at a
  time; the driver answers queries itself.
\<close>

section \<open>JtagDriverZynqAxiDbgBridgeIP\<close>

definition LENGTH_IDX :: nat where "LENGTH_IDX = 0"
definition TMSVEC_IDX :: nat where "TMSVEC_IDX = 1"
definition TDIVEC_IDX :: nat where "TDIVEC_IDX = 2"
definition TDOVEC_IDX :: nat where "TDOVEC_IDX = 3"
definition CSR_IDX :: nat where "CSR_IDX = 4"
definition CSR_RUN :: u32 where "CSR_RUN = 1"
definition MAP_SIZE :: u64 where "MAP_SIZE = 0x14"

record 's dbgBridge = "'s polledDrv" +
  m_map :: memMap
  m_maxVec :: u64
  m_wrdSiz :: nat

definition br_o32 :: "'s mmio \<Rightarrow> nat \<Rightarrow> u32 \<Rightarrow> (('s, 'z) dbgBridge_scheme, unit) sm" where
  "br_o32 hw idx v d = map_wr hw (m_map d) idx v d"

definition br_i32 :: "'s mmio \<Rightarrow> nat \<Rightarrow> (('s, 'z) dbgBridge_scheme, u32) sm" where
  "br_i32 hw idx d = map_rd hw (m_map d) idx d"

text \<open>\<^verbatim>\<open>wait\<close> sleeps when the hardware was found to be slow, and \<^verbatim>\<open>reset\<close> is empty.\<close>

definition br_wait :: "'s mmio \<Rightarrow> (('s, 'z) dbgBridge_scheme, unit) sm" where
  "br_wait hw d = (if m_doSleep d then sleepS hw (m_pollTime d) d else (Inr (), d))"

definition br_reset :: "(('s, 'z) dbgBridge_scheme, unit) sm" where
  "br_reset = retS ()"

text \<open>The constructor; \<open>args\<close> are the options after \<^verbatim>\<open>--\<close> with their arguments.\<close>

primrec br_options :: "(char \<times> string) list \<Rightarrow> u64 \<Rightarrow> u64 res" where
  "br_options [] maxBytes = Inr maxBytes"
| "br_options (a # as) maxBytes =
     (if fst a = CHR ''M'' then
        (case sscanf_li [] (snd a) of
           None \<Rightarrow> Inl (RuntimeErr ''Invalid scan driver option value'')
         | Some v \<Rightarrow> br_options as v)
      else Inl (RuntimeErr ''Unknown driver option''))"

definition dbgBridge_new :: "platform \<Rightarrow> u8 \<Rightarrow> map_env \<Rightarrow> 's \<Rightarrow> (char \<times> string) list \<Rightarrow> string \<Rightarrow> 's dbgBridge res" where
  "dbgBridge_new host xid0 env s0 args devnam =
     bindR (memMap_new env devnam MAP_SIZE) (\<lambda>mp.
     bindR (br_options args 1024) (\<lambda>maxBytes.
       let d0 = polledDrv.extend
                  (regDrv.extend (axisToJtag.extend (axisToJtag_new host xid0 0) (regDrv.fields s0))
                     (polledDrv.fields False 100 0 0))
                  (dbgBridge.fields mp maxBytes 4)
       in (case br_reset d0 of (Inl e, _) \<Rightarrow> Inl e | (Inr _, d) \<Rightarrow> Inr d)))"

text \<open>Shifting one word: the registers, the start, the poll and TDO.\<close>

definition br_x32 :: "'s mmio \<Rightarrow> u32 \<Rightarrow> u32 \<Rightarrow> nat \<Rightarrow> (('s, 'z) dbgBridge_scheme, u32 \<times> (int \<times> int) option) sm" where
  "br_x32 hw tms tdi l =
     bindS (br_o32 hw TMSVEC_IDX tms) (\<lambda>_.
     bindS (br_o32 hw TDIVEC_IDX tdi) (\<lambda>_.
     bindS (if l < 32 then br_o32 hw LENGTH_IDX (word_of_nat l) else retS ()) (\<lambda>_.
     bindS (br_i32 hw CSR_IDX) (\<lambda>w.
     bindS (br_o32 hw CSR_IDX (w OR CSR_RUN)) (\<lambda>_.
     bindS (measure_start hw) (\<lambda>start.
     bindS (poll (br_i32 hw CSR_IDX) (\<lambda>v. v AND CSR_RUN \<noteq> 0) (br_wait hw)) (\<lambda>_.
     bindS (br_i32 hw TDOVEC_IDX) (\<lambda>tdo. retS (tdo, start)))))))))"

definition br_xfer :: "'s mmio \<Rightarrow> ('s, 'z) dbgBridge_scheme xfer_fn" where
  "br_xfer hw = io_xfer (serdes_xfer hw (br_o32 hw LENGTH_IDX 32) (br_x32 hw))"

definition br_init :: "'s mmio \<Rightarrow> (('s, 'z) dbgBridge_scheme, unit) sm" where
  "br_init hw =
     bindS br_reset (\<lambda>_.
     bindS (init_drv (br_xfer hw)) (\<lambda>_ d.
       if getWordSize d \<noteq> m_wrdSiz d
       then (Inl (RuntimeErr ''ERROR: firmware misconfigured -- AXI-IP word size /= JTAG stream word size''), d)
       else (Inr (), d)))"

definition br_getMaxVectorSize :: "('s, 'z) dbgBridge_scheme \<Rightarrow> nat" where
  "br_getMaxVectorSize d = unat (m_maxVec d)"

section \<open>Specification\<close>

text \<open>
  What the driver relies on in the bridge: the contents of its registers, for how many more readings of
  the control register it is busy, and the state of the device at its JTAG port.
\<close>

record 't bridge_view =
  bv_len :: u32
  bv_tms :: u32
  bv_tdi :: u32
  bv_tdo :: u32
  bv_busy :: nat
  bv_tap :: 't

text \<open>
  The states of the driver: between two transfers, within a transfer, and the device behind them.  \<open>ok\<close>
  and \<open>view\<close> describe the hardware, \<open>mv\<close> is the maximal vector size the driver was made with.
\<close>

definition br_good :: "u64 \<Rightarrow> ('h \<Rightarrow> bool) \<Rightarrow> ('h \<Rightarrow> 't bridge_view) \<Rightarrow> ('h, 'z) dbgBridge_scheme \<Rightarrow> bool" where
  "br_good mv ok view d \<longleftrightarrow>
     map_has (m_map d) CSR_IDX \<and> m_wrdSiz d = 4 \<and> m_maxVec d = mv \<and> ok (m_hw d) \<and> bv_busy (view (m_hw d)) = 0"

definition br_rdy :: "u64 \<Rightarrow> ('h \<Rightarrow> bool) \<Rightarrow> ('h \<Rightarrow> 't bridge_view) \<Rightarrow> ('h, 'z) dbgBridge_scheme \<Rightarrow> bool" where
  "br_rdy mv ok view d \<longleftrightarrow> br_good mv ok view d \<and> bv_len (view (m_hw d)) = 32"

definition br_dev :: "('h \<Rightarrow> 't bridge_view) \<Rightarrow> ('h, 'z) dbgBridge_scheme \<Rightarrow> 't" where
  "br_dev view d = bv_tap (view (m_hw d))"

text \<open>The longest vectors that fit, with a header, into the transmit buffer of 2048 bytes.\<close>

definition bridge_limit :: nat where
  "bridge_limit = 1020"

text \<open>
  For concrete runs: a bridge that needs \<open>lat\<close> readings for every shift.
\<close>

definition bridge_run :: "(bool \<times> bool \<Rightarrow> 't \<Rightarrow> bool \<times> 't) \<Rightarrow> nat \<Rightarrow> 't bridge_view \<Rightarrow> 't bridge_view" where
  "bridge_run step lat s =
     (let l = unat (bv_len s); (out, t) = dev_run step (zip (low_bits l (bv_tms s)) (low_bits l (bv_tdi s))) (bv_tap s)
      in s\<lparr>bv_tdo := word_of_nat (horner_sum of_bool 2 out), bv_busy := lat, bv_tap := t\<rparr>)"

definition emul_bridge :: "(bool \<times> bool \<Rightarrow> 't \<Rightarrow> bool \<times> 't) \<Rightarrow> nat \<Rightarrow> 't bridge_view mmio" where
  "emul_bridge step lat = \<lparr>
     irq_write = \<lambda>s. (4, s), irq_read = \<lambda>s. ((4, 1), s), clock_gettime = \<lambda>s. ((0, 0), s), nanosleep = \<lambda>_ s. s\<lparr>bv_busy := 0\<rparr>,
     mm_rd = \<lambda>i s. if i = CSR_IDX then (if bv_busy s = 0 then 0 else CSR_RUN, s\<lparr>bv_busy := bv_busy s - 1\<rparr>)
                    else if i = TDOVEC_IDX then (bv_tdo s, s) else (0, s),
     mm_wr = \<lambda>i v s. if i = LENGTH_IDX then s\<lparr>bv_len := v\<rparr> else if i = TMSVEC_IDX then s\<lparr>bv_tms := v\<rparr>
                    else if i = TDIVEC_IDX then s\<lparr>bv_tdi := v\<rparr>
                    else if i = CSR_IDX \<and> bit v 0 then bridge_run step lat s else s\<rparr>"

section \<open>Lemmas\<close>

lemmas bridge_regs = LENGTH_IDX_def TMSVEC_IDX_def TDIVEC_IDX_def TDOVEC_IDX_def CSR_IDX_def CSR_RUN_def

lemmas new_defs = axisToJtag_new_def jtagDriver_new_def jtagDriver.defs axisToJtag.defs regDrv.defs polledDrv.defs dbgBridge.defs

lemma dbgBridge_new_ok:
  assumes "dbgBridge_new host xid0 env s0 args devnam = Inr d" and "sys_pagesize env = 2 ^ k" and "k \<le> 62"
  shows "drv_wf d \<and> m_wordSize d = 4 \<and> \<not> getSniff d \<and> m_bufSz d = 2048 \<and> m_wrdSiz d = 4 \<and> m_hw d = s0 \<and>
    map_has (m_map d) CSR_IDX \<and> br_options args 1024 = Inr (m_maxVec d)"
proof -
  obtain mp mv where a: "memMap_new env devnam MAP_SIZE = Inr mp" "br_options args 1024 = Inr mv"
    and d: "d = polledDrv.extend (regDrv.extend (axisToJtag.extend (axisToJtag_new host xid0 0) (regDrv.fields s0))
                     (polledDrv.fields False 100 0 0)) (dbgBridge.fields mp mv 4)"
    using assms(1) by (auto simp: dbgBridge_new_def br_reset_def Let_def)
  have "map_has mp CSR_IDX"
    using memMap_new_covers [OF a(1) assms(2,3)] by (simp add: map_has_def CSR_IDX_def MAP_SIZE_def)
  then show ?thesis using a(2) drv_wf_new [of host xid0 0] by (simp add: d new_defs drv_wf_def getSniff_def)
qed

subsection \<open>The contract of the hardware\<close>

text \<open>
  The registers hold what is written to them; setting the run bit shifts the low bits of the two vector
  registers, as many as the length register says, through the device; the run bit reads as one until the
  bridge is done, which is after finitely many readings, or fewer when the program sleeps meanwhile; then the TDO register holds the bits received.
\<close>

locale debug_bridge =
  fixes hw :: "'h mmio" and ok :: "'h \<Rightarrow> bool" and view :: "'h \<Rightarrow> 't bridge_view"
    and step :: "bool \<times> bool \<Rightarrow> 't \<Rightarrow> bool \<times> 't"
  assumes wr_len: "ok s \<Longrightarrow> ok (mm_wr hw LENGTH_IDX v s) \<and> view (mm_wr hw LENGTH_IDX v s) = (view s)\<lparr>bv_len := v\<rparr>"
    and wr_tms: "ok s \<Longrightarrow> ok (mm_wr hw TMSVEC_IDX v s) \<and> view (mm_wr hw TMSVEC_IDX v s) = (view s)\<lparr>bv_tms := v\<rparr>"
    and wr_tdi: "ok s \<Longrightarrow> ok (mm_wr hw TDIVEC_IDX v s) \<and> view (mm_wr hw TDIVEC_IDX v s) = (view s)\<lparr>bv_tdi := v\<rparr>"
    and rd_csr: "ok s \<Longrightarrow> mm_rd hw CSR_IDX s = (v, s') \<Longrightarrow>
      ok s' \<and> view s' = (view s)\<lparr>bv_busy := bv_busy (view s) - 1\<rparr> \<and> (bit v 0 \<longleftrightarrow> bv_busy (view s) \<noteq> 0)"
    and run: "ok s \<Longrightarrow> bv_busy (view s) = 0 \<Longrightarrow> bit v 0 \<Longrightarrow> l = unat (bv_len (view s)) \<Longrightarrow> 1 \<le> l \<Longrightarrow> l \<le> 32 \<Longrightarrow>
      s' = mm_wr hw CSR_IDX v s \<Longrightarrow>
      ok s' \<and> bv_len (view s') = bv_len (view s) \<and>
      (low_bits l (bv_tdo (view s')), bv_tap (view s')) =
        dev_run step (zip (low_bits l (bv_tms (view s))) (low_bits l (bv_tdi (view s)))) (bv_tap (view s))"
    and rd_tdo: "ok s \<Longrightarrow> bv_busy (view s) = 0 \<Longrightarrow> mm_rd hw TDOVEC_IDX s = (v, s') \<Longrightarrow>
      ok s' \<and> view s' = view s \<and> v = bv_tdo (view s)"
    and clock: "ok s \<Longrightarrow> ok (snd (clock_gettime hw s)) \<and> view (snd (clock_gettime hw s)) = view s"
    and slept: "ok s \<Longrightarrow> ok (nanosleep hw ns s) \<and> (\<exists>b\<le>bv_busy (view s). view (nanosleep hw ns s) = (view s)\<lparr>bv_busy := b\<rparr>)"
begin

lemma br_mapped: "map_has m CSR_IDX \<Longrightarrow> map_has m LENGTH_IDX \<and> map_has m TMSVEC_IDX \<and> map_has m TDIVEC_IDX \<and> map_has m TDOVEC_IDX"
  using map_has_mono by (auto simp: bridge_regs)

lemma run_bit: "v AND CSR_RUN \<noteq> 0 \<longleftrightarrow> bit v 0"
  by (simp add: CSR_RUN_def and_one_eq odd_iff_mod_2_eq_one bit_0)

lemma br_poll:
  assumes "map_has (m_map d) CSR_IDX" and "ok (m_hw d)"
  shows "\<exists>v s'. poll (br_i32 hw CSR_IDX) (\<lambda>v. v AND CSR_RUN \<noteq> 0) (br_wait hw) d = (Inr v, d\<lparr>m_hw := s'\<rparr>) \<and> ok s' \<and>
    view s' = (view (m_hw d))\<lparr>bv_busy := 0\<rparr>"
proof -
  let ?P = "\<lambda>s. ok s \<and> (\<exists>b. view s = (view (m_hw d))\<lparr>bv_busy := b\<rparr>)"
  let ?Q = "\<lambda>v s. view s = (view (m_hw d))\<lparr>bv_busy := 0\<rparr>"
  have "\<exists>v s'. poll (br_i32 hw CSR_IDX) (\<lambda>v. v AND CSR_RUN \<noteq> 0) (br_wait hw) d = (Inr v, d\<lparr>m_hw := s'\<rparr>) \<and> ?P s' \<and> ?Q v s'"
  proof (rule poll_count [where cnt = "\<lambda>s. bv_busy (view s)"])
    show "?P (m_hw d)" using assms(2) by (intro conjI exI [of _ "bv_busy (view (m_hw d))"]) simp_all
  next
    fix s assume s: "?P s"
    obtain v s1 where r: "mm_rd hw CSR_IDX s = (v, s1)" by (cases "mm_rd hw CSR_IDX s")
    have "br_i32 hw CSR_IDX (d\<lparr>m_hw := s\<rparr>) = (Inr v, d\<lparr>m_hw := s1\<rparr>)" using assms(1) r by (simp add: br_i32_def)
    with s rd_csr [of s v s1] r show "\<exists>v s'. br_i32 hw CSR_IDX (d\<lparr>m_hw := s\<rparr>) = (Inr v, d\<lparr>m_hw := s'\<rparr>) \<and> ?P s' \<and>
        (v AND CSR_RUN \<noteq> 0 \<longleftrightarrow> bv_busy (view s) \<noteq> 0) \<and> bv_busy (view s') = bv_busy (view s) - 1 \<and> (bv_busy (view s) = 0 \<longrightarrow> ?Q v s')"
      by (intro exI [of _ v] exI [of _ s1]) (auto simp: run_bit)
  next
    fix s assume s: "?P s"
    show "\<exists>s'. br_wait hw (d\<lparr>m_hw := s\<rparr>) = (Inr (), d\<lparr>m_hw := s'\<rparr>) \<and> ?P s' \<and> bv_busy (view s') \<le> bv_busy (view s)"
      using s slept [of s "m_pollTime d"]
      by (intro exI [of _ "if m_doSleep d then nanosleep hw (m_pollTime d) s else s"]) (auto simp: br_wait_def sleepS_def)
  qed
  then show ?thesis by blast
qed

lemma br_x32_ok:
  assumes "br_rdy mv ok view d" and "1 \<le> l" and "l \<le> 32"
  shows "\<exists>tdo t s. br_x32 hw tms tdi l d = (Inr (tdo, t), d\<lparr>m_hw := s, m_doSleep := (m_measure d = 0 \<and> m_doSleep d)\<rparr>) \<and>
    (m_measure d \<noteq> 0 \<longrightarrow> t \<noteq> None) \<and> ok s \<and> bv_busy (view s) = 0 \<and> bv_len (view s) = word_of_nat l \<and>
    (low_bits l tdo, bv_tap (view s)) = dev_run step (zip (low_bits l tms) (low_bits l tdi)) (br_dev view d)"
proof -
  define s0 where "s0 = m_hw d"
  have s0: "map_has (m_map d) CSR_IDX" "ok s0" "bv_busy (view s0) = 0" "bv_len (view s0) = 32"
    using assms(1) by (simp_all add: br_rdy_def br_good_def s0_def)
  note mp = br_mapped [OF s0(1)]
  define s1 where "s1 = mm_wr hw TDIVEC_IDX tdi (mm_wr hw TMSVEC_IDX tms s0)"
  have s1: "ok s1" "view s1 = (view s0)\<lparr>bv_tms := tms, bv_tdi := tdi\<rparr>"
    using wr_tms [OF s0(2), of tms] wr_tdi [of "mm_wr hw TMSVEC_IDX tms s0" tdi] by (simp_all add: s1_def)
  define s2 where "s2 = (if l < 32 then mm_wr hw LENGTH_IDX (word_of_nat l) s1 else s1)"
  have ul: "unat (word_of_nat l :: u32) = l" using assms(3) by (simp add: unat_u32_of_nat)
  have "bv_len (view s0) = word_of_nat l" if "\<not> l < 32" using that assms(3) s0(4) by simp
  then have s2: "ok s2" "view s2 = (view s0)\<lparr>bv_len := word_of_nat l, bv_tms := tms, bv_tdi := tdi\<rparr>"
    using wr_len [OF s1(1), of "word_of_nat l"] s1 by (simp_all add: s2_def)
  obtain w s3 where r3: "mm_rd hw CSR_IDX s2 = (w, s3)" by (cases "mm_rd hw CSR_IDX s2")
  have s3: "ok s3" "view s3 = view s2" using rd_csr [OF s2(1) r3] s0(3) by (simp_all add: s2(2))
  define s4 where "s4 = mm_wr hw CSR_IDX (w OR CSR_RUN) s3"
  have v3: "view s3 = (view s0)\<lparr>bv_len := word_of_nat l, bv_tms := tms, bv_tdi := tdi\<rparr>" by (simp only: s3(2) s2(2))
  have bit0: "bit (w OR CSR_RUN) 0" by (simp add: bit_or_iff CSR_RUN_def)
  have busy: "bv_busy (view s3) = 0" and len: "l = unat (bv_len (view s3))" using s0(3) ul by (simp_all add: v3)
  have s4: "ok s4" "bv_len (view s4) = word_of_nat l"
    "(low_bits l (bv_tdo (view s4)), bv_tap (view s4)) = dev_run step (zip (low_bits l tms) (low_bits l tdi)) (bv_tap (view s0))"
    using run [OF s3(1) busy bit0 len assms(2,3) s4_def] by (simp_all add: v3)
  define s5 where "s5 = (if m_measure d \<noteq> 0 then snd (clock_gettime hw s4) else s4)"
  have s5: "ok s5" "view s5 = view s4" using clock [OF s4(1)] s4(1) by (simp_all add: s5_def)
  define d5 where "d5 = d\<lparr>m_hw := s5, m_doSleep := (m_measure d = 0 \<and> m_doSleep d)\<rparr>"
  obtain t where t: "measure_start hw (d\<lparr>m_hw := s4\<rparr>) = (Inr t, d5)" "m_measure d \<noteq> 0 \<longrightarrow> t \<noteq> None"
    by (cases "m_measure d = 0") (simp_all add: measure_start_def d5_def s5_def)
  obtain v s6 where p: "poll (br_i32 hw CSR_IDX) (\<lambda>v. v AND CSR_RUN \<noteq> 0) (br_wait hw) d5 = (Inr v, d5\<lparr>m_hw := s6\<rparr>)"
    "ok s6" "view s6 = (view s4)\<lparr>bv_busy := 0\<rparr>"
    using br_poll [of d5] s0(1) s5 by (auto simp: d5_def)
  obtain tdo s7 where r7: "mm_rd hw TDOVEC_IDX s6 = (tdo, s7)" by (cases "mm_rd hw TDOVEC_IDX s6")
  have s7: "ok s7" "view s7 = view s6" "tdo = bv_tdo (view s4)" using rd_tdo [OF p(2) _ r7] p(3) by simp_all
  have e: "br_o32 hw TMSVEC_IDX tms d = (Inr (), d\<lparr>m_hw := mm_wr hw TMSVEC_IDX tms s0\<rparr>)"
    "br_o32 hw TDIVEC_IDX tdi (d\<lparr>m_hw := mm_wr hw TMSVEC_IDX tms s0\<rparr>) = (Inr (), d\<lparr>m_hw := s1\<rparr>)"
    "(if l < 32 then br_o32 hw LENGTH_IDX (word_of_nat l) else retS ()) (d\<lparr>m_hw := s1\<rparr>) = (Inr (), d\<lparr>m_hw := s2\<rparr>)"
    "br_i32 hw CSR_IDX (d\<lparr>m_hw := s2\<rparr>) = (Inr w, d\<lparr>m_hw := s3\<rparr>)"
    "br_o32 hw CSR_IDX (w OR CSR_RUN) (d\<lparr>m_hw := s3\<rparr>) = (Inr (), d\<lparr>m_hw := s4\<rparr>)"
    "br_i32 hw TDOVEC_IDX (d5\<lparr>m_hw := s6\<rparr>) = (Inr tdo, d5\<lparr>m_hw := s7\<rparr>)"
    using mp s0(1) r3 r7 by (simp_all add: br_o32_def br_i32_def s0_def s1_def s2_def s4_def d5_def)
  have "br_x32 hw tms tdi l d = (Inr (tdo, t), d5\<lparr>m_hw := s7\<rparr>)"
    unfolding br_x32_def by (simp only: bindS_def e t(1) p(1) prod.case sum.case sm_simps)
  then show ?thesis using s7 s4 t(2) p(3)
    by (intro exI [of _ tdo] exI [of _ t] exI [of _ s7]) (simp add: d5_def br_dev_def s0_def [symmetric])
qed

lemma br_measure:
  assumes "measure_end hw t d = (Inr (), d')" and "ok (m_hw d)"
  shows "m_map d' = m_map d \<and> m_wrdSiz d' = m_wrdSiz d \<and> m_maxVec d' = m_maxVec d \<and> ok (m_hw d') \<and> view (m_hw d') = view (m_hw d)"
  using assms clock [OF assms(2)]
  by (auto simp: measure_end_def measure_update_def Let_def split: if_splits option.splits)

sublocale serdes_driver hw "br_o32 hw LENGTH_IDX 32" "br_x32 hw" "br_good mv ok view :: 'h dbgBridge \<Rightarrow> bool" "br_rdy mv ok view"
  "br_dev view" step "br_xfer hw" br_getMaxVectorSize bridge_limit
  for mv :: u64
proof
  fix d' d :: "'h dbgBridge" assume "axisToJtag.more d' = axisToJtag.more d"
  then have "m_hw d' = m_hw d" "m_map d' = m_map d" "m_wrdSiz d' = m_wrdSiz d" "m_maxVec d' = m_maxVec d" by (cases d, cases d', simp)+
  then show "br_good mv ok view d' = br_good mv ok view d \<and> br_dev view d' = br_dev view d" by (simp add: br_good_def br_dev_def)
next
  fix d :: "'h dbgBridge" assume g: "br_good mv ok view d"
  then have "map_has (m_map d) LENGTH_IDX" "ok (m_hw d)" using br_mapped by (simp_all add: br_good_def)
  then show "\<exists>d'. br_o32 hw LENGTH_IDX 32 d = (Inr (), d') \<and> br_rdy mv ok view d' \<and> drv_frame d' = drv_frame d \<and> br_dev view d' = br_dev view d"
    using g wr_len [of "m_hw d" 32] by (simp add: br_o32_def br_rdy_def br_good_def br_dev_def drv_frame_def)
next
  fix d :: "'h dbgBridge" and l :: nat and tms tdi assume a: "br_rdy mv ok view d" "1 \<le> l" "l \<le> 32"
  have mp: "map_has (m_map d) CSR_IDX" "m_wrdSiz d = 4" "m_maxVec d = mv" using a(1) by (simp_all add: br_rdy_def br_good_def)
  from br_x32_ok [OF a, of tms tdi] obtain tdo t s where
    x: "br_x32 hw tms tdi l d = (Inr (tdo, t), d\<lparr>m_hw := s, m_doSleep := (m_measure d = 0 \<and> m_doSleep d)\<rparr>)"
    "m_measure d \<noteq> 0 \<longrightarrow> t \<noteq> None" "ok s" "bv_busy (view s) = 0" "bv_len (view s) = word_of_nat l"
    "(low_bits l tdo, bv_tap (view s)) = dev_run step (zip (low_bits l tms) (low_bits l tdi)) (br_dev view d)" by blast
  show "\<exists>tdo t d'. br_x32 hw tms tdi l d = (Inr (tdo, t), d') \<and> (m_measure d' \<noteq> 0 \<longrightarrow> t \<noteq> None) \<and> br_good mv ok view d' \<and>
      (l = 32 \<longrightarrow> br_rdy mv ok view d') \<and> drv_frame d' = drv_frame d \<and>
      (low_bits l tdo, br_dev view d') = dev_run step (zip (low_bits l tms) (low_bits l tdi)) (br_dev view d)"
    by (rule exI [of _ tdo], rule exI [of _ t], rule exI, intro conjI, rule x(1))
      (use x(2-6) mp in \<open>simp_all add: br_good_def br_rdy_def br_dev_def drv_frame_def\<close>)
next
  fix t and d d' :: "'h dbgBridge" assume "br_good mv ok view d" "measure_end hw t d = (Inr (), d')"
  then show "br_good mv ok view d' \<and> (br_rdy mv ok view d \<longrightarrow> br_rdy mv ok view d') \<and> br_dev view d' = br_dev view d"
    using br_measure [of t d d'] by (simp add: br_good_def br_rdy_def br_dev_def)
qed (simp_all add: br_rdy_def br_xfer_def bridge_limit_def)

lemma br_init_ok:
  fixes d :: "'h dbgBridge"
  assumes "drv_wf d" and "m_wordSize d = 4" and "\<not> getSniff d" and "br_good mv ok view d"
  shows "\<exists>d'. br_init hw d = (Inr (), d') \<and> base_valid 4 bridge_limit UNKNOWN_PERIOD d' \<and> br_good mv ok view d' \<and>
    br_dev view d' = br_dev view d \<and> m_bufSz d' = m_bufSz d"
proof -
  have "msg_size 4 bridge_limit \<le> m_bufSz d" "4 \<le> m_bufSz d" using assms(1) by (simp_all add: drv_wf_def msg_size_def bridge_limit_def)
  with query_ok [OF assms(1-3) _ assms(4)] obtain n d' where "query (br_xfer hw) d = (Inr n, d')"
    "base_valid 4 bridge_limit UNKNOWN_PERIOD d'" "br_good mv ok view d'" "br_dev view d' = br_dev view d" "m_bufSz d' = m_bufSz d"
    by (auto simp: hq3)
  then show ?thesis
    by (auto simp: br_init_def br_reset_def init_drv_def bindS_def base_valid_def br_good_def getWordSize_def)
qed

text \<open>The query of the driver answers zero, so only the limit of the driver itself holds.\<close>

lemma br_query_ok:
  fixes d :: "'h dbgBridge"
  assumes "base_valid 4 bridge_limit UNKNOWN_PERIOD d" and "br_good mv ok view d"
  shows "\<exists>d'. query (br_xfer hw) d = (Inr 0, d') \<and> base_valid 4 bridge_limit UNKNOWN_PERIOD d' \<and> br_good mv ok view d' \<and>
    m_bufSz d' = m_bufSz d"
proof -
  have v: "drv_wf d" "m_wordSize d = 4" "\<not> getSniff d" "msg_size 4 bridge_limit \<le> m_bufSz d" using assms(1) by (simp_all add: base_valid_def)
  then have "4 \<le> m_bufSz d" by (simp add: drv_wf_def)
  with query_ok [OF v assms(2)] show ?thesis by (auto simp: hq3)
qed

lemma bridge_serial:
  "serial_driver (axisToJtag_ops (br_xfer hw) br_getMaxVectorSize)
     (\<lambda>d :: 'h dbgBridge. base_valid 4 bridge_limit UNKNOWN_PERIOD d \<and> br_good mv ok view d) bridge_limit (br_dev view) step
     (period_reply UNKNOWN_PERIOD)"
  using serial_driver_axioms by (simp only: hq3)

end

section \<open>Interpretations\<close>

text \<open>The transfer leaves the members of the base class and the sizes of the buffers alone, whatever the hardware does.\<close>

interpretation br_inv: reg_inv "\<lambda>d :: ('s, 'z) dbgBridge_scheme. drv_frame d = f" for f
  by unfold_locales (simp_all add: drv_frame_def)

lemma br_pres:
  "presS (\<lambda>d :: ('s, 'z) dbgBridge_scheme. drv_frame d = f) (br_o32 hw idx v)"
  "presS (\<lambda>d :: ('s, 'z) dbgBridge_scheme. drv_frame d = f) (br_i32 hw idx)"
  "presS (\<lambda>d :: ('s, 'z) dbgBridge_scheme. drv_frame d = f) (br_wait hw)"
  "presS (\<lambda>d :: ('s, 'z) dbgBridge_scheme. drv_frame d = f) (measure_start hw)"
  "presS (\<lambda>d :: ('s, 'z) dbgBridge_scheme. drv_frame d = f) (measure_end hw t)"
proof -
  show "presS (\<lambda>d :: ('s, 'z) dbgBridge_scheme. drv_frame d = f) (br_o32 hw idx v)"
    "presS (\<lambda>d :: ('s, 'z) dbgBridge_scheme. drv_frame d = f) (br_i32 hw idx)"
    by (rule presS_dep [where m = "\<lambda>m. map_wr hw m idx v" and h = m_map, OF br_inv.pres_map(2)], rule br_o32_def, rule presS_dep [where m = "\<lambda>m. map_rd hw m idx" and h = m_map, OF br_inv.pres_map(1)], rule br_i32_def)
  show "presS (\<lambda>d :: ('s, 'z) dbgBridge_scheme. drv_frame d = f) (br_wait hw)"
    by (rule presS_dep [where m = "\<lambda>(slp, t). if slp then sleepS hw t else retS ()" and h = "\<lambda>d. (m_doSleep d, m_pollTime d)"])
      (auto simp: br_wait_def intro: presS_if br_inv.pres_sleep)
  show "presS (\<lambda>d :: ('s, 'z) dbgBridge_scheme. drv_frame d = f) (measure_start hw)"
    "presS (\<lambda>d :: ('s, 'z) dbgBridge_scheme. drv_frame d = f) (measure_end hw t)"
    by (rule presS_I, auto simp: measure_start_def measure_end_def measure_update_def drv_frame_def bindS_def Let_def split: if_splits option.splits)+
qed

lemma br_x32_pres: "presS (\<lambda>d :: ('s, 'z) dbgBridge_scheme. drv_frame d = f) (br_x32 hw tms tdi l)"
  unfolding br_x32_def by (intro presS_if presS_bind presS_pure presS_poll br_pres)

interpretation br_transport: xfer_transport "br_xfer hw :: ('s, 'z) dbgBridge_scheme xfer_fn" for hw :: "'s mmio"
proof
  fix txb n hb hs rxb sz r hb' rxb' and d d' :: "('s, 'z) dbgBridge_scheme"
  assume "br_xfer hw txb n hb hs rxb sz d = ((r, hb', rxb'), d')"
  from io_xfer_inv [OF presS_serdes_xfer [OF br_x32_pres br_pres(5,1)] refl this [unfolded br_xfer_def]]
  show "drv_frame d' = drv_frame d" "length hb' = length hb" "length rxb' = length rxb" by simp_all
qed

lemma bits_of_horner:
  "length xs = l \<Longrightarrow> l \<le> 32 \<Longrightarrow> low_bits l (word_of_nat (horner_sum of_bool 2 xs)) = xs"
  by (rule nth_equalityI) (simp_all add: low_bits_def bit_simps bit_horner_sum_bit_iff)

interpretation eb: debug_bridge "emul_bridge step lat" "\<lambda>_. True" "\<lambda>s. s" step
  for step :: "bool \<times> bool \<Rightarrow> 't \<Rightarrow> bool \<times> 't" and lat :: nat
proof
  fix s s' :: "'t bridge_view" and v l
  assume a: "l = unat (bv_len s)" "1 \<le> l" "l \<le> 32" "bit v 0" "s' = mm_wr (emul_bridge step lat) CSR_IDX v s"
  obtain out t where r: "dev_run step (zip (low_bits l (bv_tms s)) (low_bits l (bv_tdi s))) (bv_tap s) = (out, t)"
    by (cases "dev_run step (zip (low_bits l (bv_tms s)) (low_bits l (bv_tdi s))) (bv_tap s)")
  have "length out = l" using length_dev_run [of step "zip (low_bits l (bv_tms s)) (low_bits l (bv_tdi s))" "bv_tap s"] by (simp add: r)
  then show "True \<and> bv_len s' = bv_len s \<and> (low_bits l (bv_tdo s'), bv_tap s') =
      dev_run step (zip (low_bits l (bv_tms s)) (low_bits l (bv_tdi s))) (bv_tap s)"
    using a r bits_of_horner [of out l] by (simp add: emul_bridge_def bridge_run_def bridge_regs)
qed (auto simp: emul_bridge_def bridge_regs split: if_splits)

end
