(* ===== verification/Srv_Bridge.thy ===== *)
theory Srv_Bridge
  imports Xvc_Server Drv_Bridge
begin

text \<open>
  The server with the driver of the AXI debug bridge: from the construction of the driver to the
  replies that a client gets, over any hardware that behaves like the bridge.
\<close>

section \<open>The driver as the server sees it\<close>

definition bridge_ops :: "'s mmio \<Rightarrow> 's dbgBridge jtag_ops" where
  "bridge_ops hw = axisToJtag_ops (br_xfer hw) br_getMaxVectorSize"

section \<open>Lemmas\<close>

text \<open>The driver is ready after its construction and \<^verbatim>\<open>init\<close>.\<close>

lemma bridge_ready:
  assumes hw: "debug_bridge hw ok view step"
    and new: "dbgBridge_new host xid0 env s0 args devnam = Inr d0" and page: "sys_pagesize env = 2 ^ k" "k \<le> 62"
    and s0: "ok s0" "bv_busy (view s0) = 0"
  shows "\<exists>d. br_init hw d0 = (Inr (), d) \<and> base_valid 4 bridge_limit UNKNOWN_PERIOD d \<and> br_good (m_maxVec d) ok view d \<and>
    br_dev view d = bv_tap (view s0) \<and> m_bufSz d = 2048 \<and> br_options args 1024 = Inr (m_maxVec d)"
proof -
  note n = dbgBridge_new_ok [OF new page]
  then have "br_good (m_maxVec d0) ok view d0" using s0 by (simp add: br_good_def)
  with n obtain d where d: "br_init hw d0 = (Inr (), d)" "base_valid 4 bridge_limit UNKNOWN_PERIOD d"
    "br_good (m_maxVec d0) ok view d" "br_dev view d = br_dev view d0" "m_bufSz d = m_bufSz d0"
    using debug_bridge.br_init_ok [OF hw, of d0 "m_maxVec d0"] by auto
  then have "m_maxVec d = m_maxVec d0" "br_good (m_maxVec d) ok view d" by (simp_all add: br_good_def)
  with d n show ?thesis by (simp add: br_dev_def)
qed

lemma bridge_query:
  assumes "debug_bridge hw ok view step" and "base_valid 4 bridge_limit UNKNOWN_PERIOD d" and "br_good mv ok view d"
  shows "\<exists>d'. op_query (bridge_ops hw) d = (Inr 0, d') \<and> base_valid 4 bridge_limit UNKNOWN_PERIOD d' \<and> br_good mv ok view d' \<and>
    m_bufSz d' = m_bufSz d \<and> op_getMaxVectorSize (bridge_ops hw) d' = unat mv"
  using debug_bridge.br_query_ok [OF assms]
  by (auto simp: bridge_ops_def axisToJtag_ops_def br_getMaxVectorSize_def br_good_def)

section \<open>Concrete runs\<close>

text \<open>A page size of 4096, a bridge at rest, and a device that delays its input by one bit.\<close>

definition bridge_env :: map_env where
  "bridge_env = \<lparr>sys_open = \<lambda>_. 3, sys_pagesize = 4096, sys_mmap = \<lambda>_ _. True\<rparr>"

definition bridge_rest :: "bool bridge_view" where
  "bridge_rest = \<lparr>bv_len = 0, bv_tms = 0, bv_tdi = 0, bv_tdo = 0, bv_busy = 0, bv_tap = False\<rparr>"

definition delay_bit :: "bool \<times> bool \<Rightarrow> bool \<Rightarrow> bool \<times> bool" where
  "delay_bit tms_tdi t = (t, snd tms_tdi)"

lemma bridge_example_new:
  assumes "br_options args 1024 = Inr mv"
  shows "\<exists>d0. dbgBridge_new le_platform 0 bridge_env bridge_rest args ''m:0'' = Inr d0"
proof -
  have "map_target ''m:0'' = Inr (''m'', 0)" by (simp add: map_target_def strtoul_def is_space_def digit_val_def Let_def)
  then show ?thesis using assms by (simp add: dbgBridge_new_def memMap_new_def bridge_env_def br_reset_def Let_def)
qed

section \<open>Properties\<close>

text \<open>
  C6.  The server with the debug bridge driver: when the bridge does what its registers promise, then the constructor and
  \<^verbatim>\<open>init\<close> leave a driver with which a client gets the replies the protocol asks for, the TDO bits being those that the
  device at the bridge shifts out, provided that no vector that reaches the driver has more than 1020 bytes.  These have at most
  the length \<open>mc\<close> of the client's longest shift and at most the limit \<open>mv\<close> of the driver (option \<^verbatim>\<open>-M\<close> of the driver, zero for none), as
  the server passes on longer ones in pieces.  With the limit that the driver has by default, 1024 bytes, the shifts
  themselves must not be longer than 1020 bytes.
\<close>

theorem bridge_session:
  assumes "debug_bridge hw ok view step" and "dbgBridge_new host xid0 env s0 args devnam = Inr d0"
    and "sys_pagesize env = 2 ^ k" and "k \<le> 62" and "ok s0" and "bv_busy (view s0) = 0"
    and "br_options args 1024 = Inr mv" and "min mc (sup_len 0 mx (unat mv)) \<le> bridge_limit" and "mc \<le> mx"
    and "br_init hw d0 = (r, d1)" and "xvcConn_new sd evs wr 0 d1 mx = Inr c" and "mx < 2 ^ 32"
    and "clean evs" and "\<forall>i. 0 < wr i" and "ev_bytes evs = concat (map encode_msg ms)" and "list_all (msg_ok mc) ms"
  shows "r = Inr () \<and> (\<exists>c'. conn_run (bridge_ops hw) c = Some (if eof evs then SysErr ''Unable to read from socket'' else Blocked, c') \<and>
    session step (\<lambda>p. p) mx ms (bv_tap (view s0)) (c_out c') (bv_tap (view (m_hw (c_drv c')))))"
proof -
  have d1: "r = Inr ()" "base_valid 4 bridge_limit UNKNOWN_PERIOD d1" "br_good mv ok view d1" "br_dev view d1 = bv_tap (view s0)"
    using bridge_ready [OF assms(1-6)] assms(7,10) by auto
  have fit: "chunks_fit (bridge_ops hw) (sup_len 0 mx (unat mv)) mx d1" using bridge_query [OF assms(1) d1(2,3)] by (auto simp: chunks_fit_def)
  note ser = debug_bridge.bridge_serial [OF assms(1), of mv, folded bridge_ops_def]
  from serial_driver.conn_session [OF ser conjI [OF d1(2,3)] fit assms(12,11,13-16,9,8)] d1(1,4)
  show ?thesis by (simp only: br_dev_def period_reply_unknown) blast
qed

theorem bridge_session_witness:
  "\<exists>d0. dbgBridge_new le_platform 0 bridge_env bridge_rest [] ''m:0'' = Inr d0 \<and>
    (\<exists>c'. conn_run (bridge_ops (emul_bridge delay_bit 3))
        (case xvcConn_new 5 [Data (ascii ''shift:'' @ [12, 0, 0, 0, 1, 2]), Data [3, 4]] (\<lambda>_. 1) 0 (snd (br_init (emul_bridge delay_bit 3) d0)) 32768
         of Inr c \<Rightarrow> c) =
        Some (if eof [Data (ascii ''shift:'' @ [12, 0, 0, 0, 1, 2]), Data [3, 4]] then SysErr ''Unable to read from socket'' else Blocked, c') \<and>
      session delay_bit (\<lambda>p. p) 32768 [Shift 12 [1, 2] [3, 4]] False (c_out c') (bv_tap (m_hw (c_drv c'))))"
proof -
  have opt: "br_options [] 1024 = Inr 1024" by simp
  obtain d0 where new: "dbgBridge_new le_platform 0 bridge_env bridge_rest [] ''m:0'' = Inr d0"
    using bridge_example_new [OF opt] by blast
  obtain r d1 where init: "br_init (emul_bridge delay_bit 3) d0 = (r, d1)" by fastforce
  define evs where "evs = [Data (ascii ''shift:'' @ [12, 0, 0, 0, 1, 2]), Data [3, 4]]"
  obtain c where c: "xvcConn_new 5 evs (\<lambda>_. 1) 0 d1 32768 = Inr c" by (simp add: xvcConn_new_def)
  have "r = Inr () \<and> (\<exists>c'. conn_run (bridge_ops (emul_bridge delay_bit 3)) c = Some (if eof evs then SysErr ''Unable to read from socket'' else Blocked, c') \<and>
      session delay_bit (\<lambda>p. p) 32768 [Shift 12 [1, 2] [3, 4]] (bv_tap bridge_rest) (c_out c') (bv_tap (m_hw (c_drv c'))))"
    by (rule bridge_session [where view = "\<lambda>s. s" and k = 12 and mc = 1020, OF eb.debug_bridge_axioms new _ _ _ _ opt min.coboundedI1 _ init c])
      (simp_all add: bridge_env_def bridge_rest_def bridge_limit_def evs_def vec_bytes_def ascii_def le_bytes32_def)
  then show ?thesis using new init c by (auto simp: evs_def bridge_rest_def)
qed

text \<open>
  C36.  With the limit the driver has by default, 1024 bytes, the server passes vectors of 1024 bytes
  to \<^verbatim>\<open>sendVectors\<close>, but the message of such vectors is four bytes longer than the transmit buffer: the
  first long shift of a client writes past its end.  The bridge never gets to see it.
\<close>

theorem bridge_default_overflow:
  assumes "debug_bridge hw ok view step" and "dbgBridge_new host xid0 env s0 [] devnam = Inr d0"
    and "sys_pagesize env = 2 ^ k" and "k \<le> 62" and "ok s0" and "bv_busy (view s0) = 0" and "br_init hw d0 = (r, d1)"
    and "xvcConn_new sd evs wr nodelay d1 mx = Inr c" and "1024 \<le> mx" and "allocBufs (bridge_ops hw) c = (r', c')"
    and "length tms = 1024" and "length tdi = 1024"
  shows "r' = Inr () \<and> c_supVecLen c' = 1024 \<and>
    fst (fst (op_sendVectors (bridge_ops hw) (8 * c_supVecLen c') tms tdi tdo (c_drv c'))) = Inl (Fault ''write out of bounds'')"
proof -
  have d1': "base_valid 4 bridge_limit UNKNOWN_PERIOD d1" "br_good 1024 ok view d1" "m_bufSz d1 = 2048"
    using bridge_ready [OF assms(1-6)] assms(7) by auto
  obtain d where d: "op_query (bridge_ops hw) d1 = (Inr 0, d)" "base_valid 4 bridge_limit UNKNOWN_PERIOD d" "m_bufSz d = 2048"
    "op_getMaxVectorSize (bridge_ops hw) d = 1024"
    using bridge_query [OF assms(1) d1'(1,2)] d1'(3) by auto
  have c': "r' = Inr ()" "c_supVecLen c' = 1024" "c_drv c' = d"
    using assms(9,10) d(1,4) xvcConn_newD [OF assms(8)] by (auto simp: allocBufs_def sup_len_def Let_def)
  have w: "4 = m_wordSize d" "length (m_txBuf d) = 2048" using d(2,3) by (simp_all add: base_valid_def drv_wf_def)
  have "pack_msg (isLE (m_host d)) 4 (1024 div 4) (1024 div 4 * 4) (1024 - 1024 div 4 * 4) h tms tdi (m_txBuf d) =
      Inl (Fault ''write out of bounds'')" for h
    by (rule pack_msg_overflow) (use w assms(11,12) in simp_all)
  then have "fst (fst (sendVectors (br_xfer hw) 8192 tms tdi tdo d)) = Inl (Fault ''write out of bounds'')"
    by (subst sendVectors_eq [where n = 1024, OF _ _ w(1) _ refl]) simp_all
  then show ?thesis using c' by (simp add: bridge_ops_def axisToJtag_ops_def)
qed

theorem bridge_default_overflow_witness:
  "\<exists>d0. dbgBridge_new le_platform 0 bridge_env bridge_rest [] ''m:0'' = Inr d0 \<and>
    (case xvcConn_new 5 [] (\<lambda>_. 1) 0 (snd (br_init (emul_bridge delay_bit 3) d0)) 32768 of
       Inl _ \<Rightarrow> False
     | Inr c \<Rightarrow> fst (fst (op_sendVectors (bridge_ops (emul_bridge delay_bit 3)) 8192 (replicate 1024 0) (replicate 1024 0) (replicate 1024 0)
         (c_drv (snd (allocBufs (bridge_ops (emul_bridge delay_bit 3)) c))))) = Inl (Fault ''write out of bounds''))"
proof -
  obtain d0 where new: "dbgBridge_new le_platform 0 bridge_env bridge_rest [] ''m:0'' = Inr d0"
    using bridge_example_new [of "[]"] by auto
  obtain r d1 where init: "br_init (emul_bridge delay_bit 3) d0 = (r, d1)" by fastforce
  obtain c where c: "xvcConn_new 5 [] (\<lambda>_. 1) 0 d1 32768 = Inr c" by (simp add: xvcConn_new_def)
  obtain r' c' where a: "allocBufs (bridge_ops (emul_bridge delay_bit 3)) c = (r', c')" by fastforce
  have "r' = Inr () \<and> c_supVecLen c' = 1024 \<and> fst (fst (op_sendVectors (bridge_ops (emul_bridge delay_bit 3)) (8 * c_supVecLen c')
      (replicate 1024 0) (replicate 1024 0) (replicate 1024 0) (c_drv c'))) = Inl (Fault ''write out of bounds'')"
    by (rule bridge_default_overflow [where view = "\<lambda>s. s" and k = 12, OF eb.debug_bridge_axioms new _ _ _ _ init c _ a])
      (simp_all add: bridge_env_def bridge_rest_def)
  then show ?thesis using new init c a by auto
qed

end
