(* ===== verification/Drv_Tmem.thy ===== *)
theory Drv_Tmem
  imports Serdes_Driver
begin

text \<open>
  The driver of the TMEM interface, class \<^verbatim>\<open>JtagDriverTmemFifo\<close> of \<^verbatim>\<open>xvcDrvAxisTmem.h\<close> and
  \<^verbatim>\<open>xvcDrvAxisTmem.cc\<close>.  The firmware is either a FIFO for the stream protocol or a raw serialiser; in
  the second case the JTAG lines can also be driven bit by bit.

  The registers are reached through the library \<^verbatim>\<open>toscaApi\<close>, which is a parameter: the parser of an
  address space (with the rest of the string), and reading and writing of an address.
\<close>

section \<open>JtagDriverTmemFifo\<close>

record 's tosca = "'s irq_env" +
  toscaStrToAddrSpace :: "string \<Rightarrow> nat \<times> string"
  toscaRead :: "nat \<Rightarrow> u64 \<Rightarrow> 's \<Rightarrow> u32 \<times> 's"
  toscaWrite :: "nat \<Rightarrow> u64 \<Rightarrow> u32 \<Rightarrow> 's \<Rightarrow> 's"

definition FIFO_DAT_IDX :: nat where "FIFO_DAT_IDX = 0"
definition FIFO_MAGIC_IDX :: nat where "FIFO_MAGIC_IDX = 1"
definition FIFO_CSR_IDX :: nat where "FIFO_CSR_IDX = 2"
definition FIFO_CSR_RST :: u32 where "FIFO_CSR_RST = push_bit 23 1"
definition FIFO_CSR_EOFO :: u32 where "FIFO_CSR_EOFO = push_bit 16 1"
definition FIFO_CSR_EMPI :: u32 where "FIFO_CSR_EMPI = push_bit 17 1"
definition FIFO_CSR_IENI :: u32 where "FIFO_CSR_IENI = push_bit 19 1"
definition FIFO_CSR_NWRDS :: nat where "FIFO_CSR_NWRDS = 0"
definition FIFO_CSR_NWRDM :: u32 where "FIFO_CSR_NWRDM = 0xffff"
definition FIFO_CSR_MAXWS :: nat where "FIFO_CSR_MAXWS = 24"
definition FIFO_CSR_MAXWM :: u32 where "FIFO_CSR_MAXWM = 0x0f000000"
definition FIFO_CSR_VERSM :: u32 where "FIFO_CSR_VERSM = 0xf0000000"
definition FIFO_CSR_VERSS :: nat where "FIFO_CSR_VERSS = 28"

definition VERSION_0 :: u32 where "VERSION_0 = 0"
definition VERSION_1 :: u32 where "VERSION_1 = 1"
definition MAGIC :: u32 where "MAGIC = 0x6666aaaa"

definition SDES_TMS_IDX :: nat where "SDES_TMS_IDX = 4"
definition SDES_TDI_IDX :: nat where "SDES_TDI_IDX = 5"
definition SDES_CSR_IDX :: nat where "SDES_CSR_IDX = 6"
definition SDES_TDO_IDX :: nat where "SDES_TDO_IDX = 7"

definition SDES_CSR_RUN :: u32 where "SDES_CSR_RUN = 0x00000100"
definition SDES_CSR_BSY :: u32 where "SDES_CSR_BSY = 0x00000200"
definition SDES_CSR_LENS :: nat where "SDES_CSR_LENS = 0"
definition SDES_CSR_LRMSK :: u32 where "SDES_CSR_LRMSK = 0x00000fff"
definition SDES_CSR_BBMSK :: u32 where "SDES_CSR_BBMSK = 0x000f0000"
definition SDES_CSR_BB_TCK :: u32 where "SDES_CSR_BB_TCK = 0x00010000"
definition SDES_CSR_BB_TMS :: u32 where "SDES_CSR_BB_TMS = 0x00020000"
definition SDES_CSR_BB_TDI :: u32 where "SDES_CSR_BB_TDI = 0x00040000"
definition SDES_CSR_BB_TDO :: u32 where "SDES_CSR_BB_TDO = 0x00080000"
definition SDES_CSR_BB_ENA :: u32 where "SDES_CSR_BB_ENA = 0x80000000"
definition SDES_PROBEVAL :: u32 where "SDES_PROBEVAL = push_bit SDES_CSR_LENS 0xa"

record 's tmemFifo = "'s polledDrv" +
  m_toscaSpace :: nat
  m_toscaBase :: u64
  m_maxVec :: u64
  m_wrdSiz :: nat
  m_irqFd :: int
  m_bitBang :: bool
  m_useSdes :: bool
  m_logBscn :: bool
  m_version :: u32

definition tm_o32 :: "'s tosca \<Rightarrow> nat \<Rightarrow> u32 \<Rightarrow> (('s, 'z) tmemFifo_scheme, unit) sm" where
  "tm_o32 api idx v d = hwS (\<lambda>s. ((), toscaWrite api (m_toscaSpace d) (m_toscaBase d + word_of_nat (4 * idx)) v s)) d"

definition tm_i32 :: "'s tosca \<Rightarrow> nat \<Rightarrow> (('s, 'z) tmemFifo_scheme, u32) sm" where
  "tm_i32 api idx d = hwS (toscaRead api (m_toscaSpace d) (m_toscaBase d + word_of_nat (4 * idx))) d"

definition tm_wait :: "'s tosca \<Rightarrow> (('s, 'z) tmemFifo_scheme, u32) sm" where
  "tm_wait api d =
     (if 0 \<le> m_irqFd d then irq_wait api d
      else if m_doSleep d then bindS (sleepS api (m_pollTime d)) (\<lambda>_. retS 0) d
      else (Inr 0, d))"

text \<open>Shifting up to 32 bits with the serialiser; \<open>timed\<close> tells whether a time was asked for.\<close>

definition xfer32sdes :: "'s tosca \<Rightarrow> u32 \<Rightarrow> u32 \<Rightarrow> nat \<Rightarrow> bool \<Rightarrow>
    (('s, 'z) tmemFifo_scheme, u32 \<times> (int \<times> int) option) sm" where
  "xfer32sdes api tms tdi nbits timed =
     bindS (tm_i32 api SDES_CSR_IDX) (\<lambda>v.
       let csr = (v AND NOT SDES_CSR_LRMSK) OR push_bit SDES_CSR_LENS (word_of_nat nbits - 1) in
       bindS (tm_o32 api SDES_TMS_IDX tms) (\<lambda>_.
       bindS (tm_o32 api SDES_TDI_IDX tdi) (\<lambda>_.
       bindS (tm_o32 api SDES_CSR_IDX (csr OR SDES_CSR_RUN)) (\<lambda>_.
       bindS (if timed then measure_start api else retS None) (\<lambda>start.
       bindS (poll (tm_i32 api SDES_CSR_IDX) (\<lambda>v. v AND SDES_CSR_BSY \<noteq> 0) (bindS (tm_wait api) (\<lambda>_. retS ()))) (\<lambda>_.
       bindS (tm_i32 api SDES_TDO_IDX) (\<lambda>tdo.
         if nbits = 0 \<or> 32 < nbits then throwS (Fault ''shift past the width of the type'')
         else retS (drop_bit (32 - nbits) tdo, start))))))))"

text \<open>
  Driving the lines bit by bit: the loop has \<open>k\<close> bits left, \<open>i\<close> is the number of the bit.  TDO is read
  while TCK is low, and the last TCK stays high.  After each write the driver sleeps for a microsecond.
\<close>

definition bbsleep :: "'s tosca \<Rightarrow> (('s, 'z) tmemFifo_scheme, unit) sm" where
  "bbsleep api = sleepS api 1000"

definition set_line :: "u32 \<Rightarrow> bool \<Rightarrow> u32 \<Rightarrow> u32" where
  "set_line line on csr = (if on then csr OR line else csr AND NOT line)"

primrec bb_bits :: "'s tosca \<Rightarrow> u32 \<Rightarrow> u32 \<Rightarrow> nat \<Rightarrow> nat \<Rightarrow> u32 \<Rightarrow> u32 \<Rightarrow> (('s, 'z) tmemFifo_scheme, u32) sm" where
  "bb_bits api tms tdi 0 i csr tdo = retS tdo"
| "bb_bits api tms tdi (Suc k) i csr tdo =
     (let m = push_bit i 1;
          csr1 = set_line SDES_CSR_BB_TDI (tdi AND m \<noteq> 0) (set_line SDES_CSR_BB_TMS (tms AND m \<noteq> 0) csr);
          csr2 = csr1 OR SDES_CSR_BB_TCK
      in bindS (tm_o32 api SDES_CSR_IDX csr1) (\<lambda>_.
         bindS (bbsleep api) (\<lambda>_.
         bindS (tm_i32 api SDES_CSR_IDX) (\<lambda>csrrb.
         bindS (tm_o32 api SDES_CSR_IDX csr2) (\<lambda>_.
         bindS (bbsleep api) (\<lambda>_.
         bindS (\<lambda>d. if m_logBscn d then bindS (tm_i32 api SDES_CSR_IDX) (\<lambda>_. retS ()) d else (Inr (), d)) (\<lambda>_.
           bb_bits api tms tdi k (i + 1) (csr2 AND NOT SDES_CSR_BB_TCK)
             (if csrrb AND SDES_CSR_BB_TDO \<noteq> 0 then tdo OR m else tdo))))))))"

definition xfer32bb :: "'s tosca \<Rightarrow> u32 \<Rightarrow> u32 \<Rightarrow> nat \<Rightarrow> (('s, 'z) tmemFifo_scheme, u32) sm" where
  "xfer32bb api tms tdi nbits =
     bindS (tm_i32 api SDES_CSR_IDX) (\<lambda>v. bb_bits api tms tdi nbits 0 (v AND NOT SDES_CSR_BBMSK) 0)"

text \<open>
  \<^verbatim>\<open>reset\<close>.  The variable \<^verbatim>\<open>csr\<close> is set only for version 1: \<open>None\<close> before.
\<close>

definition tm_reset_fifo :: "'s tosca \<Rightarrow> (('s, 'z) tmemFifo_scheme, unit) sm" where
  "tm_reset_fifo api d =
     (if \<not> m_useSdes d then
        bindS (tm_o32 api FIFO_CSR_IDX FIFO_CSR_RST) (\<lambda>_.
        bindS (tm_o32 api FIFO_CSR_IDX 0) (\<lambda>_ d.
          if 0 \<le> m_irqFd d then tm_o32 api FIFO_CSR_IDX FIFO_CSR_IENI d else (Inr (), d))) d
      else (Inr (), d))"

definition tm_reset_lines :: "'s tosca \<Rightarrow> (('s, 'z) tmemFifo_scheme, u32 option) sm" where
  "tm_reset_lines api d =
     (if m_version d = VERSION_1 then
        bindS (tm_i32 api SDES_CSR_IDX) (\<lambda>v.
          let csr = ((v AND NOT SDES_CSR_BBMSK) OR SDES_CSR_BB_TMS) AND NOT SDES_CSR_BB_TDI AND NOT SDES_CSR_BB_TCK
                AND NOT SDES_CSR_BB_ENA
          in bindS (tm_o32 api SDES_CSR_IDX csr) (\<lambda>_.
             bindS (\<lambda>d. if m_useSdes d then bindS (xfer32sdes api 0xff 0 8 False) (\<lambda>_. retS ()) d else (Inr (), d))
               (\<lambda>_. retS (Some csr)))) d
      else (Inr None, d))"

definition tm_reset :: "'s tosca \<Rightarrow> (('s, 'z) tmemFifo_scheme, unit) sm" where
  "tm_reset api =
     bindS (tm_reset_fifo api) (\<lambda>_.
     bindS (tm_reset_lines api) (\<lambda>c d.
       if m_bitBang d then
         (case c of
            None \<Rightarrow> (Inl (Fault ''use of an uninitialised variable''), d)
          | Some csr \<Rightarrow> tm_o32 api SDES_CSR_IDX (csr OR SDES_CSR_BB_ENA) d)
       else (Inr (), d)))"

text \<open>
  The constructor.  \<^verbatim>\<open>useSdes_\<close> is not initialised: its first value is the argument \<open>sdes0\<close>.  The
  expression \<^verbatim>\<open>~useSdes_\<close> is the bitwise complement of 0 or 1 and so never zero.  The options are the
  bit bang flag, the log flag and the name of the interrupt file, which \<open>irq_open\<close> opens.
\<close>

record tmem_opts =
  to_bitBang :: bool
  to_logBscn :: bool
  to_irqfn :: "string option"

primrec tm_options :: "(char \<times> string) list \<Rightarrow> tmem_opts \<Rightarrow> tmem_opts res" where
  "tm_options [] o1 = Inr o1"
| "tm_options (a # as) o1 =
     (if fst a = CHR ''b'' then tm_options as (o1\<lparr>to_bitBang := True\<rparr>)
      else if fst a = CHR ''l'' then tm_options as (o1\<lparr>to_logBscn := True\<rparr>)
      else if fst a = CHR ''i'' then tm_options as (o1\<lparr>to_irqfn := Some (snd a)\<rparr>)
      else Inl (RuntimeErr ''Unknown driver option''))"

definition tm_target :: "'s tosca \<Rightarrow> string \<Rightarrow> (nat \<times> u64) res" where
  "tm_target api devnam =
     (case toscaStrToAddrSpace api devnam of
        (space, basp) \<Rightarrow>
          (case strtoul basp of
             None \<Rightarrow> Inl (RuntimeErr ''Invalid <target>'')
           | Some (base, _) \<Rightarrow> if space = 0 then Inl (RuntimeErr ''Invalid <target>'') else Inr (space, base)))"

definition tm_probe :: "'s tosca \<Rightarrow> u32 \<Rightarrow> tmem_opts \<Rightarrow> (('s, 'z) tmemFifo_scheme, unit) sm" where
  "tm_probe api csrVal opts d0 =
     (let d = d0\<lparr>m_version := drop_bit FIFO_CSR_VERSS (csrVal AND FIFO_CSR_VERSM)\<rparr> in
      if m_version d = VERSION_0 then (Inr (), d\<lparr>m_bitBang := False, m_logBscn := False\<rparr>)
      else if m_version d = VERSION_1 then
        bindS (tm_i32 api SDES_CSR_IDX) (\<lambda>v.
        bindS (tm_o32 api SDES_CSR_IDX ((v AND NOT SDES_CSR_LRMSK) OR SDES_PROBEVAL)) (\<lambda>_.
        bindS (tm_i32 api SDES_CSR_IDX) (\<lambda>v' d.
          (Inr (), if v' AND SDES_CSR_LRMSK = SDES_PROBEVAL then d\<lparr>m_useSdes := True\<rparr> else d))))
          (d\<lparr>m_bitBang := to_bitBang opts, m_logBscn := to_logBscn opts\<rparr>)
      else (Inl (RuntimeErr ''TMEM Device wrong FW version''), d))"

definition tm_maxVec :: "u32 \<Rightarrow> u64" where
  "tm_maxVec csrVal =
     (let maxWords = ucast (push_bit 10 (drop_bit FIFO_CSR_MAXWS (csrVal AND FIFO_CSR_MAXWM)) div 4) :: u64
      in (maxWords - 1) * 4 div 2)"

definition tm_setup :: "'s tosca \<Rightarrow> (string \<Rightarrow> int) \<Rightarrow> (char \<times> string) list \<Rightarrow> (('s, 'z) tmemFifo_scheme, unit) sm" where
  "tm_setup api irq_open args =
     bindS (tm_i32 api FIFO_MAGIC_IDX) (\<lambda>magic.
       if MAGIC \<noteq> magic then throwS (RuntimeErr ''TMEM Device not found'')
       else
         bindS (liftR (tm_options args \<lparr>to_bitBang = False, to_logBscn = False, to_irqfn = None\<rparr>)) (\<lambda>opts.
         bindS (tm_i32 api FIFO_CSR_IDX) (\<lambda>csrVal.
         bindS (tm_probe api csrVal opts) (\<lambda>_ d.
           let d1 = (if m_logBscn d then d\<lparr>m_bitBang := True\<rparr> else d);
               d2 = (if m_bitBang d1 \<or> NOT (if m_useSdes d1 then 1 else 0 :: u32) \<noteq> 0 then d1\<lparr>m_measure := 0\<rparr> else d1);
               irqfn = (if m_bitBang d2 \<or> m_useSdes d2 then None else to_irqfn opts);
               d3 = (case irqfn of None \<Rightarrow> d2 | Some f \<Rightarrow> d2\<lparr>m_irqFd := irq_open f\<rparr>)
           in tm_reset api (d3\<lparr>m_maxVec := tm_maxVec csrVal\<rparr>)))))"

definition tmemFifo_new :: "platform \<Rightarrow> u8 \<Rightarrow> bool \<Rightarrow> 's tosca \<Rightarrow> 's \<Rightarrow> (string \<Rightarrow> int) \<Rightarrow> (char \<times> string) list \<Rightarrow> string \<Rightarrow>
    's tmemFifo res" where
  "tmemFifo_new host xid0 sdes0 api s0 irq_open args devnam =
     bindR (tm_target api devnam) (\<lambda>(space, base).
       let d0 = polledDrv.extend
                  (regDrv.extend (axisToJtag.extend (axisToJtag_new host xid0 0) (regDrv.fields s0))
                     (polledDrv.fields False 100 0 0))
                  (tmemFifo.fields space base 128 4 (-1) False sdes0 False 0)
       in (case tm_setup api irq_open args d0 of (Inl e, _) \<Rightarrow> Inl e | (Inr _, d) \<Rightarrow> Inr d))"

text \<open>The transfer through the FIFO: the words are exchanged with their bytes swapped.\<close>

definition tm_dat :: "'s tosca \<Rightarrow> (('s, 'z) tmemFifo_scheme, u32) sm" where
  "tm_dat api = bindS (tm_i32 api FIFO_DAT_IDX) (\<lambda>w. retS (bswap32 w))"

definition tm_tx :: "'s tosca \<Rightarrow> bool \<Rightarrow> u8 list \<Rightarrow> nat \<Rightarrow> (('s, 'z) tmemFifo_scheme, unit) sm" where
  "tm_tx api le txb txBytes =
     (let txWords0 = (word_of_nat txBytes + 3) div 4 :: u32;
          lastBytes = word_of_nat txBytes - 4 * (txWords0 - 1) :: u32;
          txWords = (if lastBytes \<noteq> 0 then txWords0 - 1 else txWords0);
          put = (\<lambda>w. tm_o32 api FIFO_DAT_IDX (bswap32 w))
      in bindS (tx_words put le txb (unat txWords) 0) (\<lambda>_.
         if lastBytes \<noteq> 0 then
           bindS (liftR (bindR (rd_mem txb (4 * unat txWords) (unat lastBytes)) (wr_mem (replicate 4 0) 0)))
             (\<lambda>bs. put (u32_of_mem le bs))
         else retS ()))"

definition xferFifo :: "'s tosca \<Rightarrow> bool \<Rightarrow> u8 list \<Rightarrow> nat \<Rightarrow> nat \<Rightarrow> nat \<Rightarrow> (('s, 'z) tmemFifo_scheme xst, int) sm" where
  "xferFifo api le txb txBytes hsize sz =
     (if hsize mod 4 \<noteq> 0
      then throwS (RuntimeErr ''AXIS2TMEM FIFO only supports word-lengths that are a multiple of 4'')
      else
        bindS (onD (tm_tx api le txb txBytes)) (\<lambda>_.
        bindS (onD (tm_i32 api FIFO_CSR_IDX)) (\<lambda>v.
        bindS (onD (tm_o32 api FIFO_CSR_IDX (v OR FIFO_CSR_EOFO))) (\<lambda>_.
        bindS (onD (poll (tm_i32 api FIFO_CSR_IDX) (\<lambda>v. v AND FIFO_CSR_EMPI \<noteq> 0)
                     (bindS (tm_wait api) (\<lambda>_. retS ())))) (\<lambda>csr x.
          let got = unat (drop_bit FIFO_CSR_NWRDS csr AND FIFO_CSR_NWRDM) * m_wrdSiz (snd (snd x))
          in rx_reply (tm_dat api) le hsize got sz x)))))"

text \<open>The transfer through the serialiser or bit by bit.\<close>

definition tm_x32 :: "'s tosca \<Rightarrow> u32 \<Rightarrow> u32 \<Rightarrow> nat \<Rightarrow> (('s, 'z) tmemFifo_scheme, u32 \<times> (int \<times> int) option) sm" where
  "tm_x32 api tms tdi l d =
     (if m_bitBang d then bindS (xfer32bb api tms tdi l) (\<lambda>tdo. retS (tdo, None)) d
      else xfer32sdes api tms tdi l True d)"

definition xferSdes :: "'s tosca \<Rightarrow> u8 list \<Rightarrow> nat \<Rightarrow> nat \<Rightarrow> nat \<Rightarrow> (('s, 'z) tmemFifo_scheme xst, int) sm" where
  "xferSdes api = serdes_xfer api (retS ()) (tm_x32 api)"

definition tm_xfer :: "'s tosca \<Rightarrow> ('s, 'z) tmemFifo_scheme xfer_fn" where
  "tm_xfer api txb txBytes hb hsize rx sz d =
     io_xfer (if m_bitBang d \<or> m_useSdes d then xferSdes api else xferFifo api (isLE (m_host d)))
       txb txBytes hb hsize rx sz d"

definition tm_init :: "'s tosca \<Rightarrow> (('s, 'z) tmemFifo_scheme, unit) sm" where
  "tm_init api =
     bindS (tm_reset api) (\<lambda>_.
     bindS (init_drv (tm_xfer api)) (\<lambda>_ d.
       if getWordSize d \<noteq> m_wrdSiz d
       then (Inl (RuntimeErr ''ERROR: firmware misconfigured -- FIFO word size /= JTAG stream word size''), d)
       else (Inr (), d)))"

definition tm_getMaxVectorSize :: "('s, 'z) tmemFifo_scheme \<Rightarrow> nat" where
  "tm_getMaxVectorSize d = unat (m_maxVec d)"

section \<open>Specification\<close>

text \<open>
  What the driver relies on in the raw serialiser: the fields of the control register that read back what
  was written (the JTAG lines with their enable bit and the length), the data registers, for how many
  more readings it is busy, and the device at the JTAG port.
\<close>

record 't tmem_view =
  tv_csr :: u32
  tv_tms :: u32
  tv_tdi :: u32
  tv_tdo :: u32
  tv_busy :: nat
  tv_tap :: 't

definition csr_mask :: u32 where
  "csr_mask = 0x800700ff"

text \<open>The lines are at rest for the serialiser, and in bit bang mode it is the lines that count.\<close>

definition lines_rest :: "u32 \<Rightarrow> bool" where
  "lines_rest v \<longleftrightarrow> bit v 17 \<and> \<not> bit v 18 \<and> \<not> bit v 16 \<and> \<not> bit v 31"

text \<open>A rising edge of TCK with the value \<open>v\<close> written after \<open>u\<close>.\<close>

definition tck_rise :: "u32 \<Rightarrow> u32 \<Rightarrow> bool" where
  "tck_rise u v \<longleftrightarrow> \<not> bit u 16 \<and> bit v 16"

text \<open>The registers of the interface at an address.\<close>

definition tm_rd :: "'h tosca \<Rightarrow> nat \<Rightarrow> u64 \<Rightarrow> nat \<Rightarrow> 'h \<Rightarrow> u32 \<times> 'h" where
  "tm_rd api space base idx = toscaRead api space (base + word_of_nat (4 * idx))"

definition tm_wr :: "'h tosca \<Rightarrow> nat \<Rightarrow> u64 \<Rightarrow> nat \<Rightarrow> u32 \<Rightarrow> 'h \<Rightarrow> 'h" where
  "tm_wr api space base idx = toscaWrite api space (base + word_of_nat (4 * idx))"

text \<open>The states of the driver of such hardware; \<open>bb\<close> tells whether it is in bit bang mode.\<close>

definition tm_base :: "nat \<Rightarrow> u64 \<Rightarrow> ('h, 'z) tmemFifo_scheme \<Rightarrow> bool" where
  "tm_base space base d \<longleftrightarrow>
     m_toscaSpace d = space \<and> m_toscaBase d = base \<and> m_wrdSiz d = 4 \<and> m_irqFd d < 0 \<and> m_useSdes d \<and> m_measure d = 0 \<and>
     \<not> m_doSleep d \<and> m_version d = VERSION_1"

definition tm_good :: "nat \<Rightarrow> u64 \<Rightarrow> bool \<Rightarrow> u64 \<Rightarrow> ('h \<Rightarrow> bool) \<Rightarrow> ('h \<Rightarrow> 't tmem_view) \<Rightarrow> ('h, 'z) tmemFifo_scheme \<Rightarrow> bool" where
  "tm_good space base bb mv ok view d \<longleftrightarrow>
     tm_base space base d \<and> m_bitBang d = bb \<and> m_maxVec d = mv \<and> ok (m_hw d) \<and> tv_busy (view (m_hw d)) = 0 \<and>
     (if bb then bit (tv_csr (view (m_hw d))) 31 else lines_rest (tv_csr (view (m_hw d))))"

definition tm_dev :: "('h \<Rightarrow> 't tmem_view) \<Rightarrow> ('h, 'z) tmemFifo_scheme \<Rightarrow> 't" where
  "tm_dev view d = tv_tap (view (m_hw d))"

text \<open>What the device does in a reset: eight clocks with TMS high.\<close>

definition tap_reset :: "(bool \<times> bool \<Rightarrow> 't \<Rightarrow> bool \<times> 't) \<Rightarrow> 't \<Rightarrow> 't" where
  "tap_reset step t = snd (dev_run step (replicate 8 (True, False)) t)"

text \<open>The longest vectors that fit, with a header, into the transmit buffer of 2048 bytes.\<close>

definition tmem_limit :: nat where
  "tmem_limit = 1020"

text \<open>
  The invariant of the object: which modes go together, and that the driver never measures and so never
  sleeps between two readings of the busy flag (the pauses of bit bang mode are another matter).
\<close>

definition tm_inv :: "('s, 'z) tmemFifo_scheme \<Rightarrow> bool" where
  "tm_inv d \<longleftrightarrow>
     (m_version d = VERSION_0 \<or> m_version d = VERSION_1) \<and> (m_bitBang d \<longrightarrow> m_version d = VERSION_1) \<and> (m_logBscn d \<longrightarrow> m_bitBang d) \<and>
     m_measure d = 0 \<and> \<not> m_doSleep d \<and> m_wrdSiz d = 4 \<and> (0 \<le> m_irqFd d \<longrightarrow> \<not> m_bitBang d \<and> \<not> m_useSdes d)"

text \<open>
  For concrete runs: an interface that needs \<open>lat\<close> readings for every shift.  The address space is the
  number \<open>1\<close> and the address of register \<open>i\<close> is \<open>4 i\<close>.
\<close>

definition tmem_read_csr :: "(bool \<times> bool \<Rightarrow> 't \<Rightarrow> bool \<times> 't) \<Rightarrow> 't tmem_view \<Rightarrow> u32" where
  "tmem_read_csr step s =
     (let c = tv_csr s
      in set_line SDES_CSR_BB_TDO (fst (step (bit c 17, bit c 18) (tv_tap s))) (set_line SDES_CSR_BSY (tv_busy s \<noteq> 0) (c AND csr_mask)))"

definition tmem_write_csr :: "(bool \<times> bool \<Rightarrow> 't \<Rightarrow> bool \<times> 't) \<Rightarrow> nat \<Rightarrow> u32 \<Rightarrow> 't tmem_view \<Rightarrow> 't tmem_view" where
  "tmem_write_csr step lat v s =
     (if bit v 8 then
        let l = unat (take_bit 8 v) + 1;
            (out, t) = dev_run step (zip (low_bits l (tv_tms s)) (low_bits l (tv_tdi s))) (tv_tap s)
        in s\<lparr>tv_csr := v AND csr_mask, tv_tdo := push_bit (32 - l) (word_of_nat (horner_sum of_bool 2 out)), tv_busy := lat, tv_tap := t\<rparr>
      else
        s\<lparr>tv_csr := v AND csr_mask,
          tv_tap := if tck_rise (tv_csr s) v then snd (step (bit v 17, bit v 18) (tv_tap s)) else tv_tap s\<rparr>)"

definition emul_tmem :: "(bool \<times> bool \<Rightarrow> 't \<Rightarrow> bool \<times> 't) \<Rightarrow> nat \<Rightarrow> u32 \<Rightarrow> 't tmem_view tosca" where
  "emul_tmem step lat csr0 = \<lparr>
     irq_write = \<lambda>s. (4, s), irq_read = \<lambda>s. ((4, 1), s), clock_gettime = \<lambda>s. ((0, 0), s), nanosleep = \<lambda>_ s. s\<lparr>tv_busy := 0\<rparr>,
     toscaStrToAddrSpace = \<lambda>str. (1, str),
     toscaRead = \<lambda>_ a s. if a = word_of_nat (4 * SDES_CSR_IDX) then (tmem_read_csr step s, s\<lparr>tv_busy := tv_busy s - 1\<rparr>)
        else if a = word_of_nat (4 * SDES_TDO_IDX) then (tv_tdo s, s)
        else if a = word_of_nat (4 * FIFO_MAGIC_IDX) then (MAGIC, s)
        else if a = word_of_nat (4 * FIFO_CSR_IDX) then (csr0, s) else (0, s),
     toscaWrite = \<lambda>_ a v s. if a = word_of_nat (4 * SDES_TMS_IDX) then s\<lparr>tv_tms := v\<rparr>
        else if a = word_of_nat (4 * SDES_TDI_IDX) then s\<lparr>tv_tdi := v\<rparr>
        else if a = word_of_nat (4 * SDES_CSR_IDX) then tmem_write_csr step lat v s else s\<rparr>"

section \<open>Lemmas\<close>

lemmas tmem_regs = SDES_TMS_IDX_def SDES_TDI_IDX_def SDES_CSR_IDX_def SDES_TDO_IDX_def FIFO_DAT_IDX_def FIFO_MAGIC_IDX_def FIFO_CSR_IDX_def
lemmas tmem_bits = SDES_CSR_RUN_def SDES_CSR_BSY_def SDES_CSR_LENS_def SDES_CSR_LRMSK_def SDES_CSR_BBMSK_def SDES_CSR_BB_TCK_def
  SDES_CSR_BB_TMS_def SDES_CSR_BB_TDI_def SDES_CSR_BB_TDO_def SDES_CSR_BB_ENA_def

lemmas tmem_new_defs = axisToJtag_new_def jtagDriver_new_def jtagDriver.defs axisToJtag.defs regDrv.defs polledDrv.defs tmemFifo.defs

lemma bit_exp32: "m < 32 \<Longrightarrow> bit (2 ^ m :: u32) i \<longleftrightarrow> i = m"
  by (auto simp: bit_exp_iff)

lemma bit_consts:
  "bit SDES_CSR_BB_TCK i \<longleftrightarrow> i = 16" "bit SDES_CSR_BB_TMS i \<longleftrightarrow> i = 17" "bit SDES_CSR_BB_TDI i \<longleftrightarrow> i = 18"
  "bit SDES_CSR_BB_TDO i \<longleftrightarrow> i = 19" "bit SDES_CSR_BB_ENA i \<longleftrightarrow> i = 31" "bit SDES_CSR_RUN i \<longleftrightarrow> i = 8" "bit SDES_CSR_BSY i \<longleftrightarrow> i = 9"
  "bit SDES_CSR_LRMSK i \<longleftrightarrow> i < 12" "bit SDES_CSR_BBMSK i \<longleftrightarrow> 16 \<le> i \<and> i < 20"
  "bit csr_mask i \<longleftrightarrow> i < 8 \<or> 16 \<le> i \<and> i < 19 \<or> i = 31"
proof -
  have w: "SDES_CSR_BB_TCK = 2 ^ 16" "SDES_CSR_BB_TMS = 2 ^ 17" "SDES_CSR_BB_TDI = 2 ^ 18" "SDES_CSR_BB_TDO = 2 ^ 19"
    "SDES_CSR_BB_ENA = 2 ^ 31" "SDES_CSR_RUN = 2 ^ 8" "SDES_CSR_BSY = 2 ^ 9" "SDES_CSR_LRMSK = mask 12" "SDES_CSR_BBMSK = push_bit 16 (mask 4)"
    "csr_mask = mask 8 OR push_bit 16 (mask 3) OR 2 ^ 31"
    by (simp_all add: tmem_bits csr_mask_def mask_eq_exp_minus_1 push_bit_eq_mult)
  show "bit SDES_CSR_BB_TCK i \<longleftrightarrow> i = 16" "bit SDES_CSR_BB_TMS i \<longleftrightarrow> i = 17" "bit SDES_CSR_BB_TDI i \<longleftrightarrow> i = 18"
    "bit SDES_CSR_BB_TDO i \<longleftrightarrow> i = 19" "bit SDES_CSR_BB_ENA i \<longleftrightarrow> i = 31" "bit SDES_CSR_RUN i \<longleftrightarrow> i = 8" "bit SDES_CSR_BSY i \<longleftrightarrow> i = 9"
    unfolding w by (rule bit_exp32, simp)+
  show "bit SDES_CSR_LRMSK i \<longleftrightarrow> i < 12" "bit SDES_CSR_BBMSK i \<longleftrightarrow> 16 \<le> i \<and> i < 20"
    unfolding w by (auto simp: bit_simps)
  have "bit (2 ^ 31 :: u32) i \<longleftrightarrow> i = 31" by (rule bit_exp32) simp
  then show "bit csr_mask i \<longleftrightarrow> i < 8 \<or> 16 \<le> i \<and> i < 19 \<or> i = 31"
    unfolding w bit_or_iff by (auto simp: bit_push_bit_iff bit_mask_iff)
qed

lemma csr_tests:
  "v AND SDES_CSR_BSY \<noteq> 0 \<longleftrightarrow> bit v 9" "v AND SDES_CSR_BB_TDO \<noteq> 0 \<longleftrightarrow> bit v 19"
  using and_exp_eq_0_iff_not_bit [of v 9] and_exp_eq_0_iff_not_bit [of v 19] by (simp_all add: tmem_bits)

lemma and_push_bit: "i < 32 \<Longrightarrow> v AND push_bit i 1 \<noteq> 0 \<longleftrightarrow> bit v i" for v :: u32
  by (simp add: push_bit_eq_mult and_exp_eq_0_iff_not_bit)

lemma bit_set_line:
  "bit (set_line l on v) i \<longleftrightarrow> (if bit l i then on else bit v i)"
  by (auto simp: set_line_def bit_simps dest: bit_imp_le_length)

lemma masked_bits:
  assumes "v AND csr_mask = u"
  shows "i < 8 \<or> 16 \<le> i \<and> i < 19 \<or> i = 31 \<Longrightarrow> bit v i = bit u i"
  unfolding assms [symmetric] by (simp add: bit_and_iff bit_consts)

subsection \<open>The contract of the hardware\<close>

text \<open>
  The control register reads back its lines and the length, the TDO line while TCK is low, and the busy
  bit for finitely many readings after a start, or fewer when the program sleeps; a rising edge of TCK clocks the device with TMS and TDI as
  they are written.  With the lines at rest the run bit shifts the two vector registers through the
  device, as many bits as the length says plus one; the bits received are the upper ones of TDO.
\<close>

locale tmem_jtag =
  fixes api :: "'h tosca" and space :: nat and base :: u64 and ok :: "'h \<Rightarrow> bool" and view :: "'h \<Rightarrow> 't tmem_view"
    and step :: "bool \<times> bool \<Rightarrow> 't \<Rightarrow> bool \<times> 't"
  assumes wr_tms: "ok s \<Longrightarrow> s' = tm_wr api space base SDES_TMS_IDX v s \<Longrightarrow> ok s' \<and> view s' = (view s)\<lparr>tv_tms := v\<rparr>"
    and wr_tdi: "ok s \<Longrightarrow> s' = tm_wr api space base SDES_TDI_IDX v s \<Longrightarrow> ok s' \<and> view s' = (view s)\<lparr>tv_tdi := v\<rparr>"
    and rd_csr: "ok s \<Longrightarrow> tm_rd api space base SDES_CSR_IDX s = (v, s') \<Longrightarrow>
      ok s' \<and> view s' = (view s)\<lparr>tv_busy := tv_busy (view s) - 1\<rparr> \<and> v AND csr_mask = tv_csr (view s) \<and>
      (bit v 9 \<longleftrightarrow> tv_busy (view s) \<noteq> 0) \<and> \<not> bit v 8 \<and> \<not> bit v 10 \<and> \<not> bit v 11 \<and>
      (bit v 31 \<and> \<not> bit v 16 \<longrightarrow> bit v 19 = fst (step (bit v 17, bit v 18) (tv_tap (view s))))"
    and wr_csr: "ok s \<Longrightarrow> tv_busy (view s) = 0 \<Longrightarrow> \<not> bit v 8 \<Longrightarrow> tck_rise (tv_csr (view s)) v \<longrightarrow> bit v 31 \<Longrightarrow>
      s' = tm_wr api space base SDES_CSR_IDX v s \<Longrightarrow>
      ok s' \<and> view s' = (view s)\<lparr>tv_csr := v AND csr_mask,
        tv_tap := if tck_rise (tv_csr (view s)) v then snd (step (bit v 17, bit v 18) (tv_tap (view s))) else tv_tap (view s)\<rparr>"
    and run: "ok s \<Longrightarrow> tv_busy (view s) = 0 \<Longrightarrow> bit v 8 \<Longrightarrow> lines_rest v \<Longrightarrow> l = unat (take_bit 8 v) + 1 \<Longrightarrow> l \<le> 32 \<Longrightarrow>
      s' = tm_wr api space base SDES_CSR_IDX v s \<Longrightarrow>
      ok s' \<and> tv_csr (view s') = v AND csr_mask \<and>
      (low_bits l (drop_bit (32 - l) (tv_tdo (view s'))), tv_tap (view s')) =
        dev_run step (zip (low_bits l (tv_tms (view s))) (low_bits l (tv_tdi (view s)))) (tv_tap (view s))"
    and rd_tdo: "ok s \<Longrightarrow> tv_busy (view s) = 0 \<Longrightarrow> tm_rd api space base SDES_TDO_IDX s = (v, s') \<Longrightarrow>
      ok s' \<and> view s' = view s \<and> v = tv_tdo (view s)"
    and slept: "ok s \<Longrightarrow> ok (nanosleep api ns s) \<and> (\<exists>b\<le>tv_busy (view s). view (nanosleep api ns s) = (view s)\<lparr>tv_busy := b\<rparr>)"
begin

abbreviation R :: "nat \<Rightarrow> 'h \<Rightarrow> u32 \<times> 'h" where
  "R \<equiv> tm_rd api space base"

abbreviation W :: "nat \<Rightarrow> u32 \<Rightarrow> 'h \<Rightarrow> 'h" where
  "W \<equiv> tm_wr api space base"

lemma tm_io:
  assumes "tm_base space base d"
  shows "R idx (m_hw d) = (v, s') \<Longrightarrow> tm_i32 api idx d = (Inr v, d\<lparr>m_hw := s'\<rparr>)"
    and "tm_o32 api idx u d = (Inr (), d\<lparr>m_hw := W idx u (m_hw d)\<rparr>)"
  using assms by (simp_all add: tm_i32_def tm_o32_def tm_base_def tm_rd_def tm_wr_def)

lemma tm_base_hw [simp]: "tm_base space base (d\<lparr>m_hw := s\<rparr>) = tm_base space base d"
  by (simp add: tm_base_def)

lemma tm_wait_none: "tm_base space base d \<Longrightarrow> tm_wait api d = (Inr 0, d)"
  by (simp add: tm_base_def tm_wait_def)

text \<open>A pause while the device is idle, and reading its control register.\<close>

lemma bbsleep_idle:
  assumes "ok s" and "tv_busy (view s) = 0"
  shows "\<exists>s'. bbsleep api (d\<lparr>m_hw := s\<rparr>) = (Inr (), d\<lparr>m_hw := s'\<rparr>) \<and> ok s' \<and> view s' = view s"
proof -
  have "(view s)\<lparr>tv_busy := 0\<rparr> = view s" using assms(2) by simp
  then show ?thesis using slept [OF assms(1), of 1000] assms(2)
    by (intro exI [of _ "nanosleep api 1000 s"]) (auto simp: bbsleep_def sleepS_def)
qed

lemma csr_idle:
  assumes "tm_base space base d" and "ok s" and "tv_busy (view s) = 0"
  shows "\<exists>v s'. tm_i32 api SDES_CSR_IDX (d\<lparr>m_hw := s\<rparr>) = (Inr v, d\<lparr>m_hw := s'\<rparr>) \<and> ok s' \<and> view s' = view s \<and>
    v AND csr_mask = tv_csr (view s) \<and> \<not> bit v 8 \<and> \<not> bit v 9 \<and> \<not> bit v 10 \<and> \<not> bit v 11 \<and>
    (bit v 31 \<and> \<not> bit v 16 \<longrightarrow> bit v 19 = fst (step (bit v 17, bit v 18) (tv_tap (view s))))"
proof -
  obtain v s' where r: "R SDES_CSR_IDX s = (v, s')" by fastforce
  have "view s' = view s" using rd_csr [OF assms(2) r] assms(3) by simp
  with rd_csr [OF assms(2) r] assms(3) tm_io(1) [of "d\<lparr>m_hw := s\<rparr>" SDES_CSR_IDX v s'] assms(1) r show ?thesis
    by (intro exI [of _ v] exI [of _ s']) simp
qed

text \<open>One bit in bit bang mode: TDO is read while TCK is low, then TCK rises.\<close>

lemma bb_bit:
  fixes d :: "('h, 'a) tmemFifo_scheme"
  assumes b: "tm_base space base d" and hw: "ok (m_hw d)" "tv_busy (view (m_hw d)) = 0"
    and csr: "bit csr 31" "\<not> bit csr 8" "\<not> bit csr 16" and i: "i < 32"
  shows "\<exists>out s csr'. bb_bits api tms tdi (Suc k) i csr tdo d =
      bb_bits api tms tdi k (i + 1) csr' (if out then tdo OR push_bit i 1 else tdo) (d\<lparr>m_hw := s\<rparr>) \<and>
    ok s \<and> tv_busy (view s) = 0 \<and> bit (tv_csr (view s)) 31 \<and> bit csr' 31 \<and> \<not> bit csr' 8 \<and> \<not> bit csr' 16 \<and>
    (out, tv_tap (view s)) = step (bit tms i, bit tdi i) (tv_tap (view (m_hw d)))"
proof -
  define csr1 where "csr1 = set_line SDES_CSR_BB_TDI (tdi AND push_bit i 1 \<noteq> 0) (set_line SDES_CSR_BB_TMS (tms AND push_bit i 1 \<noteq> 0) csr)"
  define csr2 where "csr2 = csr1 OR SDES_CSR_BB_TCK"
  have c1: "bit csr1 31" "\<not> bit csr1 8" "\<not> bit csr1 16" "bit csr1 17 = bit tms i" "bit csr1 18 = bit tdi i"
    using csr and_push_bit [OF i] by (simp_all add: csr1_def bit_set_line bit_consts)
  have c2: "bit csr2 31" "\<not> bit csr2 8" "bit csr2 16" "bit csr2 17 = bit tms i" "bit csr2 18 = bit tdi i"
    using c1 by (simp_all add: csr2_def bit_or_iff bit_consts)
  define s1 where "s1 = W SDES_CSR_IDX csr1 (m_hw d)"
  have s1: "ok s1" "view s1 = (view (m_hw d))\<lparr>tv_csr := csr1 AND csr_mask\<rparr>" "tv_busy (view s1) = 0"
    using wr_csr [OF hw c1(2) _ s1_def] c1(3) hw(2) by (simp_all add: tck_rise_def)
  obtain z1 where z1: "bbsleep api (d\<lparr>m_hw := s1\<rparr>) = (Inr (), d\<lparr>m_hw := z1\<rparr>)" "ok z1" "view z1 = view s1"
    using bbsleep_idle [OF s1(1,3), of d] by (elim exE conjE)
  have "tv_busy (view z1) = 0" using s1(3) z1(3) by simp
  from csr_idle [OF b z1(2) this] obtain v s2 where r2: "tm_i32 api SDES_CSR_IDX (d\<lparr>m_hw := z1\<rparr>) = (Inr v, d\<lparr>m_hw := s2\<rparr>)" and s2: "ok s2" "view s2 = view s1"
    and v: "v AND csr_mask = tv_csr (view s1)" "bit v 31 \<and> \<not> bit v 16 \<longrightarrow> bit v 19 = fst (step (bit v 17, bit v 18) (tv_tap (view s1)))"
    unfolding z1(3) by blast
  have vb: "bit v 31" "\<not> bit v 16" "bit v 17 = bit tms i" "bit v 18 = bit tdi i"
    using masked_bits [OF v(1)] c1 by (simp_all add: s1(2) bit_and_iff bit_consts)
  have out: "bit v 19 = fst (step (bit tms i, bit tdi i) (tv_tap (view (m_hw d))))" using v(2) vb s1(2) by simp
  define s3 where "s3 = W SDES_CSR_IDX csr2 s2"
  have rise: "tck_rise (tv_csr (view s2)) csr2" using c2(3) c1(3) by (simp add: tck_rise_def s2(2) s1(2) bit_and_iff)
  have s3: "ok s3" "view s3 = (view (m_hw d))\<lparr>tv_csr := csr2 AND csr_mask, tv_tap := snd (step (bit tms i, bit tdi i) (tv_tap (view (m_hw d))))\<rparr>"
    using wr_csr [OF s2(1) _ c2(2) _ s3_def] rise c2 hw(2) by (simp_all add: s2(2) s1(2))
  define lg :: "(('h, 'a) tmemFifo_scheme, unit) sm" where "lg = (\<lambda>d. if m_logBscn d then bindS (tm_i32 api SDES_CSR_IDX) (\<lambda>_. retS ()) d else (Inr (), d))"
  have b3: "tv_busy (view s3) = 0" using s3(2) hw(2) by simp
  obtain z3 where z3: "bbsleep api (d\<lparr>m_hw := s3\<rparr>) = (Inr (), d\<lparr>m_hw := z3\<rparr>)" "ok z3" "view z3 = view s3"
    using bbsleep_idle [OF s3(1) b3, of d] by (elim exE conjE)
  obtain s4 where s4: "lg (d\<lparr>m_hw := z3\<rparr>) = (Inr (), d\<lparr>m_hw := s4\<rparr>)" "ok s4" "view s4 = view s3"
  proof (cases "m_logBscn d")
    case True
    from csr_idle [OF b z3(2) b3 [folded z3(3)]] obtain w s4 where
      "tm_i32 api SDES_CSR_IDX (d\<lparr>m_hw := z3\<rparr>) = (Inr w, d\<lparr>m_hw := s4\<rparr>)" "ok s4" "view s4 = view z3" by (elim exE conjE)
    then show ?thesis using True z3(3) by (intro that [of s4]) (simp_all add: lg_def bindS_def)
  next
    case False
    then show ?thesis using z3(2,3) by (intro that [of z3]) (simp_all add: lg_def)
  qed
  have e: "tm_o32 api SDES_CSR_IDX csr1 d = (Inr (), d\<lparr>m_hw := s1\<rparr>)"
    "tm_o32 api SDES_CSR_IDX csr2 (d\<lparr>m_hw := s2\<rparr>) = (Inr (), d\<lparr>m_hw := s3\<rparr>)"
    using tm_io(2) [OF b] tm_io(2) [of "d\<lparr>m_hw := s2\<rparr>"] b by (simp_all add: s1_def s3_def)
  have "bb_bits api tms tdi (Suc k) i csr tdo d = bb_bits api tms tdi k (i + 1) (csr2 AND NOT SDES_CSR_BB_TCK)
      (if bit v 19 then tdo OR push_bit i 1 else tdo) (d\<lparr>m_hw := s4\<rparr>)"
    unfolding bb_bits.simps Let_def csr1_def [symmetric] csr2_def [symmetric] lg_def [symmetric]
    by (simp only: bindS_def e z1(1) r2 z3(1) s4(1) prod.case sum.case csr_tests)
  then show ?thesis using s4(2,3) s3 c2 hw(2) out
    by (intro exI [of _ "bit v 19"] exI [of _ s4] exI [of _ "csr2 AND NOT SDES_CSR_BB_TCK"]) (simp add: bit_simps bit_consts)
qed

lemma bb_bits_ok:
  assumes "tm_base space base d" and "ok (m_hw d)" and "tv_busy (view (m_hw d)) = 0" and "bit (tv_csr (view (m_hw d))) 31"
    and "bit csr 31" and "\<not> bit csr 8" and "\<not> bit csr 16" and "i + k \<le> 32" and "\<forall>j \<ge> i. \<not> bit tdo j"
  shows "\<exists>tdo' s. bb_bits api tms tdi k i csr tdo d = (Inr tdo', d\<lparr>m_hw := s\<rparr>) \<and> ok s \<and> tv_busy (view s) = 0 \<and>
    bit (tv_csr (view s)) 31 \<and> (\<forall>j < i. bit tdo' j = bit tdo j) \<and>
    (map (bit tdo') [i..<i + k], tv_tap (view s)) =
      dev_run step (zip (map (bit tms) [i..<i + k]) (map (bit tdi) [i..<i + k])) (tv_tap (view (m_hw d)))"
  using assms
proof (induction k arbitrary: i csr tdo d)
  case 0
  then show ?case by (intro exI [of _ tdo] exI [of _ "m_hw d"]) simp
next
  case (Suc k)
  have i: "i < 32" using Suc.prems(8) by simp
  obtain out s csr' where st: "bb_bits api tms tdi (Suc k) i csr tdo d =
      bb_bits api tms tdi k (i + 1) csr' (if out then tdo OR push_bit i 1 else tdo) (d\<lparr>m_hw := s\<rparr>)"
    and s: "ok s" "tv_busy (view s) = 0" "bit (tv_csr (view s)) 31" and c: "bit csr' 31" "\<not> bit csr' 8" "\<not> bit csr' 16"
    and o: "(out, tv_tap (view s)) = step (bit tms i, bit tdi i) (tv_tap (view (m_hw d)))"
    using bb_bit [OF Suc.prems(1-3,5-7) i, of tms tdi k tdo] by blast
  define t1 where "t1 = (if out then tdo OR push_bit i 1 else tdo)"
  have t1: "\<forall>j < i. bit t1 j = bit tdo j" "bit t1 i = out" "\<forall>j \<ge> i + 1. \<not> bit t1 j"
    using Suc.prems(9) i by (auto simp: t1_def bit_simps)
  obtain t2 s2 where r: "bb_bits api tms tdi k (i + 1) csr' t1 (d\<lparr>m_hw := s\<rparr>) = (Inr t2, d\<lparr>m_hw := s2\<rparr>)" "ok s2" "tv_busy (view s2) = 0"
    "bit (tv_csr (view s2)) 31" "\<forall>j < i + 1. bit t2 j = bit t1 j" "(map (bit t2) [i + 1..<i + 1 + k], tv_tap (view s2)) =
      dev_run step (zip (map (bit tms) [i + 1..<i + 1 + k]) (map (bit tdi) [i + 1..<i + 1 + k])) (tv_tap (view s))"
    using Suc.IH [of "d\<lparr>m_hw := s\<rparr>" csr' "i + 1" t1] Suc.prems(1,8) s c t1(3) by auto
  define js where "js = [i + 1..<i + 1 + k]"
  have up: "[i..<i + Suc k] = i # js" by (simp add: upt_conv_Cons js_def)
  have "(map (bit t2) [i..<i + Suc k], tv_tap (view s2)) =
      dev_run step (zip (map (bit tms) [i..<i + Suc k]) (map (bit tdi) [i..<i + Suc k])) (tv_tap (view (m_hw d)))"
    unfolding up using r(5) t1(2) o [symmetric] by (simp add: r(6) [folded js_def, symmetric])
  then show ?case using st r t1(1) unfolding t1_def [symmetric] by (intro exI [of _ t2] exI [of _ s2]) simp
qed

text \<open>The serialiser.\<close>

lemma tm_poll:
  assumes "tm_base space base d" and "ok (m_hw d)"
  shows "\<exists>v s. poll (tm_i32 api SDES_CSR_IDX) (\<lambda>v. v AND SDES_CSR_BSY \<noteq> 0) (bindS (tm_wait api) (\<lambda>_. retS ())) d = (Inr v, d\<lparr>m_hw := s\<rparr>) \<and>
    ok s \<and> view s = (view (m_hw d))\<lparr>tv_busy := 0\<rparr>"
proof -
  let ?P = "\<lambda>s. ok s \<and> (\<exists>b. view s = (view (m_hw d))\<lparr>tv_busy := b\<rparr>)"
  let ?Q = "\<lambda>v s. view s = (view (m_hw d))\<lparr>tv_busy := 0\<rparr>"
  have "\<exists>v s'. poll (tm_i32 api SDES_CSR_IDX) (\<lambda>v. v AND SDES_CSR_BSY \<noteq> 0) (bindS (tm_wait api) (\<lambda>_. retS ())) d =
      (Inr v, d\<lparr>m_hw := s'\<rparr>) \<and> ?P s' \<and> ?Q v s'"
  proof (rule poll_count [where cnt = "\<lambda>s. tv_busy (view s)"])
    show "?P (m_hw d)" using assms(2) by (intro conjI exI [of _ "tv_busy (view (m_hw d))"]) simp_all
  next
    fix s assume s: "?P s"
    obtain v s1 where r: "R SDES_CSR_IDX s = (v, s1)" by fastforce
    have "tm_i32 api SDES_CSR_IDX (d\<lparr>m_hw := s\<rparr>) = (Inr v, d\<lparr>m_hw := s1\<rparr>)" using tm_io(1) [of "d\<lparr>m_hw := s\<rparr>"] assms(1) r by simp
    with s rd_csr [of s v s1] r show "\<exists>v s'. tm_i32 api SDES_CSR_IDX (d\<lparr>m_hw := s\<rparr>) = (Inr v, d\<lparr>m_hw := s'\<rparr>) \<and> ?P s' \<and>
        (v AND SDES_CSR_BSY \<noteq> 0 \<longleftrightarrow> tv_busy (view s) \<noteq> 0) \<and> tv_busy (view s') = tv_busy (view s) - 1 \<and> (tv_busy (view s) = 0 \<longrightarrow> ?Q v s')"
      by (intro exI [of _ v] exI [of _ s1]) (auto simp: csr_tests)
  qed (use assms(1) in \<open>auto simp: bindS_def tm_wait_none\<close>)
  then show ?thesis by blast
qed

lemma run_csr:
  assumes "v AND csr_mask = u" and "lines_rest u" and "1 \<le> l" and "l \<le> 32"
    and "c = ((v AND NOT SDES_CSR_LRMSK) OR push_bit SDES_CSR_LENS (word_of_nat l - 1)) OR SDES_CSR_RUN"
  shows "bit c 8" "lines_rest c" "l = unat (take_bit 8 c) + 1"
proof -
  have w: "word_of_nat l - 1 = (word_of_nat (l - 1) :: u32)" using assms(3) by (simp add: of_nat_diff)
  have hi: "\<not> bit (l - 1) i" if "8 \<le> i" for i
  proof -
    have "l - 1 < 2 ^ i" using that assms(4) power_increasing [of 8 i "2 :: nat"] by simp
    then show ?thesis by (simp add: bit_iff_odd)
  qed
  show "bit c 8" by (simp add: assms(5) bit_or_iff bit_consts)
  show "lines_rest c" using assms(2) hi masked_bits [OF assms(1)]
    by (simp add: lines_rest_def assms(5) w bit_simps bit_consts SDES_CSR_LENS_def)
  have "take_bit 8 c = word_of_nat (l - 1)"
    by (rule bit_word_eqI) (use hi in \<open>auto simp: assms(5) w bit_simps bit_consts SDES_CSR_LENS_def\<close>)
  moreover have "unat (word_of_nat (l - 1) :: u32) = l - 1" using assms(4) by (intro unat_u32_of_nat) simp
  ultimately show "l = unat (take_bit 8 c) + 1" using assms(3) by simp
qed

lemma sdes_ok:
  assumes b: "tm_base space base d" and s0: "ok (m_hw d)" "tv_busy (view (m_hw d)) = 0" "lines_rest (tv_csr (view (m_hw d)))"
    and l: "1 \<le> l" "l \<le> 32"
  shows "\<exists>tdo s. xfer32sdes api tms tdi l timed d = (Inr (tdo, None), d\<lparr>m_hw := s\<rparr>) \<and> ok s \<and> tv_busy (view s) = 0 \<and>
    lines_rest (tv_csr (view s)) \<and>
    (low_bits l tdo, tv_tap (view s)) = dev_run step (zip (low_bits l tms) (low_bits l tdi)) (tv_tap (view (m_hw d)))"
proof -
  obtain v s1 where r1: "tm_i32 api SDES_CSR_IDX (d\<lparr>m_hw := m_hw d\<rparr>) = (Inr v, d\<lparr>m_hw := s1\<rparr>)" and s1: "ok s1" "view s1 = view (m_hw d)"
    and v: "v AND csr_mask = tv_csr (view (m_hw d))"
    using csr_idle [OF b s0(1,2)] by (elim exE conjE)
  have r1': "tm_i32 api SDES_CSR_IDX d = (Inr v, d\<lparr>m_hw := s1\<rparr>)" using r1 by simp
  define c where "c = ((v AND NOT SDES_CSR_LRMSK) OR push_bit SDES_CSR_LENS (word_of_nat l - 1)) OR SDES_CSR_RUN"
  note c = run_csr [OF v s0(3) l c_def]
  define s2 where "s2 = W SDES_TMS_IDX tms s1"
  define s3 where "s3 = W SDES_TDI_IDX tdi s2"
  define s4 where "s4 = W SDES_CSR_IDX c s3"
  have s2: "ok s2" "view s2 = (view (m_hw d))\<lparr>tv_tms := tms\<rparr>" using wr_tms [OF s1(1) s2_def] s1(2) by simp_all
  have s3: "ok s3" "view s3 = (view (m_hw d))\<lparr>tv_tms := tms, tv_tdi := tdi\<rparr>" using wr_tdi [OF s2(1) s3_def] s2(2) by simp_all
  have "tv_busy (view s3) = 0" using s3(2) s0(2) by simp
  from run [OF s3(1) this c l(2) s4_def] have s4: "ok s4" "tv_csr (view s4) = c AND csr_mask"
    "(low_bits l (drop_bit (32 - l) (tv_tdo (view s4))), tv_tap (view s4)) =
      dev_run step (zip (low_bits l tms) (low_bits l tdi)) (tv_tap (view (m_hw d)))"
    by (simp_all add: s3(2))
  have b4: "tm_base space base (d\<lparr>m_hw := s4\<rparr>)" "ok (m_hw (d\<lparr>m_hw := s4\<rparr>))" using b s4(1) by simp_all
  obtain w s5 where p: "poll (tm_i32 api SDES_CSR_IDX) (\<lambda>v. v AND SDES_CSR_BSY \<noteq> 0) (bindS (tm_wait api) (\<lambda>_. retS ())) (d\<lparr>m_hw := s4\<rparr>) =
      (Inr w, d\<lparr>m_hw := s4, m_hw := s5\<rparr>)" and s5: "ok s5" "view s5 = (view s4)\<lparr>tv_busy := 0\<rparr>"
    using tm_poll [OF b4] by (elim exE conjE) simp
  obtain tdo s6 where r6: "R SDES_TDO_IDX s5 = (tdo, s6)" by fastforce
  have s6: "ok s6" "view s6 = view s5" "tdo = tv_tdo (view s4)" using rd_tdo [OF s5(1) _ r6] s5(2) by simp_all
  have e: "tm_o32 api SDES_TMS_IDX tms (d\<lparr>m_hw := s1\<rparr>) = (Inr (), d\<lparr>m_hw := s2\<rparr>)"
    "tm_o32 api SDES_TDI_IDX tdi (d\<lparr>m_hw := s2\<rparr>) = (Inr (), d\<lparr>m_hw := s3\<rparr>)"
    "tm_o32 api SDES_CSR_IDX c (d\<lparr>m_hw := s3\<rparr>) = (Inr (), d\<lparr>m_hw := s4\<rparr>)"
    "(if timed then measure_start api else retS None) (d\<lparr>m_hw := s4\<rparr>) = (Inr None, d\<lparr>m_hw := s4\<rparr>)"
    "tm_i32 api SDES_TDO_IDX (d\<lparr>m_hw := s4, m_hw := s5\<rparr>) = (Inr tdo, d\<lparr>m_hw := s6\<rparr>)"
    using tm_io(2) [of "d\<lparr>m_hw := _\<rparr>"] tm_io(1) [of "d\<lparr>m_hw := s5\<rparr>" SDES_TDO_IDX tdo s6] r6 b
    by (simp_all add: s2_def s3_def s4_def measure_start_def tm_base_def)
  have t: "(if l = 0 \<or> 32 < l then throwS (Fault ''shift past the width of the type'') else retS (drop_bit (32 - l) tdo, None)) =
      retS (drop_bit (32 - l) tdo, None)" using l by simp
  have "xfer32sdes api tms tdi l timed d = (Inr (drop_bit (32 - l) tdo, None), d\<lparr>m_hw := s6\<rparr>)"
    unfolding xfer32sdes_def Let_def by (simp only: bindS_def r1' c_def [symmetric] e p t prod.case sum.case sm_simps)
  moreover have "lines_rest (tv_csr (view s6))"
    using c(2) s6(2) s5(2) s4(2) by (simp add: lines_rest_def bit_and_iff bit_consts)
  ultimately show ?thesis using s6 s5(2) s4(3) by (intro exI [of _ "drop_bit (32 - l) tdo"] exI [of _ s6]) simp
qed

lemma tm_x32_ok:
  assumes g: "tm_good space base bb mv ok view d" and l: "1 \<le> l" "l \<le> 32"
  shows "\<exists>tdo s. tm_x32 api tms tdi l d = (Inr (tdo, None), d\<lparr>m_hw := s\<rparr>) \<and> tm_good space base bb mv ok view (d\<lparr>m_hw := s\<rparr>) \<and>
    (low_bits l tdo, tv_tap (view s)) = dev_run step (zip (low_bits l tms) (low_bits l tdi)) (tv_tap (view (m_hw d)))"
proof (cases bb)
  case True
  have s0: "tm_base space base d" "ok (m_hw d)" "tv_busy (view (m_hw d)) = 0" "bit (tv_csr (view (m_hw d))) 31" "m_bitBang d" "m_maxVec d = mv"
    using g True by (simp_all add: tm_good_def)
  obtain v s1 where r1: "tm_i32 api SDES_CSR_IDX (d\<lparr>m_hw := m_hw d\<rparr>) = (Inr v, d\<lparr>m_hw := s1\<rparr>)" and s1: "ok s1" "view s1 = view (m_hw d)"
    and v: "v AND csr_mask = tv_csr (view (m_hw d))" "\<not> bit v 8"
    using csr_idle [OF s0(1-3)] by (elim exE conjE)
  define c where "c = v AND NOT SDES_CSR_BBMSK"
  have c: "bit c 31" "\<not> bit c 8" "\<not> bit c 16" using v(2) s0(4) masked_bits [OF v(1), of 31] by (simp_all add: c_def bit_simps bit_consts)
  have b1: "tm_base space base (d\<lparr>m_hw := s1\<rparr>)" "ok (m_hw (d\<lparr>m_hw := s1\<rparr>))" "tv_busy (view (m_hw (d\<lparr>m_hw := s1\<rparr>))) = 0"
    "bit (tv_csr (view (m_hw (d\<lparr>m_hw := s1\<rparr>)))) 31" using s0 s1 by simp_all
  have z: "0 + l \<le> 32" "\<forall>j \<ge> 0. \<not> bit (0 :: u32) j" using l by simp_all
  obtain tdo s where r: "bb_bits api tms tdi l 0 c 0 (d\<lparr>m_hw := s1\<rparr>) = (Inr tdo, d\<lparr>m_hw := s1, m_hw := s\<rparr>)" and s: "ok s" "tv_busy (view s) = 0"
    "bit (tv_csr (view s)) 31" and dev: "(map (bit tdo) [0..<0 + l], tv_tap (view s)) =
      dev_run step (zip (map (bit tms) [0..<0 + l]) (map (bit tdi) [0..<0 + l])) (tv_tap (view (m_hw (d\<lparr>m_hw := s1\<rparr>))))"
    using bb_bits_ok [OF b1 c z, of tms tdi] by (elim exE conjE)
  have "tm_x32 api tms tdi l d = (Inr (tdo, None), d\<lparr>m_hw := s\<rparr>)"
    using r1 r s0(5) by (simp add: tm_x32_def xfer32bb_def bindS_def c_def)
  then show ?thesis using s s0 dev s1(2) True by (intro exI [of _ tdo] exI [of _ s]) (simp add: tm_good_def low_bits_def)
next
  case False
  then have s0: "tm_base space base d" "ok (m_hw d)" "tv_busy (view (m_hw d)) = 0" "lines_rest (tv_csr (view (m_hw d)))" "\<not> m_bitBang d"
    "m_maxVec d = mv" using g by (simp_all add: tm_good_def)
  obtain tdo s where x: "xfer32sdes api tms tdi l True d = (Inr (tdo, None), d\<lparr>m_hw := s\<rparr>)" and s: "ok s" "tv_busy (view s) = 0"
    "lines_rest (tv_csr (view s))" "(low_bits l tdo, tv_tap (view s)) = dev_run step (zip (low_bits l tms) (low_bits l tdi)) (tv_tap (view (m_hw d)))"
    using sdes_ok [OF s0(1-4) l, of tms tdi True] by (elim exE conjE)
  then show ?thesis using s0 False by (intro exI [of _ tdo] exI [of _ s]) (simp add: tm_x32_def tm_good_def)
qed

sublocale serdes_driver api "retS ()" "tm_x32 api" "tm_good space base bb mv ok view :: 'h tmemFifo \<Rightarrow> bool" "tm_good space base bb mv ok view"
  "tm_dev view" step "tm_xfer api" tm_getMaxVectorSize tmem_limit
  for bb :: bool and mv :: u64
proof
  fix d' d :: "'h tmemFifo" assume "axisToJtag.more d' = axisToJtag.more d"
  then show "tm_good space base bb mv ok view d' = tm_good space base bb mv ok view d \<and> tm_dev view d' = tm_dev view d"
    by (cases d, cases d') (simp add: tm_good_def tm_base_def tm_dev_def)
next
  fix d :: "'h tmemFifo" assume "tm_good space base bb mv ok view d"
  then show "\<exists>d'. retS () d = (Inr (), d') \<and> tm_good space base bb mv ok view d' \<and> drv_frame d' = drv_frame d \<and> tm_dev view d' = tm_dev view d"
    by simp
next
  fix d :: "'h tmemFifo" and l :: nat and tms tdi assume a: "tm_good space base bb mv ok view d" "1 \<le> l" "l \<le> 32"
  obtain tdo s where x: "tm_x32 api tms tdi l d = (Inr (tdo, None), d\<lparr>m_hw := s\<rparr>)" "tm_good space base bb mv ok view (d\<lparr>m_hw := s\<rparr>)"
    "(low_bits l tdo, tv_tap (view s)) = dev_run step (zip (low_bits l tms) (low_bits l tdi)) (tv_tap (view (m_hw d)))"
    using tm_x32_ok [OF a, of tms tdi] by (elim exE conjE)
  have "m_measure (d\<lparr>m_hw := s\<rparr>) = 0" using a(1) by (simp add: tm_good_def tm_base_def)
  then show "\<exists>tdo t d'. tm_x32 api tms tdi l d = (Inr (tdo, t), d') \<and> (m_measure d' \<noteq> 0 \<longrightarrow> t \<noteq> None) \<and> tm_good space base bb mv ok view d' \<and>
      (l = 32 \<longrightarrow> tm_good space base bb mv ok view d') \<and> drv_frame d' = drv_frame d \<and>
      (low_bits l tdo, tm_dev view d') = dev_run step (zip (low_bits l tms) (low_bits l tdi)) (tm_dev view d)"
    using x by (intro exI [of _ tdo] exI [of _ None] exI [of _ "d\<lparr>m_hw := s\<rparr>"]) (simp add: tm_dev_def drv_frame_def)
next
  fix t and d d' :: "'h tmemFifo" assume a: "tm_good space base bb mv ok view d" "measure_end api t d = (Inr (), d')"
  then have "d' = d" by (simp add: tm_good_def tm_base_def measure_end_def)
  then show "tm_good space base bb mv ok view d' \<and> (tm_good space base bb mv ok view d \<longrightarrow> tm_good space base bb mv ok view d') \<and>
      tm_dev view d' = tm_dev view d" using a(1) by simp
next
  fix d :: "'h tmemFifo" and tx n hb hs rx sz assume "tm_good space base bb mv ok view d"
  then show "tm_xfer api tx n hb hs rx sz d = io_xfer (serdes_xfer api (retS ()) (tm_x32 api)) tx n hb hs rx sz d"
    by (simp add: tm_xfer_def xferSdes_def tm_good_def tm_base_def)
qed (simp_all add: tmem_limit_def)

text \<open>A reset leaves the hardware ready in either mode, and gives the device eight clocks with TMS high.\<close>

lemma low_bits_reset: "zip (low_bits 8 0xff) (low_bits 8 0) = replicate 8 (True, False)"
  by code_simp

lemma tm_reset_ok:
  assumes b: "tm_base space base d" and s0: "ok (m_hw d)" "tv_busy (view (m_hw d)) = 0"
  shows "\<exists>s. tm_reset api d = (Inr (), d\<lparr>m_hw := s\<rparr>) \<and> tm_good space base (m_bitBang d) (m_maxVec d) ok view (d\<lparr>m_hw := s\<rparr>) \<and>
    tv_tap (view s) = tap_reset step (tv_tap (view (m_hw d)))"
proof -
  obtain v s1 where r1: "tm_i32 api SDES_CSR_IDX (d\<lparr>m_hw := m_hw d\<rparr>) = (Inr v, d\<lparr>m_hw := s1\<rparr>)" and s1: "ok s1" "view s1 = view (m_hw d)"
    and v: "v AND csr_mask = tv_csr (view (m_hw d))" "\<not> bit v 8"
    using csr_idle [OF b s0] by (elim exE conjE)
  define c where "c = ((v AND NOT SDES_CSR_BBMSK) OR SDES_CSR_BB_TMS) AND NOT SDES_CSR_BB_TDI AND NOT SDES_CSR_BB_TCK AND NOT SDES_CSR_BB_ENA"
  have c: "lines_rest c" "\<not> bit c 8" "\<not> bit c 16" using v(2) by (simp_all add: c_def lines_rest_def bit_simps bit_consts)
  define s2 where "s2 = W SDES_CSR_IDX c s1"
  have s2: "ok s2" "view s2 = (view (m_hw d))\<lparr>tv_csr := c AND csr_mask\<rparr>"
    using wr_csr [OF s1(1) _ c(2) _ s2_def] c(3) s0(2) s1(2) by (simp_all add: tck_rise_def)
  have b2: "tm_base space base (d\<lparr>m_hw := s2\<rparr>)" "ok (m_hw (d\<lparr>m_hw := s2\<rparr>))" "tv_busy (view (m_hw (d\<lparr>m_hw := s2\<rparr>))) = 0"
    "lines_rest (tv_csr (view (m_hw (d\<lparr>m_hw := s2\<rparr>))))" "1 \<le> (8 :: nat)" "8 \<le> (32 :: nat)"
    using b s0 s2 c(1) by (simp_all add: lines_rest_def bit_and_iff bit_consts)
  obtain tdo s3 where x: "xfer32sdes api 0xff 0 8 False (d\<lparr>m_hw := s2\<rparr>) = (Inr (tdo, None), d\<lparr>m_hw := s2, m_hw := s3\<rparr>)"
    and s3: "ok s3" "tv_busy (view s3) = 0" "lines_rest (tv_csr (view s3))"
    and dev: "(low_bits 8 tdo, tv_tap (view s3)) = dev_run step (zip (low_bits 8 0xff) (low_bits 8 0)) (tv_tap (view (m_hw (d\<lparr>m_hw := s2\<rparr>))))"
    using sdes_ok [OF b2, where tms = "0xff" and tdi = 0 and timed = False] by (elim exE conjE)
  have tap: "tv_tap (view s3) = tap_reset step (tv_tap (view (m_hw d)))"
    using dev s2(2) by (simp add: tap_reset_def low_bits_reset) (metis snd_conv)
  have w: "tm_o32 api SDES_CSR_IDX c (d\<lparr>m_hw := s1\<rparr>) = (Inr (), d\<lparr>m_hw := s2\<rparr>)"
    using tm_io(2) [of "d\<lparr>m_hw := s1\<rparr>"] b by (simp add: s2_def)
  have sd: "m_useSdes d" "m_version d = VERSION_1" using b by (simp_all add: tm_base_def)
  have lines: "tm_reset_lines api d = (Inr (Some c), d\<lparr>m_hw := s3\<rparr>)"
    using r1 w x sd by (simp add: tm_reset_lines_def bindS_def Let_def c_def [symmetric])
  define s4 where "s4 = W SDES_CSR_IDX (c OR SDES_CSR_BB_ENA) s3"
  have ce: "\<not> bit (c OR SDES_CSR_BB_ENA) 8" "\<not> bit (c OR SDES_CSR_BB_ENA) 16" "bit (c OR SDES_CSR_BB_ENA) 31"
    using c by (simp_all add: bit_or_iff bit_consts)
  have s4: "ok s4" "view s4 = (view s3)\<lparr>tv_csr := (c OR SDES_CSR_BB_ENA) AND csr_mask\<rparr>"
    using wr_csr [OF s3(1,2) ce(1) _ s4_def] ce(2) by (simp_all add: tck_rise_def)
  have w4: "tm_o32 api SDES_CSR_IDX (c OR SDES_CSR_BB_ENA) (d\<lparr>m_hw := s3\<rparr>) = (Inr (), d\<lparr>m_hw := s4\<rparr>)"
    using tm_io(2) [of "d\<lparr>m_hw := s3\<rparr>"] b by (simp add: s4_def)
  show ?thesis
  proof (cases "m_bitBang d")
    case True
    then have "tm_reset api d = (Inr (), d\<lparr>m_hw := s4\<rparr>)" using lines w4 sd by (simp add: tm_reset_def bindS_def tm_reset_fifo_def)
    then show ?thesis using True b s4 s3 ce(3) tap by (intro exI [of _ s4]) (simp add: tm_good_def bit_and_iff bit_consts)
  next
    case False
    then have "tm_reset api d = (Inr (), d\<lparr>m_hw := s3\<rparr>)" using lines sd by (simp add: tm_reset_def bindS_def tm_reset_fifo_def)
    then show ?thesis using False b s3 tap by (intro exI [of _ s3]) (simp add: tm_good_def)
  qed
qed

lemma tm_init_ok:
  fixes d :: "'h tmemFifo"
  assumes "drv_wf d" and "m_wordSize d = 4" and "\<not> getSniff d" and g: "tm_good space base bb mv ok view d"
  shows "\<exists>d'. tm_init api d = (Inr (), d') \<and> base_valid 4 tmem_limit UNKNOWN_PERIOD d' \<and> tm_good space base bb mv ok view d' \<and>
    tm_dev view d' = tap_reset step (tm_dev view d) \<and> m_bufSz d' = m_bufSz d"
proof -
  have b: "tm_base space base d" "ok (m_hw d)" "tv_busy (view (m_hw d)) = 0" "m_bitBang d = bb" "m_maxVec d = mv" using g by (simp_all add: tm_good_def)
  obtain s where r: "tm_reset api d = (Inr (), d\<lparr>m_hw := s\<rparr>)" "tm_good space base bb mv ok view (d\<lparr>m_hw := s\<rparr>)"
    "tv_tap (view s) = tap_reset step (tv_tap (view (m_hw d)))"
    using tm_reset_ok [OF b(1-3)] unfolding b(4,5) by (elim exE conjE)
  have d1: "drv_wf (d\<lparr>m_hw := s\<rparr>)" "m_wordSize (d\<lparr>m_hw := s\<rparr>) = 4" "\<not> getSniff (d\<lparr>m_hw := s\<rparr>)" "msg_size 4 tmem_limit \<le> m_bufSz (d\<lparr>m_hw := s\<rparr>)"
    "4 \<le> m_bufSz d"
    using assms(1-3) by (simp_all add: drv_wf_def getSniff_def msg_size_def tmem_limit_def)
  obtain n d' where q: "query (tm_xfer api) (d\<lparr>m_hw := s\<rparr>) = (Inr n, d')" "base_valid 4 tmem_limit UNKNOWN_PERIOD d'"
    "tm_good space base bb mv ok view d'" "tm_dev view d' = tm_dev view (d\<lparr>m_hw := s\<rparr>)" "m_bufSz d' = m_bufSz d"
    using query_ok [OF d1(1-4) r(2)] d1(5) by (auto simp: hq3)
  then have "getWordSize d' = m_wrdSiz d'" by (simp add: base_valid_def tm_good_def tm_base_def getWordSize_def)
  then show ?thesis using r(1,3) q by (simp add: tm_init_def init_drv_def bindS_def tm_dev_def)
qed

text \<open>The query of the driver answers zero, so only the limit of the driver itself holds.\<close>

lemma tm_query_ok:
  fixes d :: "'h tmemFifo"
  assumes "base_valid 4 tmem_limit UNKNOWN_PERIOD d" and "tm_good space base bb mv ok view d"
  shows "\<exists>d'. query (tm_xfer api) d = (Inr 0, d') \<and> base_valid 4 tmem_limit UNKNOWN_PERIOD d' \<and> tm_good space base bb mv ok view d' \<and>
    m_bufSz d' = m_bufSz d"
proof -
  have v: "drv_wf d" "m_wordSize d = 4" "\<not> getSniff d" "msg_size 4 tmem_limit \<le> m_bufSz d" using assms(1) by (simp_all add: base_valid_def)
  then have "4 \<le> m_bufSz d" by (simp add: drv_wf_def)
  with query_ok [OF v assms(2)] show ?thesis by (auto simp: hq3)
qed

lemma tmem_serial:
  "serial_driver (axisToJtag_ops (tm_xfer api) tm_getMaxVectorSize)
     (\<lambda>d :: 'h tmemFifo. base_valid 4 tmem_limit UNKNOWN_PERIOD d \<and> tm_good space base bb mv ok view d) tmem_limit (tm_dev view) step
     (period_reply UNKNOWN_PERIOD)"
  using serial_driver_axioms by (simp only: hq3)

end
subsection \<open>The constructor\<close>

text \<open>The magic number and the control register of the interface, which reports the version.\<close>

locale tmem_board = tmem_jtag api space base ok view step
  for api :: "'h tosca" and space :: nat and base :: u64 and ok :: "'h \<Rightarrow> bool" and view :: "'h \<Rightarrow> 't tmem_view"
    and step :: "bool \<times> bool \<Rightarrow> 't \<Rightarrow> bool \<times> 't" +
  fixes csr0 :: u32
  assumes rd_magic: "ok s \<Longrightarrow> tm_rd api space base FIFO_MAGIC_IDX s = (v, s') \<Longrightarrow> ok s' \<and> view s' = view s \<and> v = MAGIC"
    and rd_fifo: "ok s \<Longrightarrow> tm_rd api space base FIFO_CSR_IDX s = (v, s') \<Longrightarrow> ok s' \<and> view s' = view s \<and> v = csr0"
    and version: "drop_bit FIFO_CSR_VERSS (csr0 AND FIFO_CSR_VERSM) = VERSION_1"
begin

text \<open>The probe writes a length and reads it back.\<close>

lemma tm_probe_ok:
  fixes d :: "('h, 'z) tmemFifo_scheme"
  assumes sp: "m_toscaSpace d = space" "m_toscaBase d = base" and s0: "ok (m_hw d)" "tv_busy (view (m_hw d)) = 0"
  shows "\<exists>s. tm_probe api csr0 opts d = (Inr (), d\<lparr>m_hw := s, m_version := VERSION_1, m_bitBang := to_bitBang opts, m_logBscn := to_logBscn opts,
      m_useSdes := True\<rparr>) \<and> ok s \<and> tv_busy (view s) = 0 \<and> tv_tap (view s) = tv_tap (view (m_hw d))"
proof -
  define d1 where "d1 = d\<lparr>m_version := VERSION_1, m_bitBang := to_bitBang opts, m_logBscn := to_logBscn opts\<rparr>"
  have io: "R idx s = (v, s') \<Longrightarrow> tm_i32 api idx (d1\<lparr>m_hw := s\<rparr>) = (Inr v, d1\<lparr>m_hw := s'\<rparr>)"
    "tm_o32 api idx u (d1\<lparr>m_hw := s\<rparr>) = (Inr (), d1\<lparr>m_hw := W idx u s\<rparr>)" for idx s v s' u
    using sp by (simp_all add: tm_i32_def tm_o32_def tm_rd_def tm_wr_def d1_def)
  obtain v s1 where r1: "R SDES_CSR_IDX (m_hw d) = (v, s1)" by fastforce
  have s1: "ok s1" "view s1 = view (m_hw d)" and v: "v AND csr_mask = tv_csr (view (m_hw d))"
    using rd_csr [OF s0(1) r1] s0(2) by simp_all
  define c where "c = (v AND NOT SDES_CSR_LRMSK) OR SDES_PROBEVAL"
  have pv: "bit SDES_PROBEVAL i \<longleftrightarrow> i = 1 \<or> i = 3" for i
  proof -
    have e: "bit (2 ^ 1 :: u32) i \<longleftrightarrow> i = 1" "bit (2 ^ 3 :: u32) i \<longleftrightarrow> i = 3" by (rule bit_exp32, simp)+
    have p: "SDES_PROBEVAL = 2 ^ 1 OR 2 ^ 3" by (simp add: SDES_PROBEVAL_def SDES_CSR_LENS_def)
    show ?thesis by (simp only: p bit_or_iff e)
  qed
  have c: "\<not> bit c 8" "bit c 16 = bit (tv_csr (view (m_hw d))) 16"
    using masked_bits [OF v, of 16] by (simp_all add: c_def bit_simps bit_consts pv)
  define s2 where "s2 = W SDES_CSR_IDX c s1"
  have s2: "ok s2" "view s2 = (view (m_hw d))\<lparr>tv_csr := c AND csr_mask\<rparr>"
    using wr_csr [OF s1(1) _ c(1) _ s2_def] c(2) s0(2) s1(2) by (simp_all add: tck_rise_def)
  obtain v' s3 where r3: "R SDES_CSR_IDX s2 = (v', s3)" by fastforce
  have s3: "ok s3" "view s3 = view s2" and v': "v' AND csr_mask = c AND csr_mask" "\<not> bit v' 8" "\<not> bit v' 9" "\<not> bit v' 10" "\<not> bit v' 11"
    using rd_csr [OF s2(1) r3] s2(2) s0(2) by simp_all
  have "v' AND SDES_CSR_LRMSK = SDES_PROBEVAL"
  proof (rule bit_word_eqI)
    fix i assume "i < LENGTH(32)"
    consider "i < 8" | "i = 8 \<or> i = 9 \<or> i = 10 \<or> i = 11" | "12 \<le> i" by linarith
    then show "bit (v' AND SDES_CSR_LRMSK) i = bit SDES_PROBEVAL i"
      by cases (use v' masked_bits [OF v'(1), of i] in \<open>auto simp: bit_simps bit_consts pv c_def\<close>)
  qed
  moreover have "d1\<lparr>m_hw := m_hw d\<rparr> = d1" and ver: "VERSION_1 \<noteq> VERSION_0" by (simp_all add: d1_def VERSION_0_def VERSION_1_def)
  ultimately have e: "tm_i32 api SDES_CSR_IDX d1 = (Inr v, d1\<lparr>m_hw := s1\<rparr>)" "tm_o32 api SDES_CSR_IDX c (d1\<lparr>m_hw := s1\<rparr>) = (Inr (), d1\<lparr>m_hw := s2\<rparr>)"
    "tm_i32 api SDES_CSR_IDX (d1\<lparr>m_hw := s2\<rparr>) = (Inr v', d1\<lparr>m_hw := s3\<rparr>)" and probe: "(v' AND SDES_CSR_LRMSK = SDES_PROBEVAL) = True"
    using io(1) [OF r1] io(1) [OF r3] io(2) [of SDES_CSR_IDX c s1] by (simp_all add: s2_def)
  have d1': "d\<lparr>m_version := VERSION_1, m_bitBang := to_bitBang opts, m_logBscn := to_logBscn opts\<rparr> = d1" by (simp add: d1_def)
  have "tm_probe api csr0 opts d = (Inr (), d1\<lparr>m_hw := s3, m_useSdes := True\<rparr>)"
    unfolding tm_probe_def version Let_def
    by (simp only: d1' if_True bindS_def e c_def [symmetric] prod.case sum.case probe) (simp add: ver)
  then show ?thesis using s3 s2 s0(2) by (intro exI [of _ s3]) (simp add: d1_def)
qed

lemma tmemFifo_new_ok:
  assumes tgt: "tm_target api devnam = Inr (space, base)" and opts: "tm_options args \<lparr>to_bitBang = False, to_logBscn = False, to_irqfn = None\<rparr> = Inr opts"
    and s0: "ok s0" "tv_busy (view s0) = 0"
  shows "\<exists>d. tmemFifo_new host xid0 sdes0 api s0 irq_open args devnam = Inr d \<and> drv_wf d \<and> m_wordSize d = 4 \<and> \<not> getSniff d \<and> m_bufSz d = 2048 \<and>
    tm_good space base (to_bitBang opts \<or> to_logBscn opts) (tm_maxVec csr0) ok view d \<and> tm_dev view d = tap_reset step (tv_tap (view s0))"
proof -
  define d0 where "d0 = polledDrv.extend (regDrv.extend (axisToJtag.extend (axisToJtag_new host xid0 0) (regDrv.fields s0)) (polledDrv.fields False 100 0 0))
    (tmemFifo.fields space base 128 4 (-1) False sdes0 False 0)"
  have d0: "m_toscaSpace d0 = space" "m_toscaBase d0 = base" "m_hw d0 = s0" "m_irqFd d0 = - 1" "m_wrdSiz d0 = 4" "\<not> m_doSleep d0"
    by (simp_all add: d0_def tmem_new_defs)
  have io: "R idx s = (v, s') \<Longrightarrow> tm_i32 api idx (d0\<lparr>m_hw := s\<rparr>) = (Inr v, d0\<lparr>m_hw := s'\<rparr>)" for idx s v s'
    using d0 by (simp add: tm_i32_def tm_rd_def)
  have hw0: "d0\<lparr>m_hw := s0\<rparr> = d0" using d0(3) by simp
  obtain v1 s1 where r1: "R FIFO_MAGIC_IDX s0 = (v1, s1)" by fastforce
  have s1: "ok s1" "view s1 = view s0" "v1 = MAGIC" using rd_magic [OF s0(1) r1] by simp_all
  obtain v2 s2 where r2: "R FIFO_CSR_IDX s1 = (v2, s2)" by fastforce
  have s2: "ok s2" "view s2 = view s0" "v2 = csr0" using rd_fifo [OF s1(1) r2] s1(2) by simp_all
  have p2: "m_toscaSpace (d0\<lparr>m_hw := s2\<rparr>) = space" "m_toscaBase (d0\<lparr>m_hw := s2\<rparr>) = base" "ok (m_hw (d0\<lparr>m_hw := s2\<rparr>))"
    "tv_busy (view (m_hw (d0\<lparr>m_hw := s2\<rparr>))) = 0" using d0 s2 s0(2) by simp_all
  obtain s3 where pr: "tm_probe api csr0 opts (d0\<lparr>m_hw := s2\<rparr>) = (Inr (), d0\<lparr>m_hw := s2, m_hw := s3, m_version := VERSION_1,
      m_bitBang := to_bitBang opts, m_logBscn := to_logBscn opts, m_useSdes := True\<rparr>)"
    and s3: "ok s3" "tv_busy (view s3) = 0" "tv_tap (view s3) = tv_tap (view (m_hw (d0\<lparr>m_hw := s2\<rparr>)))"
    using tm_probe_ok [OF p2, of opts] by (elim exE conjE)
  define d2 where "d2 = d0\<lparr>m_hw := s3, m_version := VERSION_1, m_bitBang := to_bitBang opts, m_logBscn := to_logBscn opts, m_useSdes := True\<rparr>"
  define d3 where "d3 = (if to_logBscn opts then d2\<lparr>m_bitBang := True\<rparr> else d2)\<lparr>m_measure := 0, m_maxVec := tm_maxVec csr0\<rparr>"
  have never: "NOT (if b then 1 else 0 :: u32) \<noteq> 0" for b by simp
  have "tm_setup api irq_open args d0 = tm_reset api d3"
    unfolding tm_setup_def using io [OF r1] io [OF r2] pr never d0 hw0 s1(3) s2(3) opts
    by (cases "to_logBscn opts") (simp_all add: bindS_def liftR_def Let_def d3_def d2_def)
  moreover have b3: "tm_base space base d3" "ok (m_hw d3)" "tv_busy (view (m_hw d3)) = 0" "m_bitBang d3 = (to_bitBang opts \<or> to_logBscn opts)"
    "m_maxVec d3 = tm_maxVec csr0" using d0 s3 by (simp_all add: d3_def d2_def tm_base_def)
  obtain s4 where r: "tm_reset api d3 = (Inr (), d3\<lparr>m_hw := s4\<rparr>)"
    "tm_good space base (to_bitBang opts \<or> to_logBscn opts) (tm_maxVec csr0) ok view (d3\<lparr>m_hw := s4\<rparr>)"
    "tv_tap (view s4) = tap_reset step (tv_tap (view (m_hw d3)))"
    using tm_reset_ok [OF b3(1-3)] unfolding b3(4,5) by (elim exE conjE)
  ultimately have "tmemFifo_new host xid0 sdes0 api s0 irq_open args devnam = Inr (d3\<lparr>m_hw := s4\<rparr>)"
    using tgt by (simp add: tmemFifo_new_def d0_def [symmetric] Let_def)
  moreover have "drv_wf (d3\<lparr>m_hw := s4\<rparr>)" "m_wordSize (d3\<lparr>m_hw := s4\<rparr>) = 4" "\<not> getSniff (d3\<lparr>m_hw := s4\<rparr>)" "m_bufSz (d3\<lparr>m_hw := s4\<rparr>) = 2048"
    using drv_wf_new [of host xid0 0] by (simp_all add: d3_def d2_def d0_def tmem_new_defs drv_wf_def getSniff_def)
  moreover have "tm_dev view (d3\<lparr>m_hw := s4\<rparr>) = tap_reset step (tv_tap (view s0))" using r(3) s3(3) s2(2) by (simp add: tm_dev_def d3_def d2_def)
  ultimately show ?thesis using r(2) by blast
qed

end
subsection \<open>Invariants of the object\<close>

text \<open>An invariant that does not depend on the hardware and is kept by the measurement of times is kept by a transfer.\<close>

locale tmem_pres = reg_inv I for I :: "('s, 'z) tmemFifo_scheme \<Rightarrow> bool" +
  assumes start_law: "presS I (measure_start (api :: 's tosca))" and end_law: "presS I (measure_end (api :: 's tosca) t)"
begin

lemma pres_io [intro]: "presS I (tm_o32 api idx v)" "presS I (tm_i32 api idx)"
  by (rule presS_I, auto simp: tm_o32_def tm_i32_def intro: inv_hw)+

lemma pres_wait [intro]: "presS I (tm_wait api)"
proof -
  have "presS I (\<lambda>d. bindS (sleepS api (m_pollTime d)) (\<lambda>_. retS 0) d)"
    by (rule presS_dep [where m = "\<lambda>t. bindS (sleepS api t) (\<lambda>_. retS 0)" and h = m_pollTime]) (auto intro: presS_bind presS_pure pres_sleep)
  then show ?thesis unfolding tm_wait_def by (intro presS_if presS_pure pres_irq)
qed

lemma pres_sdes [intro]: "presS I (xfer32sdes api tms tdi l timed)"
  unfolding xfer32sdes_def Let_def by (intro presS_if presS_bind presS_pure presS_poll pres_io pres_wait start_law)

lemma pres_bb [intro]: "presS I (bb_bits api tms tdi k i csr tdo)"
proof (induction k arbitrary: i csr tdo)
  case (Suc k)
  have "presS I (\<lambda>d. if m_logBscn d then bindS (tm_i32 api SDES_CSR_IDX) (\<lambda>_. retS ()) d else (Inr (), d))"
    by (intro presS_if presS_bind presS_pure pres_io)
  then show ?case using Suc.IH unfolding bb_bits.simps Let_def bbsleep_def by (intro presS_bind pres_io pres_sleep)
qed simp

lemma pres_x32 [intro]: "presS I (tm_x32 api tms tdi l)"
  unfolding tm_x32_def xfer32bb_def by (intro presS_if presS_bind presS_pure pres_io pres_bb pres_sdes)

lemma pres_tx [intro]: "presS I (tm_tx api le txb txBytes)"
  unfolding tm_tx_def Let_def by (intro presS_if presS_bind presS_pure presS_tx_words pres_io)

lemma pres_fifo [intro]: "presS (xst_inv nh nr I) (xferFifo api le txb txBytes hsize sz)"
proof -
  have dat: "presS I (tm_dat api)" unfolding tm_dat_def by (intro presS_bind presS_pure pres_io)
  have "presS (xst_inv nh nr I) (\<lambda>x. rx_reply (tm_dat api) le hsize (n * m_wrdSiz (snd (snd x))) sz x)" for n
    by (rule presS_dep [where m = "\<lambda>got. rx_reply (tm_dat api) le hsize got sz"]) (rule pres_rx_reply [OF dat], rule refl)
  then show ?thesis unfolding xferFifo_def Let_def
    by (intro presS_if presS_bind presS_pure presS_onD presS_poll pres_io pres_tx pres_wait)
qed

lemma pres_xfer:
  assumes "tm_xfer api txb n hb hs rx sz d = ((r, hb', rx'), d')" and "I d"
  shows "length hb' = length hb \<and> length rx' = length rx \<and> I d'"
proof -
  define f :: "u8 list \<Rightarrow> nat \<Rightarrow> nat \<Rightarrow> nat \<Rightarrow> (('s, 'z) tmemFifo_scheme xst, int) sm" where
    "f = (if m_bitBang d \<or> m_useSdes d then xferSdes api else xferFifo api (isLE (m_host d)))"
  have "presS (xst_inv (length hb) (length rx) I) (f txb n hs sz)"
    unfolding f_def xferSdes_def by (simp add: pres_fifo presS_serdes_xfer [OF pres_x32 end_law])
  from io_xfer_inv [where f = f, OF this assms(2)] assms(1) show ?thesis by (simp add: tm_xfer_def f_def)
qed

lemma pres_reset: "presS I (tm_reset api)"
proof -
  have "presS I (tm_reset_fifo api)" unfolding tm_reset_fifo_def
    by (intro presS_if presS_bind presS_pure pres_io)
  moreover have "presS I (tm_reset_lines api)" unfolding tm_reset_lines_def Let_def
    by (intro presS_if presS_bind presS_pure pres_io pres_sdes)
  moreover have "presS I (\<lambda>d. case c of None \<Rightarrow> (Inl (Fault ''use of an uninitialised variable''), d)
      | Some csr \<Rightarrow> tm_o32 api SDES_CSR_IDX (csr OR SDES_CSR_BB_ENA) d)" for c
    by (cases c) (auto intro: pres_io)
  ultimately show ?thesis unfolding tm_reset_def by (intro presS_if presS_bind presS_pure)
qed

end

section \<open>Interpretations\<close>

interpretation tm_frame: tmem_pres "\<lambda>d :: ('s, 'z) tmemFifo_scheme. drv_frame d = f" for f
  by unfold_locales
    (auto intro!: presS_I simp: measure_start_def measure_end_def measure_update_def drv_frame_def bindS_def Let_def split: if_splits option.splits)

interpretation tm_mode: tmem_pres "tm_inv :: ('s, 'z) tmemFifo_scheme \<Rightarrow> bool"
  by unfold_locales (auto intro!: presS_I simp: measure_start_def measure_end_def tm_inv_def)

interpretation tm_transport: xfer_transport "tm_xfer api :: ('s, 'z) tmemFifo_scheme xfer_fn" for api :: "'s tosca"
proof
  fix txb n hb hs rxb sz r hb' rxb' and d d' :: "('s, 'z) tmemFifo_scheme"
  assume "tm_xfer api txb n hb hs rxb sz d = ((r, hb', rxb'), d')"
  from tm_frame.pres_xfer [OF this refl]
  show "drv_frame d' = drv_frame d" "length hb' = length hb" "length rxb' = length rxb" by simp_all
qed

interpretation tm_keep: xfer_invariant "tm_xfer api" "tm_inv :: ('s, 'z) tmemFifo_scheme \<Rightarrow> bool" for api :: "'s tosca"
proof
  fix d' d :: "('s, 'z) tmemFifo_scheme" assume "axisToJtag.more d' = axisToJtag.more d"
  then show "tm_inv d' = tm_inv d" by (cases d, cases d') (simp add: tm_inv_def)
next
  fix txb n hb hs rxb sz r hb' rxb' and d d' :: "('s, 'z) tmemFifo_scheme"
  assume "tm_inv d" "tm_xfer api txb n hb hs rxb sz d = ((r, hb', rxb'), d')"
  then show "tm_inv d'" using tm_mode.pres_xfer by blast
qed

lemma emul_tmem_io:
  "tm_rd (emul_tmem step lat csr0) 1 0 SDES_CSR_IDX s = (tmem_read_csr step s, s\<lparr>tv_busy := tv_busy s - 1\<rparr>)"
  "tm_rd (emul_tmem step lat csr0) 1 0 SDES_TDO_IDX s = (tv_tdo s, s)"
  "tm_rd (emul_tmem step lat csr0) 1 0 FIFO_MAGIC_IDX s = (MAGIC, s)"
  "tm_rd (emul_tmem step lat csr0) 1 0 FIFO_CSR_IDX s = (csr0, s)"
  "tm_wr (emul_tmem step lat csr0) 1 0 SDES_TMS_IDX v s = s\<lparr>tv_tms := v\<rparr>"
  "tm_wr (emul_tmem step lat csr0) 1 0 SDES_TDI_IDX v s = s\<lparr>tv_tdi := v\<rparr>"
  "tm_wr (emul_tmem step lat csr0) 1 0 SDES_CSR_IDX v s = tmem_write_csr step lat v s"
  "nanosleep (emul_tmem step lat csr0) ns s = s\<lparr>tv_busy := 0\<rparr>"
  by (simp_all add: tm_rd_def tm_wr_def emul_tmem_def tmem_regs)

lemma bit_read_csr:
  "bit (tmem_read_csr step s) i \<longleftrightarrow>
     (if i = 19 then fst (step (bit (tv_csr s) 17, bit (tv_csr s) 18) (tv_tap s))
      else if i = 9 then tv_busy s \<noteq> 0 else bit (tv_csr s) i \<and> bit csr_mask i)"
  by (simp add: tmem_read_csr_def Let_def bit_set_line bit_consts bit_and_iff)

text \<open>Version 1 with a size of 1024 bytes.\<close>

interpretation et: tmem_board "emul_tmem step lat 0x11000000" 1 0 "\<lambda>s. tv_csr s AND csr_mask = tv_csr s" "\<lambda>s. s" step "0x11000000"
  for step :: "bool \<times> bool \<Rightarrow> 't \<Rightarrow> bool \<times> 't" and lat :: nat
proof (unfold_locales, unfold emul_tmem_io)
  fix s s' :: "'t tmem_view" and v
  assume a: "tv_csr s AND csr_mask = tv_csr s" "(tmem_read_csr step s, s\<lparr>tv_busy := tv_busy s - 1\<rparr>) = (v, s')"
  have v: "v = tmem_read_csr step s" "s' = s\<lparr>tv_busy := tv_busy s - 1\<rparr>" using a(2) by auto
  have m: "bit (tv_csr s) i \<Longrightarrow> bit csr_mask i" for i using a(1) bit_and_iff by metis
  have "v AND csr_mask = tv_csr s"
    by (rule bit_word_eqI) (use m m [of 9] m [of 19] in \<open>auto simp: v bit_and_iff bit_read_csr bit_consts\<close>)
  then show "tv_csr s' AND csr_mask = tv_csr s' \<and> s' = s\<lparr>tv_busy := tv_busy s - 1\<rparr> \<and> v AND csr_mask = tv_csr s \<and>
      bit v 9 = (tv_busy s \<noteq> 0) \<and> \<not> bit v 8 \<and> \<not> bit v 10 \<and> \<not> bit v 11 \<and>
      (bit v 31 \<and> \<not> bit v 16 \<longrightarrow> bit v 19 = fst (step (bit v 17, bit v 18) (tv_tap s)))"
    using a(1) by (simp add: v bit_read_csr bit_consts)
next
  fix s s' :: "'t tmem_view" and v l
  assume a: "l = unat (take_bit 8 v) + 1" "l \<le> 32" "bit v 8" "s' = tmem_write_csr step lat v s"
  obtain out t where r: "dev_run step (zip (low_bits l (tv_tms s)) (low_bits l (tv_tdi s))) (tv_tap s) = (out, t)" by fastforce
  have "length out = l" using length_dev_run [of step "zip (low_bits l (tv_tms s)) (low_bits l (tv_tdi s))" "tv_tap s"] by (simp add: r)
  then have "low_bits l (drop_bit (32 - l) (push_bit (32 - l) (word_of_nat (horner_sum of_bool 2 out)))) = out"
    using a(2) by (intro nth_equalityI) (auto simp: low_bits_def bit_simps bit_horner_sum_bit_iff)
  then show "tv_csr s' AND csr_mask = tv_csr s' \<and> tv_csr s' = v AND csr_mask \<and>
      (low_bits l (drop_bit (32 - l) (tv_tdo s')), tv_tap s') = dev_run step (zip (low_bits l (tv_tms s)) (low_bits l (tv_tdi s))) (tv_tap s)"
    using a r by (simp add: tmem_write_csr_def and.assoc)
qed (auto simp: tmem_write_csr_def and.assoc FIFO_CSR_VERSS_def FIFO_CSR_VERSM_def VERSION_1_def)

text \<open>The constructor establishes the invariant, and \<^verbatim>\<open>reset\<close> then does not use an uninitialised variable.\<close>

lemma tm_setup_inv:
  fixes d :: "('s, 'z) tmemFifo_scheme"
  assumes "tm_setup api irq_open args d = (Inr (), d')" and "m_irqFd d = - 1" and "\<not> m_doSleep d" and "m_wrdSiz d = 4"
  shows "tm_inv d'"
proof -
  define P where "P = (\<lambda>d :: ('s, 'z) tmemFifo_scheme. m_irqFd d = - 1 \<and> \<not> m_doSleep d \<and> m_wrdSiz d = 4)"
  have io: "tm_i32 api idx e = (r, e') \<Longrightarrow> P e \<Longrightarrow> P e' \<and> (m_version e', m_bitBang e', m_logBscn e') = (m_version e, m_bitBang e, m_logBscn e)"
    "tm_o32 api idx v e = (u, e') \<Longrightarrow> P e \<Longrightarrow> P e' \<and> (m_version e', m_bitBang e', m_logBscn e') = (m_version e, m_bitBang e, m_logBscn e)"
    for idx e r e' v u by (auto simp: tm_i32_def tm_o32_def P_def)
  have probe: "P e' \<and> (m_version e' = VERSION_0 \<and> \<not> m_bitBang e' \<and> \<not> m_logBscn e' \<or> m_version e' = VERSION_1)"
    if p: "tm_probe api csr opts e = (Inr (), e')" "P e" for csr opts e e'
    using p by (auto simp: tm_probe_def Let_def bindS_def P_def tm_i32_def tm_o32_def split: if_splits)
  obtain csr opts d1 d2 where p: "P d1" "tm_probe api csr opts d1 = (Inr (), d2)"
    and r: "tm_setup api irq_open args d = tm_reset api (let e1 = (if m_logBscn d2 then d2\<lparr>m_bitBang := True\<rparr> else d2);
        e2 = e1\<lparr>m_measure := 0\<rparr>; irqfn = (if m_bitBang e2 \<or> m_useSdes e2 then None else to_irqfn opts)
      in (case irqfn of None \<Rightarrow> e2 | Some f \<Rightarrow> e2\<lparr>m_irqFd := irq_open f\<rparr>)\<lparr>m_maxVec := tm_maxVec csr\<rparr>)"
  proof -
    obtain magic e1 where e1: "tm_i32 api FIFO_MAGIC_IDX d = (Inr magic, e1)" by (simp add: tm_i32_def)
    obtain csr e2 where e2: "tm_i32 api FIFO_CSR_IDX e1 = (Inr csr, e2)" by (simp add: tm_i32_def)
    have "P e2" using io(1) [OF e2] io(1) [OF e1] assms(2-4) by (simp add: P_def)
    have m: "magic = MAGIC" using assms(1) e1 by (auto simp: tm_setup_def bindS_def split: if_splits)
    obtain opts where o: "tm_options args \<lparr>to_bitBang = False, to_logBscn = False, to_irqfn = None\<rparr> = Inr opts"
      using assms(1) e1 by (auto simp: tm_setup_def bindS_def liftR_def split: if_splits sum.splits)
    obtain q e3 where e3: "tm_probe api csr opts e2 = (q, e3)" by fastforce
    have q: "q = Inr ()" using assms(1) e1 e2 e3 o m by (cases q) (auto simp: tm_setup_def bindS_def liftR_def)
    have never: "NOT (if b then 1 else 0 :: u32) \<noteq> 0" for b by simp
    show ?thesis
      by (rule that [OF \<open>P e2\<close> e3 [unfolded q]])
        (simp add: tm_setup_def bindS_def liftR_def e1 e2 e3 o m q never Let_def split: option.split)
  qed
  define d3 where "d3 = (let e1 = (if m_logBscn d2 then d2\<lparr>m_bitBang := True\<rparr> else d2);
        e2 = e1\<lparr>m_measure := 0\<rparr>; irqfn = (if m_bitBang e2 \<or> m_useSdes e2 then None else to_irqfn opts)
      in (case irqfn of None \<Rightarrow> e2 | Some f \<Rightarrow> e2\<lparr>m_irqFd := irq_open f\<rparr>)\<lparr>m_maxVec := tm_maxVec csr\<rparr>)"
  have "tm_inv d3" using probe [OF p(2,1)]
    by (auto simp: d3_def Let_def tm_inv_def P_def split: option.split if_splits)
  then show ?thesis using assms(1) r presS_D [OF tm_mode.pres_reset, of d3] unfolding d3_def [symmetric] by simp
qed

lemma tmemFifo_new_inv:
  assumes "tmemFifo_new host xid0 sdes0 api s0 irq_open args devnam = Inr d"
  shows "tm_inv d"
proof -
  define d0 where "d0 space base = polledDrv.extend (regDrv.extend (axisToJtag.extend (axisToJtag_new host xid0 0) (regDrv.fields s0))
    (polledDrv.fields False 100 0 0)) (tmemFifo.fields space base 128 4 (-1) False sdes0 False 0)" for space base
  obtain space base where t: "tm_target api devnam = Inr (space, base)"
    using assms by (cases "tm_target api devnam") (auto simp: tmemFifo_new_def)
  obtain r e where s: "tm_setup api irq_open args (d0 space base) = (r, e)" by fastforce
  have "r = Inr ()" "e = d" using assms t s by (cases r; simp add: tmemFifo_new_def Let_def d0_def)+
  with s show ?thesis by (intro tm_setup_inv [of api irq_open args "d0 space base"]) (simp_all add: d0_def tmem_new_defs)
qed

section \<open>Properties\<close>

lemma tmem_size_cases: "unat (drop_bit 24 (csr AND 0x0f000000) :: u32) < 16"
proof -
  have "drop_bit 24 (csr AND 0x0f000000) = drop_bit 24 csr AND mask 4" by (simp add: mask_eq_exp_minus_1)
  also have "\<dots> = take_bit 4 (drop_bit 24 csr)" by (simp only: take_bit_eq_mask)
  finally have e: "drop_bit 24 (csr AND 0x0f000000) = take_bit 4 (drop_bit 24 csr)" .
  have "unat (take_bit 4 (drop_bit 24 csr)) < 2 ^ 4" by (simp only: unsigned_take_bit_eq take_bit_nat_less_exp)
  then show ?thesis by (simp only: e) simp
qed

text \<open>
  C40.  The size of vectors that the constructor computes from the size field \<open>m\<close> (in units of 1024 bytes) of the
  control register is \<open>512 m - 2\<close> bytes, for a field of zero it wraps around, and only for \<open>m = 1\<close> is it a size
  whose message fits into the 2048 bytes that the transmit buffer has in raw serialiser mode.
\<close>

theorem tmem_max_vector:
  "unat (tm_maxVec csr) =
     (if unat (drop_bit 24 (csr AND 0x0f000000)) = 0 then 2 ^ 63 - 2 else 512 * unat (drop_bit 24 (csr AND 0x0f000000)) - 2) \<and>
   (msg_size 4 (unat (tm_maxVec csr)) \<le> 2048 \<longleftrightarrow> unat (drop_bit 24 (csr AND 0x0f000000)) = 1)"
proof -
  define n where "n = (drop_bit 24 (csr AND 0x0f000000) :: u32)"
  have "tm_maxVec csr = ((ucast (push_bit 10 n div 4) :: u64) - 1) * 4 div 2"
    by (simp add: tm_maxVec_def n_def FIFO_CSR_MAXWS_def FIFO_CSR_MAXWM_def Let_def)
  moreover have "n \<in> set (map word_of_nat [0..<16])"
  proof -
    have "unat n < 16" unfolding n_def by (rule tmem_size_cases)
    then have "n = word_of_nat (unat n)" "unat n \<in> set [0..<16]" by simp_all
    then show ?thesis by (metis imageI list.set_map)
  qed
  ultimately show ?thesis unfolding n_def [symmetric] by (auto simp: upt_rec msg_size_def)
qed

end
