(* ===== verification/Srv_Tmem.thy ===== *)
theory Srv_Tmem
  imports Xvc_Server Drv_Tmem
begin

text \<open>
  The server with the TMEM driver on the raw serialiser: from the construction of the driver to the
  replies that a client gets, with the serialiser and with the lines driven bit by bit.
\<close>

section \<open>The driver as the server sees it\<close>

definition tmem_ops :: "'s tosca \<Rightarrow> 's tmemFifo jtag_ops" where
  "tmem_ops api = axisToJtag_ops (tm_xfer api) tm_getMaxVectorSize"

section \<open>Lemmas\<close>

lemma tmem_ready:
  assumes brd: "tmem_board api space base ok view step csr0" and tgt: "tm_target api devnam = Inr (space, base)"
    and opts: "tm_options args \<lparr>to_bitBang = False, to_logBscn = False, to_irqfn = None\<rparr> = Inr opts"
    and s0: "ok s0" "tv_busy (view s0) = 0"
  shows "\<exists>d0 d. tmemFifo_new host xid0 sdes0 api s0 irq_open args devnam = Inr d0 \<and> tm_init api d0 = (Inr (), d) \<and>
    base_valid 4 tmem_limit UNKNOWN_PERIOD d \<and> tm_good space base (to_bitBang opts \<or> to_logBscn opts) (tm_maxVec csr0) ok view d \<and>
    tm_dev view d = tap_reset step (tap_reset step (tv_tap (view s0)))"
proof -
  note jtag = tmem_board.axioms(1) [OF brd]
  obtain d0 where n: "tmemFifo_new host xid0 sdes0 api s0 irq_open args devnam = Inr d0" "drv_wf d0" "m_wordSize d0 = 4" "\<not> getSniff d0"
    "tm_good space base (to_bitBang opts \<or> to_logBscn opts) (tm_maxVec csr0) ok view d0" "tm_dev view d0 = tap_reset step (tv_tap (view s0))"
    using tmem_board.tmemFifo_new_ok [OF brd tgt opts s0, of host xid0 sdes0 irq_open] by (elim exE conjE)
  show ?thesis using tmem_jtag.tm_init_ok [OF jtag n(2-5)] n(1,6) by auto
qed

lemma tmem_fit:
  assumes "tmem_board api space base ok view step csr0" and "base_valid 4 tmem_limit UNKNOWN_PERIOD d" and "tm_good space base bb mv ok view d"
  shows "chunks_fit (tmem_ops api) (sup_len 0 mx (unat mv)) mx d"
  using tmem_jtag.tm_query_ok [OF tmem_board.axioms(1) [OF assms(1)] assms(2,3)]
  by (auto simp: chunks_fit_def tmem_ops_def axisToJtag_ops_def tm_getMaxVectorSize_def tm_good_def)

text \<open>The operations of the object keep the invariant that the constructor established.\<close>

lemma tmem_reach_inv:
  assumes "driver_reach (\<lambda>d. \<exists>host xid0 sdes0 s0 irq_open args devnam. tmemFifo_new host xid0 sdes0 api s0 irq_open args devnam = Inr d)
    (tmem_ops api) (tm_init api) d"
  shows "tm_inv d"
  using assms
proof (induction rule: driver_reach.induct)
  case (reach_new d)
  then show ?case by (blast intro: tmemFifo_new_inv)
next
  case (reach_init d r d')
  obtain r1 d1 where r: "tm_reset api d = (r1, d1)" by fastforce
  have "tm_inv d1" using presS_D [OF tm_mode.pres_reset reach_init.IH r] .
  then show ?case using reach_init.hyps(2) r tm_keep.K_init [of d1 api]
    by (cases r1) (auto simp: tm_init_def bindS_def split: prod.splits sum.splits if_splits)
next
  case (reach_query d q d')
  then show ?case using tm_keep.K_query by (auto simp: tmem_ops_def axisToJtag_ops_def)
next
  case (reach_send d bits tms tdi tdo t d')
  then show ?case using tm_keep.K_send by (cases t) (auto simp: tmem_ops_def axisToJtag_ops_def)
qed

section \<open>Concrete runs\<close>

text \<open>An interface at rest, and a device that delays its input by one bit.\<close>

definition tmem_rest :: "bool tmem_view" where
  "tmem_rest = \<lparr>tv_csr = 0, tv_tms = 0, tv_tdi = 0, tv_tdo = 0, tv_busy = 0, tv_tap = False\<rparr>"

definition delay_tdi :: "bool \<times> bool \<Rightarrow> bool \<Rightarrow> bool \<times> bool" where
  "delay_tdi tms_tdi t = (t, snd tms_tdi)"

section \<open>Properties\<close>

text \<open>
  C7.  The server with the TMEM driver on the raw serialiser, in bit bang mode (options \<^verbatim>\<open>-b\<close> and \<^verbatim>\<open>-l\<close>) and without:
  when the interface does what its registers promise, the constructor finds it, \<^verbatim>\<open>init\<close> succeeds, and every
  client gets the replies the protocol asks for, with the TDO bits that the device shifts out.  The device
  has seen two resets by then.  No vector that reaches the driver may be longer than 1020 bytes, which is the case when
  the size that the firmware reports is 1024 bytes (then the limit of the driver is 510 bytes), and for other sizes only when the
  client's longest shift, of \<open>mc\<close> bytes, keeps to it.
\<close>

theorem tmem_session:
  assumes "tmem_board api space base ok view step csr0" and "tm_target api devnam = Inr (space, base)"
    and "tm_options args \<lparr>to_bitBang = False, to_logBscn = False, to_irqfn = None\<rparr> = Inr opts" and "ok s0" and "tv_busy (view s0) = 0"
    and "min mc (sup_len 0 mx (unat (tm_maxVec csr0))) \<le> tmem_limit" and "mc \<le> mx" and "mx < 2 ^ 32"
    and "clean evs" and "\<forall>i. 0 < wr i" and "ev_bytes evs = concat (map encode_msg ms)" and "list_all (msg_ok mc) ms"
  shows "\<exists>d0 d1. tmemFifo_new host xid0 sdes0 api s0 irq_open args devnam = Inr d0 \<and> tm_init api d0 = (Inr (), d1) \<and>
    (\<forall>c. xvcConn_new sd evs wr 0 d1 mx = Inr c \<longrightarrow>
      (\<exists>c'. conn_run (tmem_ops api) c = Some (if eof evs then SysErr ''Unable to read from socket'' else Blocked, c') \<and>
        session step (\<lambda>p. p) mx ms (tap_reset step (tap_reset step (tv_tap (view s0)))) (c_out c') (tv_tap (view (m_hw (c_drv c'))))))"
proof -
  obtain d0 d1 where d: "tmemFifo_new host xid0 sdes0 api s0 irq_open args devnam = Inr d0" "tm_init api d0 = (Inr (), d1)"
    "base_valid 4 tmem_limit UNKNOWN_PERIOD d1" "tm_good space base (to_bitBang opts \<or> to_logBscn opts) (tm_maxVec csr0) ok view d1"
    "tm_dev view d1 = tap_reset step (tap_reset step (tv_tap (view s0)))"
    using tmem_ready [OF assms(1-5), of host xid0 sdes0 irq_open] by (elim exE conjE)
  note fit = tmem_fit [OF assms(1) d(3,4)]
  note ser = tmem_jtag.tmem_serial [OF tmem_board.axioms(1) [OF assms(1)], of "to_bitBang opts \<or> to_logBscn opts" "tm_maxVec csr0", folded tmem_ops_def]
  note s = serial_driver.conn_session [OF ser conjI [OF d(3,4)] fit assms(8) _ assms(9-12,7,6), unfolded period_reply_unknown d(5)]
  have "\<exists>c'. conn_run (tmem_ops api) c = Some (if eof evs then SysErr ''Unable to read from socket'' else Blocked, c') \<and>
      session step (\<lambda>p. p) mx ms (tap_reset step (tap_reset step (tv_tap (view s0)))) (c_out c') (tv_tap (view (m_hw (c_drv c'))))"
    if "xvcConn_new sd evs wr 0 d1 mx = Inr c" for c
    using s [OF that] unfolding tm_dev_def by blast
  with d(1,2) show ?thesis by blast
qed

theorem tmem_session_witness:
  "\<exists>d0 d1. tmemFifo_new le_platform 0 False (emul_tmem delay_tdi 2 0x11000000) tmem_rest (\<lambda>_. - 1) [(CHR ''b'', [])] ''0'' = Inr d0 \<and>
    tm_init (emul_tmem delay_tdi 2 0x11000000) d0 = (Inr (), d1) \<and>
    (\<exists>c'. conn_run (tmem_ops (emul_tmem delay_tdi 2 0x11000000))
        (case xvcConn_new 5 [Data (ascii ''shift:'' @ [12, 0, 0, 0, 1, 2, 3, 4])] (\<lambda>_. 3) 0 d1 32768 of Inr c \<Rightarrow> c) = Some (Blocked, c') \<and>
      session delay_tdi (\<lambda>p. p) 32768 [Shift 12 [1, 2] [3, 4]] (tap_reset delay_tdi (tap_reset delay_tdi False)) (c_out c')
        (tv_tap (m_hw (c_drv c'))))"
proof -
  define evs where "evs = [Data (ascii ''shift:'' @ [12, 0, 0, 0, 1, 2, 3, 4])]"
  have t: "tm_target (emul_tmem delay_tdi 2 0x11000000) ''0'' = Inr (1, 0)"
    by (simp add: tm_target_def emul_tmem_def strtoul_def is_space_def digit_val_def Let_def)
  have o: "tm_options [(CHR ''b'', [])] \<lparr>to_bitBang = False, to_logBscn = False, to_irqfn = None\<rparr> =
      Inr \<lparr>to_bitBang = True, to_logBscn = False, to_irqfn = None\<rparr>" by simp
  have m: "min 32768 (sup_len 0 32768 (unat (tm_maxVec 0x11000000))) \<le> tmem_limit" "(32768 :: nat) \<le> 32768"
    by (simp_all add: sup_len_def tm_maxVec_def tmem_limit_def FIFO_CSR_MAXWS_def FIFO_CSR_MAXWM_def Let_def)
  have h: "tv_csr tmem_rest AND csr_mask = tv_csr tmem_rest" "tv_busy tmem_rest = 0" "32768 < (2 :: nat) ^ 32" by (simp_all add: tmem_rest_def)
  have e: "clean evs" "\<forall>i :: nat. 0 < (3 :: int)" "ev_bytes evs = concat (map encode_msg [Shift 12 [1, 2] [3, 4]])"
    "list_all (msg_ok 32768) [Shift 12 [1, 2] [3, 4]]"
    by (simp_all add: evs_def vec_bytes_def ascii_def le_bytes32_def)
  obtain d0 d1 where d: "tmemFifo_new le_platform 0 False (emul_tmem delay_tdi 2 0x11000000) tmem_rest (\<lambda>_. - 1) [(CHR ''b'', [])] ''0'' = Inr d0"
    "tm_init (emul_tmem delay_tdi 2 0x11000000) d0 = (Inr (), d1)"
    and r: "\<And>c. xvcConn_new 5 evs (\<lambda>_. 3) 0 d1 32768 = Inr c \<Longrightarrow>
      \<exists>c'. conn_run (tmem_ops (emul_tmem delay_tdi 2 0x11000000)) c = Some (if eof evs then SysErr ''Unable to read from socket'' else Blocked, c') \<and>
        session delay_tdi (\<lambda>p. p) 32768 [Shift 12 [1, 2] [3, 4]] (tap_reset delay_tdi (tap_reset delay_tdi (tv_tap tmem_rest))) (c_out c')
          (tv_tap (m_hw (c_drv c')))"
    using tmem_session [where view = "\<lambda>s. s" and sd = 5, OF et.tmem_board_axioms t o h(1,2) m h(3) e] by blast
  obtain c where c: "xvcConn_new 5 evs (\<lambda>_. 3) 0 d1 32768 = Inr c" by (simp add: xvcConn_new_def)
  show ?thesis using d r [OF c] c by (auto simp: evs_def eof_def tmem_rest_def)
qed

text \<open>
  C9.  The invariant of the TMEM driver, over any hardware and for any sequence of operations, failing ones
  included: bit banging goes with version 1 of the firmware only (so \<^verbatim>\<open>reset\<close> does not use its variable
  \<^verbatim>\<open>csr\<close> uninitialised), logging implies bit banging, and interrupts are used with the FIFO only.  The counter \<^verbatim>\<open>measure_\<close> and the
  flag \<^verbatim>\<open>doSleep_\<close> stay off, so the driver never measures how long the serialiser needs, and \<^verbatim>\<open>wait\<close> never sleeps: it waits for the
  interrupt when there is one and returns at once otherwise.  (The pauses of bit bang mode are not part of \<^verbatim>\<open>wait\<close>.)
\<close>

theorem tmem_invariant:
  assumes "driver_reach (\<lambda>d. \<exists>host xid0 sdes0 s0 irq_open args devnam. tmemFifo_new host xid0 sdes0 api s0 irq_open args devnam = Inr d)
    (tmem_ops api) (tm_init api) d"
  shows "tm_inv d \<and> tm_wait api d = (if 0 \<le> m_irqFd d then irq_wait api d else (Inr 0, d))"
proof -
  have "tm_inv d" using assms by (rule tmem_reach_inv)
  then show ?thesis by (simp add: tm_inv_def tm_wait_def)
qed

theorem tmem_invariant_witness:
  "\<exists>d. tmemFifo_new le_platform 0 False (emul_tmem delay_tdi 2 0x11000000) tmem_rest (\<lambda>_. - 1) [(CHR ''l'', [])] ''0'' = Inr d \<and>
     tm_inv (snd (tm_init (emul_tmem delay_tdi 2 0x11000000) d)) \<and>
     tm_wait (emul_tmem delay_tdi 2 0x11000000) (snd (tm_init (emul_tmem delay_tdi 2 0x11000000) d)) =
       (if 0 \<le> m_irqFd (snd (tm_init (emul_tmem delay_tdi 2 0x11000000) d))
        then irq_wait (emul_tmem delay_tdi 2 0x11000000) (snd (tm_init (emul_tmem delay_tdi 2 0x11000000) d))
        else (Inr 0, snd (tm_init (emul_tmem delay_tdi 2 0x11000000) d)))"
proof -
  let ?api = "emul_tmem delay_tdi 2 0x11000000"
  have t: "tm_target ?api ''0'' = Inr (1, 0)"
    by (simp add: tm_target_def emul_tmem_def strtoul_def is_space_def digit_val_def Let_def)
  have o: "tm_options [(CHR ''l'', [])] \<lparr>to_bitBang = False, to_logBscn = False, to_irqfn = None\<rparr> =
      Inr \<lparr>to_bitBang = False, to_logBscn = True, to_irqfn = None\<rparr>" by simp
  have h: "tv_csr tmem_rest AND csr_mask = tv_csr tmem_rest" "tv_busy tmem_rest = 0" by (simp_all add: tmem_rest_def)
  obtain d where d: "tmemFifo_new le_platform 0 False ?api tmem_rest (\<lambda>_. - 1) [(CHR ''l'', [])] ''0'' = Inr d"
    using et.tmemFifo_new_ok [OF t o h, of le_platform 0 False "\<lambda>_. - 1"] by (elim exE conjE)
  have "tm_inv (snd (tm_init ?api d)) \<and> tm_wait ?api (snd (tm_init ?api d)) =
      (if 0 \<le> m_irqFd (snd (tm_init ?api d)) then irq_wait ?api (snd (tm_init ?api d)) else (Inr 0, snd (tm_init ?api d)))"
    by (rule tmem_invariant [where api = ?api]) (use d in \<open>blast intro: reach_new reach_init prod.collapse [symmetric]\<close>)
  with d show ?thesis by blast
qed

end
