(* ===== verification/Srv_Stream.thy ===== *)
theory Srv_Stream
  imports Xvc_Server Stream_Driver
begin

text \<open>
  The server with a driver that transfers messages of the stream protocol reliably.
\<close>

context reliable_driver
begin

text \<open>The connection of a client, from a driver that is ready.\<close>

lemma rel_session:
  assumes "valid d" and "\<And>d. valid d \<Longrightarrow> sup_len (memDepth hq * w) mx (maxVec d) \<le> sl" and "mx < 2 ^ 32"
    and "xvcConn_new sd evs wr 0 d mx = Inr c" and "clean evs" and "\<forall>i. 0 < wr i"
    and "ev_bytes evs = concat (map encode_msg ms)" and "list_all (msg_ok mc) ms"
    and "mc \<le> mx" and "min mc sl \<le> vlim"
  shows "\<exists>c'. conn_run (axisToJtag_ops xf maxVec) c = Some (if eof evs then SysErr ''Unable to read from socket'' else Blocked, c') \<and>
    session step (period_reply (cvtPerNs hq)) mx ms (dev d) (c_out c') (dev (c_drv c'))"
proof -
  obtain d' where "query xf d = (Inr (memDepth hq * w), d')" "valid d'" using query_ok [of d] assms(1) by (auto simp: base_valid_def)
  then have "chunks_fit (axisToJtag_ops xf maxVec) sl mx d" using assms(2) by (simp add: chunks_fit_def axisToJtag_ops_def)
  from serial_driver.conn_session [OF rel_serial assms(1) this assms(3-10)] show ?thesis by blast
qed

end

end
