(* ===== verification/Stream_Target.thy ===== *)
theory Stream_Target
  imports Stream_Driver
begin

text \<open>
  A target that speaks the stream protocol, such as the firmware behind the FIFO and UDP drivers, and a
  transport that exchanges one message for one reply with it: together they make a driver.
\<close>

section \<open>Specification\<close>

text \<open>
  For concrete runs: a target with word size four and a memory of 511 words, which shifts the vectors of a message
  through a device and rejects other versions.
\<close>

definition emul_header :: u32 where
  "emul_header = push_bit 4 510 OR 3"

definition bytes_of_bits :: "nat \<Rightarrow> bool list \<Rightarrow> u8 list" where
  "bytes_of_bits k bs = map (\<lambda>i. word_of_nat (horner_sum of_bool 2 (take 8 (drop (8 * i) bs)))) [0..<k]"

definition emul_target :: "(bool \<times> bool \<Rightarrow> 't \<Rightarrow> bool \<times> 't) \<Rightarrow> u8 list \<Rightarrow> 't \<Rightarrow> u8 list \<times> 't" where
  "emul_target step msg t =
     (let h = le_word32 (take 4 msg) in
      if getVrs h \<noteq> PVER0 then (le_bytes32 (CMD_E OR ERR_BAD_VERSION), t)
      else if getCmd h = CMD_Q then (le_bytes32 emul_header, t)
      else
        (case getLen h of
           Inl _ \<Rightarrow> ([], t)
         | Inr bits \<Rightarrow>
             let k = (bits + 31) div 32;
                 (out, t') = dev_run step (zip (take bits (bits_of_bytes (word_bytes msg 4 k))) (take bits (bits_of_bytes (word_bytes msg 8 k)))) t
             in (le_bytes32 h @ bytes_of_bits (4 * k) out, t')))"

section \<open>Lemmas\<close>

text \<open>Only the bytes that are sent count.\<close>

lemma pos_in_msg:
  assumes "0 < w" and "j < n"
  shows "tms_pos w j < msg_size w n" "tdi_pos w j < msg_size w n"
proof -
  define m where "m = (n + w - 1) div w"
  have "n + w - 1 < m * w + w" unfolding m_def using assms(1) div_mult_mod_eq [of "n + w - 1" w] mod_less_divisor [OF assms(1), of "n + w - 1"] by linarith
  then have n: "n \<le> m * w" using assms(1) by linarith
  have ms: "msg_size w n = w + 2 * w * m" by (simp add: msg_size_def m_def)
  show "tms_pos w j < msg_size w n" "tdi_pos w j < msg_size w n"
    using pos_arith [OF assms(1), of j m] assms(2) n unfolding ms tms_pos_def tdi_pos_def by linarith+
qed

lemma shift_msg_take:
  assumes "0 < w" and "shift_msg w h n tms tdi tx"
  shows "shift_msg w h n tms tdi (take (msg_size w n) tx)"
  using assms(2) pos_in_msg [OF assms(1)] by (simp add: shift_msg_def min_def msg_size_def)

section \<open>Contracts\<close>

text \<open>
  The target: a query is answered with the header \<open>hq\<close>, a shift with a header of the same transaction and the
  TDO bits of the device, another version with an error.  A reply consists of whole words.
\<close>

locale stream_target =
  fixes answer :: "u8 list \<Rightarrow> 't \<Rightarrow> u8 list \<times> 't" and step :: "bool \<times> bool \<Rightarrow> 't \<Rightarrow> bool \<times> 't"
    and w :: nat and hq :: u32 and vlim :: nat
  assumes tgt_w: "4 \<le> w" "w \<le> 16" "w mod 4 = 0" "vlim \<le> 2 ^ 17"
    and tgt_hq: "getErr hq = 0" "wordSize hq = w"
    and tgt_query: "u = 4 \<or> u = w \<Longrightarrow> \<exists>pad. answer (le_bytes32 mkQuery @ replicate (u - 4) 0) t = (le_bytes32 hq @ pad, t) \<and> length pad = w - 4"
    and tgt_shift: "length msg = msg_size w n \<Longrightarrow> shift_msg w h n tms tdi msg \<Longrightarrow> n \<le> length tms \<Longrightarrow> n \<le> length tdi \<Longrightarrow>
      getVrs h = PVER0 \<Longrightarrow> getCmd h = CMD_S \<Longrightarrow> getLen h = Inr bits \<Longrightarrow> n = (bits + 7) div 8 \<Longrightarrow> n \<le> vlim \<Longrightarrow>
      \<exists>hr pad vec t'. answer msg t = (le_bytes32 hr @ pad @ vec, t') \<and> length pad = w - 4 \<and> length vec = (n + w - 1) div w * w \<and>
        getErr hr = 0 \<and> getXid hr = getXid h \<and>
        (take bits (bits_of_bytes vec), t') = dev_run step (zip (take bits (bits_of_bytes tms)) (take bits (bits_of_bytes tdi))) t"
    and tgt_version: "getVrs h \<noteq> PVER0 \<Longrightarrow>
      \<exists>hr pad. answer (le_bytes32 h @ replicate (w - 4) 0) t = (le_bytes32 hr @ pad, t) \<and> length pad = w - 4 \<and> getErr hr \<noteq> 0"

text \<open>What holds of the vectors up to \<open>vlim\<close> bytes holds of shorter ones.\<close>

lemma stream_target_le:
  assumes "stream_target answer step w hq vlim" and "v \<le> vlim"
  shows "stream_target answer step w hq v"
  using stream_target.tgt_w [OF assms(1)] stream_target.tgt_hq [OF assms(1)] assms(2)
  by (intro stream_target.intro stream_target.tgt_query [OF assms(1)] stream_target.tgt_shift [OF assms(1)]
      stream_target.tgt_version [OF assms(1)]) simp_all

text \<open>
  The transport: the first \<open>n\<close> bytes of the transmit buffer are the message, the reply goes to the header buffer and
  then to the receive buffer as far as it was asked for.  Messages and replies of up to \<open>mlim\<close> bytes are transported.
\<close>

locale message_transport =
  fixes xf :: "'a axisToJtag_scheme xfer_fn" and good :: "'a axisToJtag_scheme \<Rightarrow> bool" and tgt :: "'a axisToJtag_scheme \<Rightarrow> 't"
    and answer :: "u8 list \<Rightarrow> 't \<Rightarrow> u8 list \<times> 't" and mlim :: nat
  assumes link_more: "axisToJtag.more d' = axisToJtag.more d \<Longrightarrow> m_host d' = m_host d \<Longrightarrow> m_drEn d' = m_drEn d \<Longrightarrow>
      good d' = good d \<and> tgt d' = tgt d"
    and link_law: "good d \<Longrightarrow> n \<le> length tx \<Longrightarrow> 0 < n \<Longrightarrow> n mod 4 = 0 \<Longrightarrow> n < 2 ^ 32 \<Longrightarrow> answer (take n tx) (tgt d) = (reply, t') \<Longrightarrow>
      length reply mod 4 = 0 \<Longrightarrow> length reply \<le> 2 ^ 17 + 64 \<Longrightarrow> 0 < hs \<Longrightarrow> hs mod 4 = 0 \<Longrightarrow> hs \<le> length reply \<Longrightarrow> hs \<le> length hb \<Longrightarrow>
      sz \<le> length rx \<Longrightarrow> mn = min sz (length reply - hs) \<Longrightarrow> n \<le> mlim \<Longrightarrow> length reply \<le> mlim \<Longrightarrow>
      \<exists>d'. xf tx n hb hs rx sz d = ((Inr (int mn), take hs reply @ drop hs hb, take mn (drop hs reply) @ drop mn rx), d') \<and>
        good d' \<and> tgt d' = t' \<and> drv_frame d' = drv_frame d"

text \<open>Both together, when the messages of the longest vectors can be transported.\<close>

locale stream_link = message_transport xf good tgt answer mlim + stream_target answer step w hq vlim
  for xf :: "'a axisToJtag_scheme xfer_fn" and good :: "'a axisToJtag_scheme \<Rightarrow> bool" and tgt :: "'a axisToJtag_scheme \<Rightarrow> 't"
    and answer :: "u8 list \<Rightarrow> 't \<Rightarrow> u8 list \<times> 't" and mlim :: nat and step :: "bool \<times> bool \<Rightarrow> 't \<Rightarrow> bool \<times> 't"
    and w :: nat and hq :: u32 and vlim :: nat +
  fixes maxVec :: "'a axisToJtag_scheme \<Rightarrow> nat"
  assumes link_room: "msg_size w vlim \<le> mlim"
begin

text \<open>A message without vectors.\<close>

lemma link_header:
  assumes "good d" and "u = 4 \<or> u = w" and "u \<le> length tx" and "take u tx = le_bytes32 h @ replicate (u - 4) 0"
    and "answer (le_bytes32 h @ replicate (u - 4) 0) (tgt d) = (le_bytes32 hr @ pad, t')" and "length pad = w - 4" and "length hb = hdBufMax"
  shows "\<exists>hb' d'. xf tx u hb u rx 0 d = ((Inr 0, hb', rx), d') \<and> length hb' = hdBufMax \<and> take 4 hb' = le_bytes32 hr \<and>
    good d' \<and> tgt d' = t' \<and> drv_frame d' = drv_frame d"
proof -
  define reply where "reply = le_bytes32 hr @ pad"
  have u: "4 \<le> u" "u \<le> w" "u mod 4 = 0" "w \<le> mlim" using assms(2) tgt_w link_room by (auto simp: msg_size_def)
  have len: "length reply = w" "take 4 (take u reply) = le_bytes32 hr" using assms(6) tgt_w(1) u by (simp_all add: reply_def)
  have a: "answer (take u tx) (tgt d) = (reply, t')" using assms(4,5) by (simp add: reply_def)
  obtain d' where "xf tx u hb u rx 0 d = ((Inr (int 0), take u reply @ drop u hb, take 0 (drop u reply) @ drop 0 rx), d')"
    "good d'" "tgt d' = t'" "drv_frame d' = drv_frame d"
    using link_law [OF assms(1,3) _ u(3) _ a, of u hb 0 rx 0] len tgt_w u assms(7) by (auto simp: hdBufMax_def)
  then show ?thesis using len assms(7) tgt_w u by (auto simp: hdBufMax_def)
qed

sublocale stream_driver xf maxVec good tgt step w hq vlim
proof
  fix d' d :: "'a axisToJtag_scheme" assume a: "axisToJtag.more d' = axisToJtag.more d" "m_host d' = m_host d" "m_drEn d' = m_drEn d"
  from link_more [OF a] show "good d' = good d" "tgt d' = tgt d" by simp_all
next
  fix d :: "'a axisToJtag_scheme" and tx hb :: "u8 list" and u
  assume a: "good d" "u = 4 \<or> u = w" "u \<le> length tx" "take u tx = le_bytes32 mkQuery @ replicate (u - 4) 0" "length hb = hdBufMax"
  obtain pad where "answer (le_bytes32 mkQuery @ replicate (u - 4) 0) (tgt d) = (le_bytes32 hq @ pad, tgt d)" "length pad = w - 4"
    using tgt_query [OF a(2)] by blast
  from link_header [OF a(1-4) this a(5), of "[]"]
  show "\<exists>got hb' d'. xf tx u hb u [] 0 d = ((Inr got, hb', []), d') \<and> length hb' = hdBufMax \<and> take 4 hb' = le_bytes32 hq \<and>
      drv_frame d' = drv_frame d \<and> good d' \<and> tgt d' = tgt d" by auto
next
  fix d :: "'a axisToJtag_scheme" and tx hb tms tdi rx :: "u8 list" and h n bits
  assume a: "good d" "m_wordSize d = w" "shift_msg w h n tms tdi tx" "n \<le> length tms" "n \<le> length tdi"
    "getVrs h = PVER0" "getCmd h = CMD_S" "getLen h = Inr bits" "n = (bits + 7) div 8" "n \<le> vlim" "n \<le> length rx" "length hb = hdBufMax"
  define m where "m = (n + w - 1) div w * w"
  have w: "0 < w" using tgt_w(1) by simp
  have m: "n \<le> m" "m < n + w" "m mod 4 = 0"
  proof -
    show "n \<le> m" "m < n + w" unfolding m_def using w div_mult_mod_eq [of "n + w - 1" w] mod_less_divisor [OF w, of "n + w - 1"] by linarith+
    show "m mod 4 = 0" unfolding m_def using tgt_w(3) by (simp add: mod_eq_0_iff_dvd)
  qed
  have sz: "msg_size w n = w + 2 * m" by (simp add: msg_size_def m_def)
  have len: "msg_size w n \<le> length tx" using a(3) by (simp add: shift_msg_def)
  then have "length (take (msg_size w n) tx) = msg_size w n" by simp
  from tgt_shift [OF this shift_msg_take [OF w a(3)] a(4-10), of "tgt d"]
  obtain hr pad vec t' where r: "answer (take (msg_size w n) tx) (tgt d) = (le_bytes32 hr @ pad @ vec, t')" "length pad = w - 4" "length vec = m"
    "getErr hr = 0" "getXid hr = getXid h"
    "(take bits (bits_of_bytes vec), t') = dev_run step (zip (take bits (bits_of_bytes tms)) (take bits (bits_of_bytes tdi))) (tgt d)"
    by (auto simp: m_def)
  define reply where "reply = le_bytes32 hr @ pad @ vec"
  have rl: "length reply = w + m" "drop w reply = vec" "take 4 reply = le_bytes32 hr" using r(2,3) tgt_w(1) by (simp_all add: reply_def)
  have pre: "0 < msg_size w n" "msg_size w n mod 4 = 0" "msg_size w n < 2 ^ 32" "length reply mod 4 = 0" "length reply \<le> 2 ^ 17 + 64"
    "w \<le> length reply" "w \<le> length hb" "n = min n (length reply - w)"
    using sz m w tgt_w a(10,12) rl(1) by (simp_all add: hdBufMax_def mod_eq_0_iff_dvd dvd_add dvd_mult)
  have room: "msg_size w n \<le> mlim" "length reply \<le> mlim"
    using msg_size_mono [OF w a(10)] link_room sz rl(1) by simp_all
  obtain d' where x: "xf tx (msg_size w n) hb w rx n d = ((Inr (int n), take w reply @ drop w hb, take n (drop w reply) @ drop n rx), d')"
    "good d'" "tgt d' = t'" "drv_frame d' = drv_frame d"
    using link_law [OF a(1) len pre(1-3) r(1) [folded reply_def] pre(4,5) w tgt_w(3) pre(6,7) a(11) pre(8) room] by blast
  have "bits \<le> 8 * n" using a(9) by simp
  then have "take bits (bits_of_bytes (take n vec @ drop n rx)) = take bits (bits_of_bytes vec)"
    using m(1) r(3) by (intro take_bits_cong [of bits n]) simp_all
  then show "\<exists>got hb' rx' d'. xf tx (msg_size w n) hb w rx n d = ((Inr got, hb', rx'), d') \<and> length hb' = hdBufMax \<and>
      getErr (le_word32 (take 4 hb')) = 0 \<and> getXid (le_word32 (take 4 hb')) = getXid h \<and> drv_frame d' = drv_frame d \<and> good d' \<and>
      length rx' = length rx \<and> drop n rx' = drop n rx \<and>
      (take bits (bits_of_bytes rx'), tgt d') = dev_run step (zip (take bits (bits_of_bytes tms)) (take bits (bits_of_bytes tdi))) (tgt d)"
    using x(2-4) r(3-6) m(1) rl a(11,12) tgt_w(1) pre(6,7)
    by (intro exI [of _ "int n"] exI [of _ "take w reply @ drop w hb"] exI [of _ "take n vec @ drop n rx"] exI [of _ d'])
      (simp add: x(1) min_def)
next
  fix d :: "'a axisToJtag_scheme" and tx hb rx :: "u8 list" and h
  assume a: "good d" "w \<le> length tx" "take w tx = le_bytes32 h @ replicate (w - 4) 0" "getVrs h \<noteq> PVER0" "length hb = hdBufMax"
  obtain hr pad where r: "answer (le_bytes32 h @ replicate (w - 4) 0) (tgt d) = (le_bytes32 hr @ pad, tgt d)" "length pad = w - 4" "getErr hr \<noteq> 0"
    using tgt_version [OF a(4)] by blast
  obtain hb' d' where x: "xf tx w hb w rx 0 d = ((Inr 0, hb', rx), d')" "length hb' = hdBufMax" "take 4 hb' = le_bytes32 hr"
    using link_header [OF a(1) disjI2 [OF refl] a(2,3) r(1,2) a(5)] by blast
  then have "outcome_of (getXid h) le (Inr 0) hb' = Fail (ProtoErr (err_reply_msg (getErr hr)))" for le
    using r(3) by (simp add: outcome_of_def getHdr_le hdBufMax_def)
  with x(1) show "\<exists>r hb' rx' d' e. xf tx w hb w rx 0 d = ((r, hb', rx'), d') \<and> length rx' = length rx \<and>
      outcome_of (getXid h) (isLE (m_host d')) r hb' = Fail e \<and> no_fault (Inl e :: unit res)"
    by (intro exI [of _ "Inr 0"] exI [of _ hb'] exI [of _ rx] exI [of _ d'] exI [of _ "ProtoErr (err_reply_msg (getErr hr))"]) simp
qed (use tgt_w tgt_hq in simp_all)

lemma link_reliable: "reliable_driver xf good tgt step w hq vlim"
  by unfold_locales

end

section \<open>Interpretations\<close>

lemma nth_bits_of_bytes: "i < 8 * length bs \<Longrightarrow> bits_of_bytes bs ! i = bit (bs ! (i div 8)) (i mod 8)"
proof (induction bs arbitrary: i)
  case (Cons b bs)
  show ?case
  proof (cases "i < 8")
    case True
    then show ?thesis by (simp add: nth_append bits_of_byte_def)
  next
    case False
    then obtain j where "i = j + 8" by (metis add.commute le_add_diff_inverse not_less)
    then show ?thesis using Cons.IH [of j] Cons.prems by (simp add: nth_append bits_of_byte_def)
  qed
qed simp

lemma bits_of_bytes_of_bits:
  assumes "length bs \<le> 8 * k"
  shows "take (length bs) (bits_of_bytes (bytes_of_bits k bs)) = bs"
proof (rule nth_equalityI)
  show "length (take (length bs) (bits_of_bytes (bytes_of_bits k bs))) = length bs"
    using assms by (simp add: bytes_of_bits_def)
  fix i assume "i < length (take (length bs) (bits_of_bytes (bytes_of_bits k bs)))"
  then have i: "i < length bs" "i < 8 * k" using assms by simp_all
  then have "i div 8 < k" by simp
  moreover have "i mod 8 < length bs - 8 * (i div 8)" using i(1) div_mult_mod_eq [of i 8] by linarith
  ultimately show "take (length bs) (bits_of_bytes (bytes_of_bits k bs)) ! i = bs ! i"
    using i by (simp add: nth_bits_of_bytes bytes_of_bits_def bit_simps bit_horner_sum_bit_iff mult_div_mod_eq)
qed

lemma emul_header_fields: "getErr emul_header = 0" "wordSize emul_header = 4" "memDepth emul_header = 510" "cvtPerNs emul_header = UNKNOWN_PERIOD"
  by (simp_all add: emul_header_def getErr_def getCmd_def wordSize_def memDepth_def cvtPerNs_def XID_SHIFT_def hdr_defs)

interpretation tgt: stream_target "emul_target step" step 4 emul_header "memDepth emul_header * 4"
  for step :: "bool \<times> bool \<Rightarrow> 't \<Rightarrow> bool \<times> 't"
proof
  show "getErr emul_header = 0" "wordSize emul_header = 4" by (simp_all add: emul_header_fields)
next
  fix t :: 't and u :: nat assume "u = 4 \<or> u = 4"
  then show "\<exists>pad. emul_target step (le_bytes32 mkQuery @ replicate (u - 4) 0) t = (le_bytes32 emul_header @ pad, t) \<and> length pad = 4 - 4"
    by (simp add: emul_target_def mkQuery_def getVrs_def getCmd_def hdr_defs)
next
  fix msg tms tdi :: "u8 list" and n bits :: nat and h and t :: 't
  assume a: "length msg = msg_size 4 n" "shift_msg 4 h n tms tdi msg" "n \<le> length tms" "n \<le> length tdi" "getVrs h = PVER0" "getCmd h = CMD_S"
    "getLen h = Inr bits" "n = (bits + 7) div 8"
  define k where "k = (n + 3) div 4"
  note vec = shift_msg_vectors [OF a(2-4) k_def]
  have k: "(bits + 31) div 32 = k" unfolding k_def a(8) by (simp add: div_mult2_eq [symmetric] flip: div_mult2_eq)
  have le: "bits \<le> 8 * n" using a(8) by simp
  have b: "take bits (bits_of_bytes (word_bytes msg 4 k)) = take bits (bits_of_bytes tms)"
    "take bits (bits_of_bytes (word_bytes msg 8 k)) = take bits (bits_of_bytes tdi)"
    by (rule take_bits_cong [OF le vec(1)], rule take_bits_cong [OF le vec(2)])
  obtain out t' where r: "dev_run step (zip (take bits (bits_of_bytes tms)) (take bits (bits_of_bytes tdi))) t = (out, t')" by fastforce
  have out: "length out = bits"
    using length_dev_run [of step "zip (take bits (bits_of_bytes tms)) (take bits (bits_of_bytes tdi))" t] r a(3,4) le by simp
  have hdr: "take 4 msg = le_bytes32 h" using shift_msg_hdr [OF a(2)] by simp
  have "CMD_S \<noteq> CMD_Q" by (simp add: hdr_defs)
  then have "emul_target step msg t = (le_bytes32 h @ [] @ bytes_of_bits (4 * k) out, t')"
    using a(5-7) k b r by (simp add: emul_target_def hdr)
  moreover have "bits \<le> 8 * (4 * k)" using le k_def by simp
  then have "take bits (bits_of_bytes (bytes_of_bits (4 * k) out)) = out" using bits_of_bytes_of_bits [of out "4 * k"] out by simp
  moreover have "getErr h = 0" using a(6) by (simp add: getErr_def hdr_defs)
  moreover have "length (bytes_of_bits (4 * k) out) = (n + 4 - 1) div 4 * 4" by (simp add: bytes_of_bits_def k_def)
  ultimately show "\<exists>hr pad vec t'. emul_target step msg t = (le_bytes32 hr @ pad @ vec, t') \<and> length pad = 4 - 4 \<and>
      length vec = (n + 4 - 1) div 4 * 4 \<and> getErr hr = 0 \<and> getXid hr = getXid h \<and>
      (take bits (bits_of_bytes vec), t') = dev_run step (zip (take bits (bits_of_bytes tms)) (take bits (bits_of_bytes tdi))) t"
    unfolding r by (intro exI [of _ h] exI [of _ "[]"] exI [of _ "bytes_of_bits (4 * k) out"] exI [of _ t']) simp
next
  fix h and t :: 't assume "getVrs h \<noteq> PVER0"
  moreover have "getErr (CMD_E OR ERR_BAD_VERSION) \<noteq> 0" by (simp add: getErr_def getCmd_def hdr_defs)
  ultimately show "\<exists>hr pad. emul_target step (le_bytes32 h @ replicate (4 - 4) 0) t = (le_bytes32 hr @ pad, t) \<and> length pad = 4 - 4 \<and> getErr hr \<noteq> 0"
    by (intro exI [of _ "CMD_E OR ERR_BAD_VERSION"] exI [of _ "[]"]) (simp add: emul_target_def)
qed (simp_all add: emul_header_fields)

end
