(* ===== verification/Fifo_Driver.thy ===== *)
theory Fifo_Driver
  imports Reg_Io Stream_Target
begin

text \<open>
  The transfer loops over a FIFO of words: sending a message word by word, and receiving a reply into the header
  buffer and the receive buffer.
\<close>

section \<open>Specification\<close>

text \<open>The bytes of words, and the words of the first \<open>4 k\<close> bytes from offset \<open>i\<close>, on a host with byte order \<open>le\<close>.\<close>

definition bytes_of_words :: "bool \<Rightarrow> u32 list \<Rightarrow> u8 list" where
  "bytes_of_words le ws = concat (map (mem_of_u32 le) ws)"

definition words_of_bytes :: "bool \<Rightarrow> u8 list \<Rightarrow> nat \<Rightarrow> nat \<Rightarrow> u32 list" where
  "words_of_bytes le bs i k = map (\<lambda>j. u32_of_mem le (take 4 (drop (i + 4 * j) bs))) [0..<k]"

section \<open>Lemmas\<close>

lemma length_bytes_of_words [simp]: "length (bytes_of_words le ws) = 4 * length ws"
  by (induction ws) (simp_all add: bytes_of_words_def)

lemma bytes_of_words_simps [simp]:
  "bytes_of_words le [] = []" "bytes_of_words le (w # ws) = mem_of_u32 le w @ bytes_of_words le ws"
  "bytes_of_words le (us @ vs) = bytes_of_words le us @ bytes_of_words le vs"
  by (simp_all add: bytes_of_words_def)

lemma words_of_bytes_Suc:
  "words_of_bytes le bs i (Suc k) = u32_of_mem le (take 4 (drop i bs)) # words_of_bytes le bs (i + 4) k"
  by (simp add: words_of_bytes_def upt_conv_Cons map_Suc_upt [symmetric] del: upt_Suc) (simp add: algebra_simps)

lemma words_bytes_inverse:
  "i + 4 * k \<le> length bs \<Longrightarrow> bytes_of_words le (words_of_bytes le bs i k) = take (4 * k) (drop i bs)"
proof (induction k arbitrary: i)
  case (Suc k)
  have "length (take 4 (drop i bs)) = 4" using Suc.prems by simp
  then have "mem_of_u32 le (u32_of_mem le (take 4 (drop i bs))) = take 4 (drop i bs)" by (cases le) (simp_all add: mem_of_u32_def u32_of_mem_def le_bytes32_word32)
  moreover have "take (4 * Suc k) (drop i bs) = take 4 (drop i bs) @ take (4 * k) (drop (i + 4) bs)"
    using take_add [of 4 "4 * k" "drop i bs"] by (simp add: add.commute)
  ultimately show ?case using Suc.IH [of "i + 4"] Suc.prems by (simp add: words_of_bytes_Suc)
qed (simp add: words_of_bytes_def)

subsection \<open>Sending\<close>

text \<open>\<open>snt us d\<close>: the words \<open>us\<close> have been written; there is room for \<open>cap\<close> words.\<close>

locale word_sink =
  fixes put :: "u32 \<Rightarrow> ('d, unit) sm" and snt :: "u32 list \<Rightarrow> 'd \<Rightarrow> bool" and cap :: nat
  assumes put_law: "snt us d \<Longrightarrow> length us < cap \<Longrightarrow> \<exists>d'. put v d = (Inr (), d') \<and> snt (us @ [v]) d'"
begin

lemma tx_words_ok:
  "snt us d \<Longrightarrow> i + 4 * k \<le> length tx \<Longrightarrow> length us + k \<le> cap \<Longrightarrow>
    \<exists>d'. tx_words put le tx k i d = (Inr (), d') \<and> snt (us @ words_of_bytes le tx i k) d'"
proof (induction k arbitrary: i us d)
  case 0
  then show ?case by (simp add: words_of_bytes_def)
next
  case (Suc k)
  obtain d1 where p: "put (u32_of_mem le (take 4 (drop i tx))) d = (Inr (), d1)" "snt (us @ [u32_of_mem le (take 4 (drop i tx))]) d1"
    using put_law [OF Suc.prems(1)] Suc.prems(3) by auto
  obtain d2 where "tx_words put le tx k (i + 4) d1 = (Inr (), d2)"
    "snt ((us @ [u32_of_mem le (take 4 (drop i tx))]) @ words_of_bytes le tx (i + 4) k) d2"
    using Suc.IH [OF p(2), of "i + 4"] Suc.prems(2,3) by auto
  then show ?case using p(1) Suc.prems(2) by (simp add: bindS_def liftR_def rd_mem_ok words_of_bytes_Suc)
qed

end

subsection \<open>Receiving\<close>

text \<open>\<open>holds ws d\<close>: the words \<open>ws\<close> are left to be read, and the test mode is off.\<close>

locale word_source =
  fixes rd :: "('a jtagDriver_scheme, u32) sm" and holds :: "u32 list \<Rightarrow> 'a jtagDriver_scheme \<Rightarrow> bool"
  assumes rd_law: "holds (v # vs) d \<Longrightarrow> \<exists>d'. rd d = (Inr v, d') \<and> holds vs d'"
    and no_drop: "holds [] d \<Longrightarrow> \<not> m_drEn d"
begin

lemma rx_header_ok:
  "holds (us @ vs) d \<Longrightarrow> i + 4 * length us \<le> length hb \<Longrightarrow> 4 * length us \<le> got \<Longrightarrow>
    \<exists>d'. rx_header rd le (length us) i got (hb, rx, d) =
      (Inr (got - 4 * length us), (take i hb @ bytes_of_words le us @ drop (i + 4 * length us) hb, rx, d')) \<and> holds vs d'"
proof (induction us arbitrary: i got hb d)
  case (Cons u us)
  have "holds (u # (us @ vs)) d" using Cons.prems(1) by simp
  from rd_law [OF this] obtain d1 where r: "rd d = (Inr u, d1)" "holds (us @ vs) d1" by blast
  define hb1 where "hb1 = take i hb @ mem_of_u32 le u @ drop (i + 4) hb"
  have w: "wr_mem hb i (mem_of_u32 le u) = Inr hb1" using Cons.prems(2) by (simp add: wr_mem_ok hb1_def)
  have h1: "length hb1 = length hb" "take (i + 4) hb1 = take i hb @ mem_of_u32 le u" "drop (i + 4 + j) hb1 = drop (i + 4 + j) hb" for j
    using Cons.prems(2) by (simp_all add: hb1_def ac_simps)
  obtain d2 where "rx_header rd le (length us) (i + 4) (got - 4) (hb1, rx, d1) =
      (Inr (got - 4 - 4 * length us), (take (i + 4) hb1 @ bytes_of_words le us @ drop (i + 4 + 4 * length us) hb1, rx, d2))" "holds vs d2"
    using Cons.IH [OF r(2), of "i + 4" hb1 "got - 4"] Cons.prems(2,3) h1(1) by (auto simp: le_diff_conv2)
  then show ?case using r(1) w h1(2) h1(3) [of "4 * length us"] Cons.prems(3) by (simp add: bindS_def onD_def put_hb_def ac_simps)
qed simp

lemma rx_words_ok:
  "holds (us @ vs) d \<Longrightarrow> i + 4 * length us \<le> length rx \<Longrightarrow>
    \<exists>d'. rx_words rd le (length us) i (hb, rx, d) =
      (Inr (), (hb, take i rx @ bytes_of_words le us @ drop (i + 4 * length us) rx, d')) \<and> holds vs d'"
proof (induction us arbitrary: i rx d)
  case (Cons u us)
  have "holds (u # (us @ vs)) d" using Cons.prems(1) by simp
  from rd_law [OF this] obtain d1 where r: "rd d = (Inr u, d1)" "holds (us @ vs) d1" by blast
  define rx1 where "rx1 = take i rx @ mem_of_u32 le u @ drop (i + 4) rx"
  have w: "wr_mem rx i (mem_of_u32 le u) = Inr rx1" using Cons.prems(2) by (simp add: wr_mem_ok rx1_def)
  have h1: "length rx1 = length rx" "take (i + 4) rx1 = take i rx @ mem_of_u32 le u" "drop (i + 4 + j) rx1 = drop (i + 4 + j) rx" for j
    using Cons.prems(2) by (simp_all add: rx1_def ac_simps)
  obtain d2 where "rx_words rd le (length us) (i + 4) (hb, rx1, d1) =
      (Inr (), (hb, take (i + 4) rx1 @ bytes_of_words le us @ drop (i + 4 + 4 * length us) rx1, d2))" "holds vs d2"
    using Cons.IH [OF r(2), of "i + 4" rx1] Cons.prems(2) h1(1) by auto
  then show ?case using r(1) w h1(2) h1(3) [of "4 * length us"] by (simp add: bindS_def onD_def put_rx_def ac_simps)
qed simp

lemma rx_discard_ok: "holds vs d \<Longrightarrow> \<exists>d'. rx_discard rd (length vs) (hb, rx, d) = (Inr (), (hb, rx, d')) \<and> holds [] d'"
proof (induction vs arbitrary: d)
  case (Cons v vs)
  from rd_law [OF Cons.prems] obtain d1 where "rd d = (Inr v, d1)" "holds vs d1" by blast
  then show ?case using Cons.IH [of d1] by (auto simp: bindS_def onD_def)
qed simp

lemma rx_payload_ok:
  assumes "holds vs d" and "sz \<le> length rx" and "mn = min sz (4 * length vs)"
  shows "\<exists>d'. rx_payload rd le (4 * length vs) sz (hb, rx, d) =
    (Inr mn, (hb, take mn (bytes_of_words le vs) @ drop mn rx, d')) \<and> holds [] d'"
proof -
  define m us ws where "m = mn div 4" and "us = take m vs" and "ws = drop m vs"
  have mn: "mn \<le> length rx" "mn \<le> 4 * length vs" using assms(2,3) by simp_all
  have m: "m \<le> length vs" "4 * m \<le> mn" using mn(2) by (simp_all add: m_def)
  have us: "length us = m" "vs = us @ ws" "length ws = length vs - m" using m(1) by (simp_all add: us_def ws_def)
  have sel: "(if sz < 4 * length vs then sz else 4 * length vs) = mn" using assms(3) by simp
  have "holds (us @ ws) d" using assms(1) us(2) by simp
  from rx_words_ok [OF this, of 0 rx le hb] obtain d1
    where w: "rx_words rd le m 0 (hb, rx, d) = (Inr (), (hb, bytes_of_words le us @ drop (4 * m) rx, d1))" "holds ws d1"
    using us(1) m(2) mn(1) by auto
  show ?thesis
  proof (cases "mn = 4 * m")
    case True
    obtain d2 where "rx_discard rd (length ws) (hb, bytes_of_words le us @ drop (4 * m) rx, d1) =
        (Inr (), (hb, bytes_of_words le us @ drop (4 * m) rx, d2))" "holds [] d2"
      using rx_discard_ok [OF w(2)] by blast
    moreover have "(4 * length vs - 4 * m + 3) div 4 = length ws" using us(3) m(1) by simp
    moreover have "take mn (bytes_of_words le vs) = bytes_of_words le us" using True us(1) by (simp add: us(2))
    ultimately show ?thesis using w(1) True by (simp add: rx_payload_def sel bindS_def flip: m_def)
  next
    case False
    define k where "k = mn - 4 * m"
    have k: "k \<noteq> 0" "k < 4" "mn = 4 * m + k" using False m(2) by (simp_all add: k_def m_def)
    then have "ws \<noteq> []" using us(3) mn(2) by auto
    then obtain v vs' where ws: "ws = v # vs'" by (cases ws) simp_all
    from rd_law [OF w(2) [unfolded ws]] obtain d2 where r: "rd d1 = (Inr v, d2)" "holds vs' d2" by blast
    define rx1 where "rx1 = bytes_of_words le us @ take k (mem_of_u32 le v) @ drop (4 * m + k) rx"
    have p: "wr_mem (bytes_of_words le us @ drop (4 * m) rx) (4 * m) (take k (mem_of_u32 le v)) = Inr rx1"
      using us(1) mn(1) k by (simp add: wr_mem_ok rx1_def ac_simps)
    obtain d3 where d3: "rx_discard rd (length vs') (hb, rx1, d2) = (Inr (), (hb, rx1, d3))" "holds [] d3"
      using rx_discard_ok [OF r(2)] by blast
    have "(4 * length vs - (4 * m + 4) + 3) div 4 = length vs'" using us(3) ws by simp
    moreover have "take mn (bytes_of_words le vs) @ drop mn rx = rx1" using us(1) k by (simp add: us(2) ws rx1_def)
    ultimately show ?thesis using w(1) r(1) p d3 k by (simp add: rx_payload_def sel bindS_def onD_def put_rx_def flip: m_def)
  qed
qed

lemma rx_reply_ok:
  assumes "holds ws d" and "bs = bytes_of_words le ws" and "0 < hs" and "hs mod 4 = 0" and "hs \<le> length bs"
    and "hs \<le> length hb" and "sz \<le> length rx" and "mn = min sz (length bs - hs)" and "mn < 2 ^ 31"
  shows "\<exists>d'. rx_reply rd le hs (length bs) sz (hb, rx, d) =
    (Inr (int mn), (take hs bs @ drop hs hb, take mn (drop hs bs) @ drop mn rx, d')) \<and> holds [] d'"
proof -
  define k us vs where "k = hs div 4" and "us = take k ws" and "vs = drop k ws"
  have hs: "hs = 4 * k" using assms(4) by (simp add: k_def mod_eq_0_iff_dvd)
  have us: "length us = k" "ws = us @ vs" using assms(2,5) hs by (simp_all add: us_def vs_def)
  then have "bs = bytes_of_words le us @ bytes_of_words le vs" "length (bytes_of_words le us) = hs" using assms(2) hs by simp_all
  with us have k: "length us = k" "ws = us @ vs" "length bs - hs = 4 * length vs" "take hs bs = bytes_of_words le us"
    "drop hs bs = bytes_of_words le vs" by simp_all
  have "holds (us @ vs) d" using assms(1) k(2) by simp
  from rx_header_ok [OF this, of 0 hb "length bs" le rx] obtain d1
    where h: "rx_header rd le k 0 (length bs) (hb, rx, d) = (Inr (length bs - hs), (bytes_of_words le us @ drop hs hb, rx, d1))" "holds vs d1"
    using assms(5,6) k(1) hs by auto
  obtain d2 where p: "rx_payload rd le (4 * length vs) sz (bytes_of_words le us @ drop hs hb, rx, d1) =
      (Inr mn, (bytes_of_words le us @ drop hs hb, take mn (bytes_of_words le vs) @ drop mn rx, d2))" "holds [] d2"
    using rx_payload_ok [OF h(2) assms(7)] assms(8) k(3) by metis
  have "drop_test d2 = (Inr (), d2)" using no_drop [OF p(2)] by (simp add: drop_test_def)
  moreover have "c_int mn = int mn" using assms(9) by (simp add: c_int_def signed_of_nat signed_take_bit_int_eq_self)
  moreover have "bs \<noteq> []" using assms(3,5) by auto
  ultimately show ?thesis using h(1) p k(3-5) by (simp add: rx_reply_def bindS_def onD_def flip: k_def)
qed

end

end
