(* ===== verification/Drv_Zynq.thy ===== *)
theory Drv_Zynq
  imports Fifo_Driver
begin

text \<open>
  The driver of an AXI stream FIFO, class \<^verbatim>\<open>JtagDriverZynqFifo\<close> of \<^verbatim>\<open>xvcDrvAxisFifo.h\<close> and
  \<^verbatim>\<open>xvcDrvAxisFifo.cc\<close>.  The registers of the FIFO are those of the parameter \<open>hw\<close>.
\<close>

section \<open>JtagDriverZynqFifo\<close>

definition TX_STA_IDX :: nat where "TX_STA_IDX = 0"
definition TX_IEN_IDX :: nat where "TX_IEN_IDX = 1"
definition TX_RST_IDX :: nat where "TX_RST_IDX = 2"
definition RST_MAGIC :: u32 where "RST_MAGIC = 0xa5"
definition TX_DAT_IDX :: nat where "TX_DAT_IDX = 4"
definition TX_END_IDX :: nat where "TX_END_IDX = 5"
definition TX_SIZ_IDX :: nat where "TX_SIZ_IDX = 6"
definition RX_STA_IDX :: nat where "RX_STA_IDX = 8"
definition RX_IEN_IDX :: nat where "RX_IEN_IDX = 9"
definition RX_RST_IDX :: nat where "RX_RST_IDX = 10"
definition RX_DAT_IDX :: nat where "RX_DAT_IDX = 12"
definition RX_CNT_IDX :: nat where "RX_CNT_IDX = 13"

definition RX_RDY_SHF :: nat where "RX_RDY_SHF = 5"
definition RX_RST_SHF :: nat where "RX_RST_SHF = 0"
definition TX_RST_SHF :: nat where "TX_RST_SHF = 0"

record 's zynqFifo = "'s regDrv" +
  m_map :: memMap
  m_maxVec :: u64
  m_wrdSiz :: nat
  m_useIrq :: bool

definition zq_o32 :: "'s mmio \<Rightarrow> nat \<Rightarrow> u32 \<Rightarrow> (('s, 'z) zynqFifo_scheme, unit) sm" where
  "zq_o32 hw idx v d = map_wr hw (m_map d) idx v d"

definition zq_i32 :: "'s mmio \<Rightarrow> nat \<Rightarrow> (('s, 'z) zynqFifo_scheme, u32) sm" where
  "zq_i32 hw idx d = map_rd hw (m_map d) idx d"

definition zq_wait :: "'s mmio \<Rightarrow> (('s, 'z) zynqFifo_scheme, u32) sm" where
  "zq_wait hw d = (if m_useIrq d then irq_wait hw d else (Inr 0, d))"

text \<open>
  One round of the loop of \<^verbatim>\<open>reset\<close>: the two bits of \<^verbatim>\<open>set\<close> are the arguments, their new values the
  result.
\<close>

definition zq_reset_side :: "'s mmio \<Rightarrow> nat \<Rightarrow> nat \<Rightarrow> bool \<Rightarrow> (('s, 'z) zynqFifo_scheme, bool) sm" where
  "zq_reset_side hw rst sta done =
     (if done then retS True
      else bindS (zq_i32 hw rst) (\<lambda>v.
        if v AND 1 \<noteq> 0 then bindS (zq_o32 hw sta 1) (\<lambda>_. retS True) else retS False))"

partial_function (option) zq_reset_loop :: "'s mmio \<Rightarrow> bool \<Rightarrow> bool \<Rightarrow> ('s, 'z) zynqFifo_scheme \<Rightarrow>
    (unit res \<times> ('s, 'z) zynqFifo_scheme) option" where
  "zq_reset_loop hw rx tx d =
     (case bindS (zq_reset_side hw RX_RST_IDX RX_STA_IDX rx) (\<lambda>rx'.
           bindS (zq_reset_side hw TX_RST_IDX TX_STA_IDX tx) (\<lambda>tx'.
           if rx' \<and> tx' then retS (rx', tx') else bindS (zq_wait hw) (\<lambda>_. retS (rx', tx')))) d of
        (Inl e, d') \<Rightarrow> Some (Inl e, d')
      | (Inr (rx', tx'), d') \<Rightarrow> if rx' \<and> tx' then Some (Inr (), d') else zq_reset_loop hw rx' tx' d')"

definition zq_reset :: "'s mmio \<Rightarrow> (('s, 'z) zynqFifo_scheme, unit) sm" where
  "zq_reset hw =
     bindS (zq_o32 hw RX_RST_IDX RST_MAGIC) (\<lambda>_.
     bindS (zq_o32 hw TX_RST_IDX RST_MAGIC) (\<lambda>_.
     bindS (\<lambda>d. if m_useIrq d
             then bindS (zq_o32 hw RX_IEN_IDX (push_bit RX_RST_SHF 1 OR push_bit RX_RDY_SHF 1))
               (\<lambda>_. zq_o32 hw TX_IEN_IDX (push_bit TX_RST_SHF 1)) d
             else (Inr (), d)) (\<lambda>_.
     runS (zq_reset_loop hw False False))))"

text \<open>
  The constructor; \<open>args\<close> are the options after \<^verbatim>\<open>--\<close>, \<open>s0\<close> is the state of the hardware.  The number of
  words is computed in 32 bits, the sizes in 64.
\<close>

primrec zq_options :: "char list \<Rightarrow> bool \<Rightarrow> bool res" where
  "zq_options [] useIrq = Inr useIrq"
| "zq_options (c # cs) useIrq =
     (if c = CHR ''i'' then zq_options cs False else Inl (RuntimeErr ''Unknown driver option''))"

definition zq_maxVec :: "u32 \<Rightarrow> u64" where
  "zq_maxVec sizVal =
     (let wrdSiz = ucast (drop_bit 24 sizVal) :: u64;
          maxWords = ucast ((sizVal AND 0x00ffffff) - 1) :: u64
      in (maxWords - 1) * wrdSiz div 2)"

definition zynqFifo_new :: "platform \<Rightarrow> u8 \<Rightarrow> map_env \<Rightarrow> 's mmio \<Rightarrow> 's \<Rightarrow> char list \<Rightarrow> string \<Rightarrow> 's zynqFifo res" where
  "zynqFifo_new host xid0 env hw s0 args devnam =
     bindR (memMap_new env devnam 1) (\<lambda>mp.
     bindR (zq_options args True) (\<lambda>useIrq.
       let d0 = regDrv.extend (axisToJtag.extend (axisToJtag_new host xid0 0) (regDrv.fields s0))
                  (zynqFifo.fields mp 0 0 useIrq)
       in (case bindS (zq_reset hw) (\<lambda>_. zq_i32 hw TX_SIZ_IDX) d0 of
             (Inl e, _) \<Rightarrow> Inl e
           | (Inr sizVal, d) \<Rightarrow>
               Inr (d\<lparr>m_wrdSiz := unat (drop_bit 24 sizVal), m_maxVec := zq_maxVec sizVal\<rparr>))))"

definition zq_xfer_io :: "'s mmio \<Rightarrow> bool \<Rightarrow> u8 list \<Rightarrow> nat \<Rightarrow> nat \<Rightarrow> nat \<Rightarrow> (('s, 'z) zynqFifo_scheme xst, int) sm" where
  "zq_xfer_io hw le txb txBytes hsize sz =
     (let txWords = (word_of_nat txBytes + 3) div 4 :: u32;
          lastBytes = word_of_nat txBytes - 4 * (txWords - 1) :: u32
      in if hsize mod 4 \<noteq> 0
         then throwS (RuntimeErr ''zynq FIFO only supports word-lengths that are a multiple of 4'')
         else
           bindS (onD (tx_words (zq_o32 hw TX_DAT_IDX) le txb (unat txWords) 0)) (\<lambda>_.
           bindS (onD (zq_o32 hw TX_END_IDX lastBytes)) (\<lambda>_.
           bindS (onD (poll (zq_i32 hw RX_STA_IDX) (\<lambda>v. v AND push_bit RX_RDY_SHF 1 = 0)
                        (bindS (zq_wait hw) (\<lambda>_. retS ())))) (\<lambda>_.
           bindS (onD (zq_o32 hw RX_STA_IDX (push_bit RX_RDY_SHF 1))) (\<lambda>_.
           bindS (onD (zq_i32 hw RX_CNT_IDX)) (\<lambda>got.
             rx_reply (zq_i32 hw RX_DAT_IDX) le hsize (unat got) sz))))))"

definition zq_xfer :: "'s mmio \<Rightarrow> ('s, 'z) zynqFifo_scheme xfer_fn" where
  "zq_xfer hw txb txBytes hb hsize rx sz d = io_xfer (zq_xfer_io hw (isLE (m_host d))) txb txBytes hb hsize rx sz d"

definition zq_init :: "'s mmio \<Rightarrow> (('s, 'z) zynqFifo_scheme, unit) sm" where
  "zq_init hw =
     bindS (zq_reset hw) (\<lambda>_.
     bindS (init_drv (zq_xfer hw)) (\<lambda>_ d.
       if getWordSize d \<noteq> m_wrdSiz d
       then (Inl (RuntimeErr ''ERROR: firmware misconfigured -- FIFO word size /= JTAG stream word size''), d)
       else (Inr (), d)))"

definition zq_getMaxVectorSize :: "('s, 'z) zynqFifo_scheme \<Rightarrow> nat" where
  "zq_getMaxVectorSize d = unat (m_maxVec d)"

section \<open>Lemmas\<close>

lemmas zynq_regs = TX_STA_IDX_def TX_IEN_IDX_def TX_RST_IDX_def RST_MAGIC_def TX_DAT_IDX_def TX_END_IDX_def
  TX_SIZ_IDX_def RX_STA_IDX_def RX_IEN_IDX_def RX_RST_IDX_def RX_DAT_IDX_def RX_CNT_IDX_def RX_RDY_SHF_def
  RX_RST_SHF_def TX_RST_SHF_def

text \<open>The transfer leaves the members of the base class and the sizes of the buffers alone, whatever the hardware does.\<close>

interpretation zq_inv: reg_inv "\<lambda>d :: ('s, 'z) zynqFifo_scheme. drv_frame d = f" for f
  by unfold_locales (simp_all add: drv_frame_def)

lemma zq_pres:
  "presS (\<lambda>d :: ('s, 'z) zynqFifo_scheme. drv_frame d = f) (zq_o32 hw idx v)"
  "presS (\<lambda>d :: ('s, 'z) zynqFifo_scheme. drv_frame d = f) (zq_i32 hw idx)"
  "presS (\<lambda>d :: ('s, 'z) zynqFifo_scheme. drv_frame d = f) (zq_wait hw)"
  by (rule presS_dep [where m = "\<lambda>m. map_wr hw m idx v" and h = m_map, OF zq_inv.pres_map(2)], rule zq_o32_def, rule presS_dep [where m = "\<lambda>m. map_rd hw m idx" and h = m_map, OF zq_inv.pres_map(1)], rule zq_i32_def)
    (unfold zq_wait_def, intro presS_if presS_pure zq_inv.pres_irq)

lemma zq_xfer_pres:
  "presS (xst_inv nh nr (\<lambda>d :: ('s, 'z) zynqFifo_scheme. drv_frame d = f)) (zq_xfer_io hw le txb txBytes hsize sz)"
  unfolding zq_xfer_io_def Let_def
  by (intro presS_if presS_bind presS_pure presS_onD presS_tx_words presS_poll zq_pres zq_inv.pres_rx_reply)

interpretation zq_transport: xfer_transport "zq_xfer hw :: ('s, 'z) zynqFifo_scheme xfer_fn" for hw :: "'s mmio"
proof
  fix txb n hb hs rxb sz r hb' rxb' and d d' :: "('s, 'z) zynqFifo_scheme"
  assume "zq_xfer hw txb n hb hs rxb sz d = ((r, hb', rxb'), d')"
  from io_xfer_inv [OF zq_xfer_pres refl this [unfolded zq_xfer_def]]
  show "drv_frame d' = drv_frame d" "length hb' = length hb" "length rxb' = length rxb" by simp_all
qed

section \<open>The FIFO\<close>

text \<open>
  What the driver can know of the hardware: the words of the message it has written so far, the words of the
  reply it has not read yet, the event that announces a reply (after so many readings of the status), the number of
  readings for which each half is still in reset, and the target behind the FIFO.
\<close>

record 't fifo_view =
  zv_tx :: "u32 list"
  zv_rx :: "u32 list"
  zv_lat :: "nat option"
  zv_rxrst :: nat
  zv_txrst :: nat
  zv_tgt :: 't

text \<open>Only time has passed.\<close>

definition fifo_later :: "'t fifo_view \<Rightarrow> 't fifo_view \<Rightarrow> bool" where
  "fifo_later v v' \<longleftrightarrow> zv_tx v' = zv_tx v \<and> zv_rx v' = zv_rx v \<and> zv_tgt v' = zv_tgt v \<and>
     (case zv_lat v of None \<Rightarrow> zv_lat v' = None | Some n \<Rightarrow> \<exists>m\<le>n. zv_lat v' = Some m) \<and>
     zv_rxrst v' \<le> zv_rxrst v \<and> zv_txrst v' \<le> zv_txrst v"

text \<open>No message is on its way.\<close>

definition fifo_idle :: "'t fifo_view \<Rightarrow> bool" where
  "fifo_idle v \<longleftrightarrow> zv_tx v = [] \<and> zv_rx v = [] \<and> zv_lat v = None"

text \<open>The driver \<open>d\<close> later in a transfer, and the driver between two of them.\<close>

definition zq_at :: "('h \<Rightarrow> bool) \<Rightarrow> ('h \<Rightarrow> 't fifo_view) \<Rightarrow> 'h zynqFifo \<Rightarrow> 't fifo_view \<Rightarrow> 'h zynqFifo \<Rightarrow> bool" where
  "zq_at ok view d v d' \<longleftrightarrow> map_has (m_map d) RX_CNT_IDX \<and> \<not> m_drEn d \<and> (\<exists>s. d' = d\<lparr>m_hw := s\<rparr> \<and> ok s \<and> view s = v)"

definition zq_good :: "bool \<Rightarrow> u32 \<Rightarrow> ('h \<Rightarrow> bool) \<Rightarrow> ('h \<Rightarrow> 't fifo_view) \<Rightarrow> 'h zynqFifo \<Rightarrow> bool" where
  "zq_good le siz ok view d \<longleftrightarrow> map_has (m_map d) RX_CNT_IDX \<and> \<not> m_drEn d \<and> isLE (m_host d) = le \<and>
     m_wrdSiz d = unat (drop_bit 24 siz) \<and> m_maxVec d = zq_maxVec siz \<and> ok (m_hw d) \<and> fifo_idle (view (m_hw d))"

definition zq_tgt :: "('h \<Rightarrow> 't fifo_view) \<Rightarrow> 'h zynqFifo \<Rightarrow> 't" where
  "zq_tgt view d = zv_tgt (view (m_hw d))"

text \<open>
  The capacity of the FIFO in bytes, from the value of the size register: the number of its slots in the lower 24 bits,
  of which one is always empty, and the bytes of a slot in the upper 8.
\<close>

definition fifo_room :: "u32 \<Rightarrow> nat" where
  "fifo_room siz = (unat (siz AND 0x00ffffff) - 1) * unat (drop_bit 24 siz)"

text \<open>
  The registers, for a target that answers a message with \<open>answer\<close>.  The words are those of the memory of a
  host with byte order \<open>le\<close>; \<open>siz\<close> is the value of the size register.  A word can be written when there is room for it,
  and a reply arrives complete when it fits.
\<close>

locale axi_fifo =
  fixes hw :: "'h mmio" and ok :: "'h \<Rightarrow> bool" and view :: "'h \<Rightarrow> 't fifo_view"
    and answer :: "u8 list \<Rightarrow> 't \<Rightarrow> u8 list \<times> 't" and le :: bool and siz :: u32
  assumes wr_dat: "ok s \<Longrightarrow> 4 * Suc (length (zv_tx (view s))) \<le> fifo_room siz \<Longrightarrow> s' = mm_wr hw TX_DAT_IDX v s \<Longrightarrow> ok s' \<and> view s' = (view s)\<lparr>zv_tx := zv_tx (view s) @ [v]\<rparr>"
    and wr_end: "ok s \<Longrightarrow> zv_tx (view s) = ws \<Longrightarrow> ws \<noteq> [] \<Longrightarrow> zv_rx (view s) = [] \<Longrightarrow> zv_lat (view s) = None \<Longrightarrow>
      answer (bytes_of_words le ws) (zv_tgt (view s)) = (reply, t') \<Longrightarrow> reply \<noteq> [] \<Longrightarrow> length reply mod 4 = 0 \<Longrightarrow> length reply \<le> fifo_room siz \<Longrightarrow>
      s' = mm_wr hw TX_END_IDX 4 s \<Longrightarrow>
      ok s' \<and> zv_tx (view s') = [] \<and> bytes_of_words le (zv_rx (view s')) = reply \<and> zv_tgt (view s') = t' \<and> zv_lat (view s') \<noteq> None"
    and rd_sta: "ok s \<Longrightarrow> mm_rd hw RX_STA_IDX s = (v, s') \<Longrightarrow> ok s' \<and> fifo_later (view s) (view s') \<and>
      (bit v RX_RDY_SHF \<longleftrightarrow> zv_lat (view s) = Some 0) \<and> (\<forall>n. zv_lat (view s) = Some (Suc n) \<longrightarrow> zv_lat (view s') \<noteq> Some (Suc n))"
    and wr_sta: "ok s \<Longrightarrow> s' = mm_wr hw RX_STA_IDX (push_bit RX_RDY_SHF 1) s \<Longrightarrow> ok s' \<and> view s' = (view s)\<lparr>zv_lat := None\<rparr>"
    and rd_cnt: "ok s \<Longrightarrow> mm_rd hw RX_CNT_IDX s = (v, s') \<Longrightarrow> ok s' \<and> view s' = view s \<and> v = word_of_nat (4 * length (zv_rx (view s)))"
    and rd_dat: "ok s \<Longrightarrow> zv_rx (view s) = u # us \<Longrightarrow> mm_rd hw RX_DAT_IDX s = (v, s') \<Longrightarrow>
      ok s' \<and> view s' = (view s)\<lparr>zv_rx := us\<rparr> \<and> v = u"
    and wr_rst: "ok s \<Longrightarrow> s' = mm_wr hw RX_RST_IDX RST_MAGIC s \<Longrightarrow>
        ok s' \<and> zv_rx (view s') = [] \<and> zv_lat (view s') = None \<and> zv_tgt (view s') = zv_tgt (view s)"
      "ok s \<Longrightarrow> s' = mm_wr hw TX_RST_IDX RST_MAGIC s \<Longrightarrow>
        ok s' \<and> zv_tx (view s') = [] \<and> zv_rx (view s') = zv_rx (view s) \<and> zv_lat (view s') = zv_lat (view s) \<and> zv_tgt (view s') = zv_tgt (view s)"
    and rd_rst: "ok s \<Longrightarrow> mm_rd hw RX_RST_IDX s = (v, s') \<Longrightarrow> ok s' \<and> fifo_later (view s) (view s') \<and>
        (bit v 0 \<longleftrightarrow> zv_rxrst (view s) = 0) \<and> (zv_rxrst (view s) \<noteq> 0 \<longrightarrow> zv_rxrst (view s') < zv_rxrst (view s))"
      "ok s \<Longrightarrow> mm_rd hw TX_RST_IDX s = (v, s') \<Longrightarrow> ok s' \<and> fifo_later (view s) (view s') \<and>
        (bit v 0 \<longleftrightarrow> zv_txrst (view s) = 0) \<and> (zv_txrst (view s) \<noteq> 0 \<longrightarrow> zv_txrst (view s') < zv_txrst (view s))"
    and wr_ack: "ok s \<Longrightarrow> s' = mm_wr hw RX_STA_IDX 1 s \<Longrightarrow> ok s' \<and> fifo_later (view s) (view s')"
      "ok s \<Longrightarrow> s' = mm_wr hw TX_STA_IDX 1 s \<Longrightarrow> ok s' \<and> fifo_later (view s) (view s')"
    and wr_ien: "ok s \<Longrightarrow> s' = mm_wr hw RX_IEN_IDX v s \<Longrightarrow> ok s' \<and> fifo_later (view s) (view s')"
      "ok s \<Longrightarrow> s' = mm_wr hw TX_IEN_IDX v s \<Longrightarrow> ok s' \<and> fifo_later (view s) (view s')"
    and rd_siz: "ok s \<Longrightarrow> mm_rd hw TX_SIZ_IDX s = (v, s') \<Longrightarrow> ok s' \<and> fifo_later (view s) (view s') \<and> v = siz"
    and irq: "ok s \<Longrightarrow> irq_write hw s = (n, s') \<Longrightarrow> ok s' \<and> fifo_later (view s) (view s') \<and> n = 4"
      "ok s \<Longrightarrow> irq_read hw s = ((n, e), s') \<Longrightarrow> ok s' \<and> fifo_later (view s) (view s') \<and> n = 4"
begin

lemma fifo_later_refl [simp]: "fifo_later v v"
  by (simp add: fifo_later_def split: option.split)

lemma fifo_later_trans [trans]: "fifo_later u v \<Longrightarrow> fifo_later v w \<Longrightarrow> fifo_later u w"
  by (auto simp: fifo_later_def split: option.splits dest: order_trans)

text \<open>The state of the hardware after an operation that only lets time pass.\<close>

abbreviation passes :: "'h \<Rightarrow> 'h \<Rightarrow> bool" where
  "passes s s' \<equiv> ok s' \<and> fifo_later (view s) (view s')"

lemma zq_wait_ok:
  fixes d :: "('h, 'z) zynqFifo_scheme"
  assumes "ok (m_hw d)"
  shows "\<exists>v s'. zq_wait hw d = (Inr v, d\<lparr>m_hw := s'\<rparr>) \<and> passes (m_hw d) s'"
proof (cases "m_useIrq d")
  case True
  obtain n s1 where w: "irq_write hw (m_hw d) = (n, s1)" by fastforce
  obtain k e s2 where r: "irq_read hw s1 = ((k, e), s2)" by (metis prod.collapse)
  note l = irq(1) [OF assms w] irq(2) [OF _ r]
  then have "zq_wait hw d = (Inr e, d\<lparr>m_hw := s2\<rparr>)" using True w r by (simp add: zq_wait_def irq_wait_def bindS_def)
  then show ?thesis using l by (blast intro: fifo_later_trans)
next
  case False
  then show ?thesis using assms by (intro exI [of _ 0] exI [of _ "m_hw d"]) (simp add: zq_wait_def)
qed

lemma zq_mapped:
  "map_has m RX_CNT_IDX \<Longrightarrow> i \<in> set [TX_STA_IDX, TX_IEN_IDX, TX_RST_IDX, TX_DAT_IDX, TX_END_IDX, TX_SIZ_IDX, RX_STA_IDX, RX_IEN_IDX, RX_RST_IDX, RX_DAT_IDX] \<Longrightarrow>
    map_has m i"
  by (auto simp: zynq_regs intro: map_has_mono)

text \<open>One half of a round of the reset loop: it is done, or has fewer readings to wait for.\<close>

lemma zq_side:
  fixes d :: "('h, 'z) zynqFifo_scheme"
  assumes "map_has (m_map d) rst" and "map_has (m_map d) sta" and "ok (m_hw d)"
    and "\<And>s v s'. ok s \<Longrightarrow> mm_rd hw rst s = (v, s') \<Longrightarrow> passes s s' \<and> (bit v 0 \<longleftrightarrow> cnt (view s) = (0 :: nat)) \<and>
      (cnt (view s) \<noteq> 0 \<longrightarrow> cnt (view s') < cnt (view s))"
    and "\<And>s. ok s \<Longrightarrow> passes s (mm_wr hw sta 1 s)"
  shows "\<exists>b s'. zq_reset_side hw rst sta fin d = (Inr b, d\<lparr>m_hw := s'\<rparr>) \<and> passes (m_hw d) s' \<and> (fin \<longrightarrow> b) \<and>
    (\<not> b \<longrightarrow> cnt (view s') < cnt (view (m_hw d)))"
proof (cases fin)
  case True
  then show ?thesis using assms(3) by (intro exI [of _ True] exI [of _ "m_hw d"]) (simp add: zq_reset_side_def)
next
  case False
  obtain v s1 where r: "mm_rd hw rst (m_hw d) = (v, s1)" by fastforce
  note l = assms(4) [OF assms(3) r] assms(5) [of s1]
  have i: "zq_i32 hw rst d = (Inr v, d\<lparr>m_hw := s1\<rparr>)" using assms(1) r by (simp add: zq_i32_def)
  have o: "zq_o32 hw sta 1 (d\<lparr>m_hw := s1\<rparr>) = (Inr (), d\<lparr>m_hw := mm_wr hw sta 1 s1\<rparr>)" using assms(2) by (simp add: zq_o32_def)
  have b: "v AND 1 = 0 \<longleftrightarrow> \<not> bit v 0" by (simp add: and_one_eq odd_iff_mod_2_eq_one bit_0)
  show ?thesis
  proof (cases "bit v 0")
    case True
    then have "zq_reset_side hw rst sta fin d = (Inr True, d\<lparr>m_hw := mm_wr hw sta 1 s1\<rparr>)"
      using i o False b by (simp add: zq_reset_side_def bindS_def)
    then show ?thesis using l by (blast intro: fifo_later_trans)
  next
    case nb: False
    then have "zq_reset_side hw rst sta fin d = (Inr False, d\<lparr>m_hw := s1\<rparr>)" using i False b by (simp add: zq_reset_side_def bindS_def)
    then show ?thesis using l nb False by blast
  qed
qed

lemma zq_sides:
  fixes d :: "('h, 'z) zynqFifo_scheme"
  assumes "map_has (m_map d) RX_CNT_IDX" and "ok (m_hw d)"
  shows "\<exists>b s'. zq_reset_side hw RX_RST_IDX RX_STA_IDX fin d = (Inr b, d\<lparr>m_hw := s'\<rparr>) \<and> passes (m_hw d) s' \<and> (fin \<longrightarrow> b) \<and>
      (\<not> b \<longrightarrow> zv_rxrst (view s') < zv_rxrst (view (m_hw d)))"
    and "\<exists>b s'. zq_reset_side hw TX_RST_IDX TX_STA_IDX fin d = (Inr b, d\<lparr>m_hw := s'\<rparr>) \<and> passes (m_hw d) s' \<and> (fin \<longrightarrow> b) \<and>
      (\<not> b \<longrightarrow> zv_txrst (view s') < zv_txrst (view (m_hw d)))"
  by (rule zq_side [OF zq_mapped [OF assms(1)] zq_mapped [OF assms(1)] assms(2)], simp, simp, blast dest: rd_rst(1), blast dest: wr_ack(1) [OF _ refl])
    (rule zq_side [OF zq_mapped [OF assms(1)] zq_mapped [OF assms(1)] assms(2)], simp, simp, blast dest: rd_rst(2), blast dest: wr_ack(2) [OF _ refl])

lemma zq_reset_loop_ok:
  fixes d :: "('h, 'z) zynqFifo_scheme"
  assumes "map_has (m_map d) RX_CNT_IDX" and "ok (m_hw d)"
  shows "\<exists>s'. zq_reset_loop hw rx tx d = Some (Inr (), d\<lparr>m_hw := s'\<rparr>) \<and> passes (m_hw d) s'"
  using assms
proof (induction "(if rx then 0 else Suc (zv_rxrst (view (m_hw d)))) + (if tx then 0 else Suc (zv_txrst (view (m_hw d))))"
    arbitrary: rx tx d rule: less_induct)
  case less
  obtain rx' s1 where x: "zq_reset_side hw RX_RST_IDX RX_STA_IDX rx d = (Inr rx', d\<lparr>m_hw := s1\<rparr>)" "passes (m_hw d) s1" "rx \<longrightarrow> rx'"
    "\<not> rx' \<longrightarrow> zv_rxrst (view s1) < zv_rxrst (view (m_hw d))"
    using zq_sides(1) [OF less.prems, of rx] by auto
  obtain tx' s2 where t: "zq_reset_side hw TX_RST_IDX TX_STA_IDX tx (d\<lparr>m_hw := s1\<rparr>) = (Inr tx', d\<lparr>m_hw := s2\<rparr>)" "passes s1 s2" "tx \<longrightarrow> tx'"
    "\<not> tx' \<longrightarrow> zv_txrst (view s2) < zv_txrst (view s1)"
    using zq_sides(2) [of "d\<lparr>m_hw := s1\<rparr>" tx] less.prems(1) x(2) by auto
  have p2: "passes (m_hw d) s2" using x(2) t(2) by (blast intro: fifo_later_trans)
  show ?case
  proof (cases "rx' \<and> tx'")
    case True
    then show ?thesis using x(1) t(1) p2
      by (intro exI [of _ s2]) (simp add: zq_reset_loop.simps [of hw rx tx d] bindS_def)
  next
    case False
    obtain v s3 where w: "zq_wait hw (d\<lparr>m_hw := s2\<rparr>) = (Inr v, d\<lparr>m_hw := s3\<rparr>)" "passes s2 s3"
      using zq_wait_ok [of "d\<lparr>m_hw := s2\<rparr>"] p2 by auto
    have l: "zv_rxrst (view s3) \<le> zv_rxrst (view s1)" "zv_txrst (view s3) \<le> zv_txrst (view s2)" "zv_txrst (view s1) \<le> zv_txrst (view (m_hw d))"
      "zv_rxrst (view s1) \<le> zv_rxrst (view (m_hw d))" "zv_txrst (view s2) \<le> zv_txrst (view s1)"
      using x(2) t(2) w(2) by (auto simp: fifo_later_def)
    let ?d = "d\<lparr>m_hw := s3\<rparr>"
    have "(if rx' then 0 else Suc (zv_rxrst (view (m_hw ?d)))) + (if tx' then 0 else Suc (zv_txrst (view (m_hw ?d)))) <
        (if rx then 0 else Suc (zv_rxrst (view (m_hw d)))) + (if tx then 0 else Suc (zv_txrst (view (m_hw d))))"
      using False x(3,4) t(3,4) l by (cases rx; cases tx; cases rx'; cases tx') simp_all
    from less.hyps [OF this] obtain s4 where "zq_reset_loop hw rx' tx' ?d = Some (Inr (), d\<lparr>m_hw := s4\<rparr>)" "passes s3 s4"
      using less.prems(1) w(2) by auto
    moreover have "zq_reset_loop hw rx tx d = zq_reset_loop hw rx' tx' ?d"
      using x(1) t(1) w(1) False by (subst zq_reset_loop.simps) (auto simp: bindS_def)
    ultimately show ?thesis using p2 w(2) by (intro exI [of _ s4]) (auto intro: fifo_later_trans)
  qed
qed

text \<open>The reset ends, whatever was going on before, and leaves the FIFO empty.\<close>

lemma zq_reset_ok:
  fixes d :: "('h, 'z) zynqFifo_scheme"
  assumes "map_has (m_map d) RX_CNT_IDX" and "ok (m_hw d)"
  shows "\<exists>s'. zq_reset hw d = (Inr (), d\<lparr>m_hw := s'\<rparr>) \<and> ok s' \<and> fifo_idle (view s') \<and> zv_tgt (view s') = zv_tgt (view (m_hw d))"
proof -
  note mp = zq_mapped [OF assms(1)]
  define s1 where "s1 = mm_wr hw RX_RST_IDX RST_MAGIC (m_hw d)"
  define s2 where "s2 = mm_wr hw TX_RST_IDX RST_MAGIC s1"
  have s2: "ok s2" "fifo_idle (view s2)" "zv_tgt (view s2) = zv_tgt (view (m_hw d))"
    using wr_rst(1) [OF assms(2) s1_def] wr_rst(2) [OF _ s2_def] by (auto simp: fifo_idle_def)
  define s3 where "s3 = (if m_useIrq d then mm_wr hw TX_IEN_IDX (push_bit TX_RST_SHF 1)
    (mm_wr hw RX_IEN_IDX (push_bit RX_RST_SHF 1 OR push_bit RX_RDY_SHF 1) s2) else s2)"
  have s3: "passes s2 s3"
    using s2(1) wr_ien(1) [OF _ refl, of s2] wr_ien(2) [OF _ refl] unfolding s3_def by (auto intro: fifo_later_trans)
  obtain s4 where l: "zq_reset_loop hw False False (d\<lparr>m_hw := s3\<rparr>) = Some (Inr (), d\<lparr>m_hw := s4\<rparr>)" "passes s3 s4"
    using zq_reset_loop_ok [of "d\<lparr>m_hw := s3\<rparr>" False False] assms(1) s3 by auto
  have "zq_reset hw d = (Inr (), d\<lparr>m_hw := s4\<rparr>)"
    using mp l(1) by (simp add: zq_reset_def bindS_def zq_o32_def runS_def s1_def s2_def s3_def split: if_splits)
  moreover have "fifo_later (view s2) (view s4)" using s3 l(2) by (blast intro: fifo_later_trans)
  ultimately show ?thesis using s2 l(2) by (intro exI [of _ s4]) (auto simp: fifo_idle_def fifo_later_def)
qed

lemma rdy_bit: "v AND push_bit RX_RDY_SHF 1 = 0 \<longleftrightarrow> \<not> bit v RX_RDY_SHF" for v :: u32
  by (simp only: push_bit_eq_mult mult_1 and_exp_eq_0_iff_not_bit)

lemma zq_poll:
  fixes d :: "('h, 'z) zynqFifo_scheme"
  assumes "map_has (m_map d) RX_CNT_IDX" and "ok (m_hw d)" and "zv_lat (view (m_hw d)) \<noteq> None"
  shows "\<exists>v s'. poll (zq_i32 hw RX_STA_IDX) (\<lambda>v. v AND push_bit RX_RDY_SHF 1 = 0) (bindS (zq_wait hw) (\<lambda>_. retS ())) d =
    (Inr v, d\<lparr>m_hw := s'\<rparr>) \<and> passes (m_hw d) s'"
proof -
  let ?I = "\<lambda>d'. \<exists>s. d' = d\<lparr>m_hw := s\<rparr> \<and> passes (m_hw d) s"
  have mp: "map_has (m_map d) RX_STA_IDX" using zq_mapped [OF assms(1)] by simp
  have "\<exists>v d'. poll (zq_i32 hw RX_STA_IDX) (\<lambda>v. v AND push_bit RX_RDY_SHF 1 = 0) (bindS (zq_wait hw) (\<lambda>_. retS ())) d = (Inr v, d') \<and> ?I d'"
  proof (rule poll_ends [where I = ?I and \<mu> = "\<lambda>d'. the (zv_lat (view (m_hw d')))"])
    show "?I d" using assms(2) by (intro exI [of _ "m_hw d"]) simp
  next
    fix d' assume "?I d'"
    then obtain s where s: "d' = d\<lparr>m_hw := s\<rparr>" "passes (m_hw d) s" by blast
    obtain v s1 where r: "mm_rd hw RX_STA_IDX s = (v, s1)" by fastforce
    note l = rd_sta [OF conjunct1 [OF s(2)] r]
    have s1: "passes (m_hw d) s1" using l s(2) by (blast intro: fifo_later_trans)
    obtain u s2 where w: "zq_wait hw (d\<lparr>m_hw := s1\<rparr>) = (Inr u, d\<lparr>m_hw := s2\<rparr>)" "passes s1 s2"
      using zq_wait_ok [of "d\<lparr>m_hw := s1\<rparr>"] l by auto
    have s2: "passes (m_hw d) s2" using s1 w(2) by (blast intro: fifo_later_trans)
    obtain n where n: "zv_lat (view s) = Some n" using s(2) assms(3) by (auto simp: fifo_later_def)
    obtain m where m: "zv_lat (view s1) = Some m" "m \<le> n" using l n by (auto simp: fifo_later_def)
    obtain k where k: "zv_lat (view s2) = Some k" "k \<le> m" using w(2) m(1) by (auto simp: fifo_later_def)
    have dec: "k < n" if "\<not> bit v RX_RDY_SHF" using that l n m k by (cases n) auto
    have e: "zq_i32 hw RX_STA_IDX d' = (Inr v, d\<lparr>m_hw := s1\<rparr>)" using s(1) r mp by (simp add: zq_i32_def)
    have i1: "?I (d\<lparr>m_hw := s1\<rparr>)" using s1 by (intro exI [of _ s1]) simp
    have i2: "?I (d\<lparr>m_hw := s2\<rparr>)" using s2 by (intro exI [of _ s2]) simp
    have b: "bindS (zq_wait hw) (\<lambda>_. retS ()) (d\<lparr>m_hw := s1\<rparr>) = (Inr (), d\<lparr>m_hw := s2\<rparr>)" using w(1) by (simp add: bindS_def)
    have lt: "the (zv_lat (view (m_hw (d\<lparr>m_hw := s2\<rparr>)))) < the (zv_lat (view (m_hw d')))" if "\<not> bit v RX_RDY_SHF"
      using dec [OF that] k(1) n s(1) by simp
    show "\<exists>v d1. zq_i32 hw RX_STA_IDX d' = (Inr v, d1) \<and>
        (if v AND push_bit RX_RDY_SHF 1 = 0
         then \<exists>u d2. bindS (zq_wait hw) (\<lambda>_. retS ()) d1 = (Inr u, d2) \<and> ?I d2 \<and> the (zv_lat (view (m_hw d2))) < the (zv_lat (view (m_hw d')))
         else ?I d1)"
      by (rule exI [of _ v], rule exI [of _ "d\<lparr>m_hw := s1\<rparr>"], unfold rdy_bit, intro conjI e)
        (use i1 i2 b lt in \<open>cases "bit v RX_RDY_SHF"; simp only: if_True if_False not_False_eq_True simp_thms; blast\<close>)
  qed
  then show ?thesis by blast
qed

sublocale zq_sink: word_sink "zq_o32 hw TX_DAT_IDX" "\<lambda>us. zq_at ok view d (v\<lparr>zv_tx := us\<rparr>)" "fifo_room siz div 4"
  for v and d :: "'h zynqFifo"
proof
  fix us d' u assume "zq_at ok view d (v\<lparr>zv_tx := us\<rparr>) d'" and cap: "length us < fifo_room siz div 4"
  then obtain s where s: "map_has (m_map d) RX_CNT_IDX" "\<not> m_drEn d" "d' = d\<lparr>m_hw := s\<rparr>" "ok s" "view s = v\<lparr>zv_tx := us\<rparr>"
    by (auto simp: zq_at_def)
  have "zq_o32 hw TX_DAT_IDX u d' = (Inr (), d\<lparr>m_hw := mm_wr hw TX_DAT_IDX u s\<rparr>)"
    using s(3) zq_mapped [OF s(1)] by (simp add: zq_o32_def)
  moreover have "zq_at ok view d (v\<lparr>zv_tx := us @ [u]\<rparr>) (d\<lparr>m_hw := mm_wr hw TX_DAT_IDX u s\<rparr>)"
    unfolding zq_at_def using s cap wr_dat [OF s(4) _ refl, of u] by (intro conjI exI [of _ "mm_wr hw TX_DAT_IDX u s"]) simp_all
  ultimately show "\<exists>d''. zq_o32 hw TX_DAT_IDX u d' = (Inr (), d'') \<and> zq_at ok view d (v\<lparr>zv_tx := us @ [u]\<rparr>) d''" by blast
qed

sublocale zq_source: word_source "zq_i32 hw RX_DAT_IDX" "\<lambda>us. zq_at ok view d (v\<lparr>zv_rx := us\<rparr>)"
  for v and d :: "'h zynqFifo"
proof
  fix u us d' assume "zq_at ok view d (v\<lparr>zv_rx := u # us\<rparr>) d'"
  then obtain s where s: "map_has (m_map d) RX_CNT_IDX" "\<not> m_drEn d" "d' = d\<lparr>m_hw := s\<rparr>" "ok s" "view s = v\<lparr>zv_rx := u # us\<rparr>"
    by (auto simp: zq_at_def)
  obtain x s' where r: "mm_rd hw RX_DAT_IDX s = (x, s')" by fastforce
  have l: "ok s'" "view s' = v\<lparr>zv_rx := us\<rparr>" "x = u" using rd_dat [OF s(4) _ r, of u us] s(5) by simp_all
  have "zq_i32 hw RX_DAT_IDX d' = (Inr u, d\<lparr>m_hw := s'\<rparr>)" using s(3) zq_mapped [OF s(1)] r l(3) by (simp add: zq_i32_def)
  moreover have "zq_at ok view d (v\<lparr>zv_rx := us\<rparr>) (d\<lparr>m_hw := s'\<rparr>)" unfolding zq_at_def using s l by (intro conjI exI [of _ s']) simp_all
  ultimately show "\<exists>d''. zq_i32 hw RX_DAT_IDX d' = (Inr u, d'') \<and> zq_at ok view d (v\<lparr>zv_rx := us\<rparr>) d''" by blast
qed (auto simp: zq_at_def)

lemma zq_words:
  assumes "0 < n" and "n mod 4 = 0" and "n < 2 ^ 32"
  shows "unat ((word_of_nat n + 3) div 4 :: u32) = n div 4" and "word_of_nat n - 4 * ((word_of_nat n + 3) div 4 - 1) = (4 :: u32)"
proof -
  obtain k where k: "n = 4 * k" using assms(2) by (auto simp: mod_eq_0_iff_dvd)
  then have lt: "n + 3 < 2 ^ 32" using assms(3) by simp
  have "word_of_nat n + 3 = (word_of_nat (n + 3) :: u32)" by simp
  then have "unat ((word_of_nat n + 3) div 4 :: u32) = (n + 3) div 4" using unat_u32_of_nat [OF lt] by (simp add: unat_div)
  also have "\<dots> = k" using k by simp
  finally have u: "unat ((word_of_nat n + 3) div 4 :: u32) = k" .
  then show "unat ((word_of_nat n + 3) div 4 :: u32) = n div 4" using k by simp
  have "k < 2 ^ 32" using k assms(3) by simp
  then have "(word_of_nat n + 3) div 4 = (word_of_nat k :: u32)" using u unat_u32_of_nat [of k] by (intro word_unat_eq_iff [THEN iffD2]) simp
  then show "word_of_nat n - 4 * ((word_of_nat n + 3) div 4 - 1) = (4 :: u32)" using k by (simp add: algebra_simps)
qed

text \<open>A transfer: the message goes out word by word, the driver waits for the reply and takes all of it.\<close>

lemma zq_link:
  fixes d :: "'h zynqFifo"
  assumes "zq_good le siz ok view d" and "n \<le> length tx" and "0 < n" and "n mod 4 = 0" and "n < 2 ^ 32"
    and "answer (take n tx) (zq_tgt view d) = (reply, t')" and "length reply mod 4 = 0" and "length reply \<le> 2 ^ 17 + 64"
    and "0 < hs" and "hs mod 4 = 0" and "hs \<le> length reply" and "hs \<le> length hb" and "sz \<le> length rx" and "mn = min sz (length reply - hs)"
    and "n \<le> fifo_room siz" and "length reply \<le> fifo_room siz"
  shows "\<exists>d'. zq_xfer hw tx n hb hs rx sz d = ((Inr (int mn), take hs reply @ drop hs hb, take mn (drop hs reply) @ drop mn rx), d') \<and>
    zq_good le siz ok view d' \<and> zq_tgt view d' = t' \<and> drv_frame d' = drv_frame d"
proof -
  define v0 where "v0 = view (m_hw d)"
  have g: "map_has (m_map d) RX_CNT_IDX" "\<not> m_drEn d" "isLE (m_host d) = le" "ok (m_hw d)" "zv_tx v0 = []" "zv_rx v0 = []" "zv_lat v0 = None"
    using assms(1) by (simp_all add: zq_good_def fifo_idle_def v0_def)
  note mp = zq_mapped [OF g(1)]
  define ws where "ws = words_of_bytes le tx 0 (n div 4)"
  have n4: "4 * (n div 4) = n" using assms(4) by (simp add: mod_eq_0_iff_dvd)
  then have ws: "bytes_of_words le ws = take n tx" using words_bytes_inverse [of 0 "n div 4" tx le] assms(2) by (simp add: ws_def)
  then have ne: "ws \<noteq> []" using assms(2,3) by auto
  have "v0\<lparr>zv_tx := []\<rparr> = v0" using g(5) by (cases v0) simp
  then have "zq_at ok view d (v0\<lparr>zv_tx := []\<rparr>) d" using g v0_def by (simp add: zq_at_def) (rule exI [of _ "m_hw d"], simp)
  from zq_sink.tx_words_ok [OF this, of 0 "n div 4" tx le] obtain d1
    where t: "tx_words (zq_o32 hw TX_DAT_IDX) le tx (n div 4) 0 d = (Inr (), d1)" "zq_at ok view d (v0\<lparr>zv_tx := ws\<rparr>) d1"
    using assms(2) div_le_mono [OF assms(15), of 4] n4 by (auto simp: ws_def)
  then obtain s1 where s1: "d1 = d\<lparr>m_hw := s1\<rparr>" "ok s1" "view s1 = v0\<lparr>zv_tx := ws\<rparr>" by (auto simp: zq_at_def)
  define s2 where "s2 = mm_wr hw TX_END_IDX 4 s1"
  have rne: "reply \<noteq> []" using assms(9,11) by auto
  have s2: "ok s2" "zv_tx (view s2) = []" "bytes_of_words le (zv_rx (view s2)) = reply" "zv_tgt (view s2) = t'" "zv_lat (view s2) \<noteq> None"
    using wr_end [OF s1(2) _ ne _ _ _ rne assms(7,16) s2_def, of t'] s1(3) g ws assms(6) by (simp_all add: zq_tgt_def v0_def)
  obtain u s3 where p: "poll (zq_i32 hw RX_STA_IDX) (\<lambda>v. v AND push_bit RX_RDY_SHF 1 = 0) (bindS (zq_wait hw) (\<lambda>_. retS ())) (d\<lparr>m_hw := s2\<rparr>) =
      (Inr u, d\<lparr>m_hw := s3\<rparr>)" "passes s2 s3"
    using zq_poll [of "d\<lparr>m_hw := s2\<rparr>"] g(1) s2 by auto
  define s4 where "s4 = mm_wr hw RX_STA_IDX (push_bit RX_RDY_SHF 1) s3"
  have s4: "ok s4" "view s4 = (view s3)\<lparr>zv_lat := None\<rparr>" using wr_sta [OF _ s4_def] p(2) by simp_all
  obtain got s5 where r: "mm_rd hw RX_CNT_IDX s4 = (got, s5)" by fastforce
  define us where "us = zv_rx (view s2)"
  have v4: "zv_tx (view s4) = []" "zv_rx (view s4) = us" "zv_tgt (view s4) = t'" "zv_lat (view s4) = None"
    using p(2) s2 s4(2) by (simp_all add: fifo_later_def us_def)
  have len: "length reply = 4 * length us" using s2(3) by (simp flip: us_def) (metis length_bytes_of_words)
  have s5: "ok s5" "view s5 = view s4" "got = word_of_nat (length reply)" using rd_cnt [OF s4(1) r] v4(2) len by simp_all
  have got: "unat got = length reply" using assms(8) s5(3) by (simp add: unat_u32_of_nat)
  have "(view s4)\<lparr>zv_rx := us\<rparr> = view s4" using v4(2) by (cases "view s4") simp
  then have "zq_at ok view d ((view s4)\<lparr>zv_rx := us\<rparr>) (d\<lparr>m_hw := s5\<rparr>)" using g s5 by (simp add: zq_at_def) (rule exI [of _ s5], simp)
  note at5 = this
  have "mn < 2 ^ 31" using assms(8,14) by simp
  from zq_source.rx_reply_ok [OF at5 s2(3) [folded us_def, symmetric] assms(9-14) this] obtain d6
    where x: "rx_reply (zq_i32 hw RX_DAT_IDX) le hs (length reply) sz (hb, rx, d\<lparr>m_hw := s5\<rparr>) =
      (Inr (int mn), (take hs reply @ drop hs hb, take mn (drop hs reply) @ drop mn rx, d6))" "zq_at ok view d ((view s4)\<lparr>zv_rx := []\<rparr>) d6"
    by blast
  then obtain s6 where s6: "d6 = d\<lparr>m_hw := s6\<rparr>" "ok s6" "view s6 = (view s4)\<lparr>zv_rx := []\<rparr>" by (auto simp: zq_at_def)
  have e: "zq_o32 hw TX_END_IDX 4 d1 = (Inr (), d\<lparr>m_hw := s2\<rparr>)" "zq_o32 hw RX_STA_IDX (push_bit RX_RDY_SHF 1) (d\<lparr>m_hw := s3\<rparr>) = (Inr (), d\<lparr>m_hw := s4\<rparr>)"
    "zq_i32 hw RX_CNT_IDX (d\<lparr>m_hw := s4\<rparr>) = (Inr got, d\<lparr>m_hw := s5\<rparr>)"
    using mp g(1) r s1(1) by (simp_all add: zq_o32_def zq_i32_def s2_def s4_def)
  have "zq_xfer hw tx n hb hs rx sz d = ((Inr (int mn), take hs reply @ drop hs hb, take mn (drop hs reply) @ drop mn rx), d6)"
    using zq_words [OF assms(3-5)] assms(10) t(1) p(1) e x(1) got g(3)
    by (simp add: zq_xfer_def io_xfer_def zq_xfer_io_def Let_def bindS_def onD_def)
  moreover have "zq_good le siz ok view d6" "zq_tgt view d6 = t'" "drv_frame d6 = drv_frame d"
    using assms(1) s6 v4 by (simp_all add: zq_good_def fifo_idle_def zq_tgt_def drv_frame_def)
  ultimately show ?thesis by blast
qed

sublocale zq_message: message_transport "zq_xfer hw" "zq_good le siz ok view" "zq_tgt view" answer "fifo_room siz"
proof
  fix d' d :: "'h zynqFifo" assume a: "axisToJtag.more d' = axisToJtag.more d" "m_host d' = m_host d" "m_drEn d' = m_drEn d"
  from a(1) have "m_hw d' = m_hw d" "m_map d' = m_map d" "m_wrdSiz d' = m_wrdSiz d" "m_maxVec d' = m_maxVec d" by (cases d, cases d', simp)+
  with a(2,3) show "zq_good le siz ok view d' = zq_good le siz ok view d \<and> zq_tgt view d' = zq_tgt view d"
    by (simp add: zq_good_def zq_tgt_def)
qed (rule zq_link)

lemma zq_link_message: "message_transport (zq_xfer hw) (zq_good le siz ok view) (zq_tgt view) answer (fifo_room siz)"
  by unfold_locales

lemma zq_new_ok:
  assumes "memMap_new env devnam 1 = Inr mp" and "map_has mp RX_CNT_IDX" and "zq_options args True = Inr irq"
    and "isLE host = le" and "ok s0"
  shows "\<exists>d0. zynqFifo_new host xid0 env hw s0 args devnam = Inr d0 \<and> drv_wf d0 \<and> m_wordSize d0 = 4 \<and> \<not> getSniff d0 \<and>
    m_bufSz d0 = 2048 \<and> zq_good le siz ok view d0 \<and> zq_tgt view d0 = zv_tgt (view s0)"
proof -
  define b where "b = axisToJtag_new host xid0 0"
  define d1 :: "'h zynqFifo" where "d1 = regDrv.extend (axisToJtag.extend b (regDrv.fields s0)) (zynqFifo.fields mp 0 0 irq)"
  note ext = d1_def b_def axisToJtag_new_def jtagDriver_new_def zynqFifo.defs regDrv.defs axisToJtag.defs jtagDriver.defs
  have d1: "m_map d1 = mp" "m_hw d1 = s0" "m_wordSize d1 = 4" "\<not> m_drEn d1" "m_bufSz d1 = 2048" "m_host d1 = host" "\<not> getSniff d1"
    "drv_wf d1" using drv_wf_new [of host xid0 0] by (simp_all add: ext getSniff_def drv_wf_def)
  obtain s1 where s1: "zq_reset hw d1 = (Inr (), d1\<lparr>m_hw := s1\<rparr>)" "ok s1" "fifo_idle (view s1)" "zv_tgt (view s1) = zv_tgt (view s0)"
    using zq_reset_ok [of d1] d1 assms(2,5) by auto
  obtain v s2 where r: "mm_rd hw TX_SIZ_IDX s1 = (v, s2)" by fastforce
  have s2: "ok s2" "v = siz" "fifo_idle (view s2)" "zv_tgt (view s2) = zv_tgt (view s0)"
    using rd_siz [OF s1(2) r] s1(3,4) by (simp_all add: fifo_later_def fifo_idle_def)
  define d0 where "d0 = d1\<lparr>m_hw := s2, m_wrdSiz := unat (drop_bit 24 siz), m_maxVec := zq_maxVec siz\<rparr>"
  have "zq_i32 hw TX_SIZ_IDX (d1\<lparr>m_hw := s1\<rparr>) = (Inr siz, d1\<lparr>m_hw := s2\<rparr>)"
    using r d1(1) zq_mapped [OF assms(2)] s2(2) by (simp add: zq_i32_def)
  then have "zynqFifo_new host xid0 env hw s0 args devnam = Inr d0"
    using assms(1,3) s1(1) by (simp add: zynqFifo_new_def Let_def d1_def [unfolded b_def, symmetric] bindS_def d0_def)
  moreover have "drv_wf d0" "m_wordSize d0 = 4" "\<not> getSniff d0" "m_bufSz d0 = 2048" "zq_good le siz ok view d0"
    "zq_tgt view d0 = zv_tgt (view s0)"
    using d1 s2 assms(2,4) by (simp_all add: d0_def zq_good_def zq_tgt_def getSniff_def drv_wf_def)
  ultimately show ?thesis by blast
qed

end

section \<open>Interpretations\<close>

text \<open>
  For concrete runs: a FIFO with the given target that is in reset for \<open>n\<close> readings and has its reply after \<open>n\<close> more.
  What does not fit into it is lost.
\<close>

definition emul_fifo :: "(u8 list \<Rightarrow> 't \<Rightarrow> u8 list \<times> 't) \<Rightarrow> bool \<Rightarrow> u32 \<Rightarrow> nat \<Rightarrow> 't fifo_view mmio" where
  "emul_fifo answer le siz n = \<lparr>irq_write = \<lambda>s. (4, s), irq_read = \<lambda>s. ((4, 1), s), clock_gettime = \<lambda>s. ((0, 0), s), nanosleep = \<lambda>_ s. s,
     mm_rd = \<lambda>i s.
       if i = RX_STA_IDX then (if zv_lat s = Some 0 then push_bit RX_RDY_SHF 1 else 0, s\<lparr>zv_lat := map_option (\<lambda>k. k - 1) (zv_lat s)\<rparr>)
       else if i = RX_CNT_IDX then (word_of_nat (4 * length (zv_rx s)), s)
       else if i = RX_DAT_IDX then (case zv_rx s of [] \<Rightarrow> (0, s) | w # ws \<Rightarrow> (w, s\<lparr>zv_rx := ws\<rparr>))
       else if i = RX_RST_IDX then (if zv_rxrst s = 0 then 1 else 0, s\<lparr>zv_rxrst := zv_rxrst s - 1\<rparr>)
       else if i = TX_RST_IDX then (if zv_txrst s = 0 then 1 else 0, s\<lparr>zv_txrst := zv_txrst s - 1\<rparr>)
       else if i = TX_SIZ_IDX then (siz, s) else (0, s),
     mm_wr = \<lambda>i v s.
       if i = TX_DAT_IDX then (if 4 * Suc (length (zv_tx s)) \<le> fifo_room siz then s\<lparr>zv_tx := zv_tx s @ [v]\<rparr> else s)
       else if i = TX_END_IDX then
         (case answer (bytes_of_words le (zv_tx s)) (zv_tgt s) of
            (reply, t) \<Rightarrow> s\<lparr>zv_tx := [], zv_rx := words_of_bytes le reply 0 (min (length reply) (fifo_room siz) div 4), zv_lat := Some n, zv_tgt := t\<rparr>)
       else if i = RX_STA_IDX \<and> bit v RX_RDY_SHF then s\<lparr>zv_lat := None\<rparr>
       else if i = RX_RST_IDX then s\<lparr>zv_rx := [], zv_lat := None, zv_rxrst := n\<rparr>
       else if i = TX_RST_IDX then s\<lparr>zv_tx := [], zv_txrst := n\<rparr> else s\<rparr>"

interpretation ef: axi_fifo "emul_fifo answer le siz n" "\<lambda>_. True" "\<lambda>s. s" answer le siz
  for answer :: "u8 list \<Rightarrow> 't \<Rightarrow> u8 list \<times> 't" and le siz n
proof
  fix s :: "'t fifo_view" and ws reply t' s'
  assume a: "zv_tx s = ws" "answer (bytes_of_words le ws) (zv_tgt s) = (reply, t')" "length reply mod 4 = 0" "length reply \<le> fifo_room siz" "s' = mm_wr (emul_fifo answer le siz n) TX_END_IDX 4 s"
  have "4 * (length reply div 4) = length reply" using a(3) by (simp add: mod_eq_0_iff_dvd)
  then have "bytes_of_words le (words_of_bytes le reply 0 (length reply div 4)) = reply" using words_bytes_inverse [of 0 "length reply div 4" reply le] by simp
  then show "True \<and> zv_tx s' = [] \<and> bytes_of_words le (zv_rx s') = reply \<and> zv_tgt s' = t' \<and> zv_lat s' \<noteq> None"
    using a by (simp add: emul_fifo_def zynq_regs min_absorb1)
qed (auto simp: emul_fifo_def zynq_regs fifo_later_def bit_simps split: option.splits if_splits)

text \<open>With the target of \<open>Stream_Target\<close> a FIFO of 1024 words is a link.\<close>

interpretation el: stream_link "zq_xfer (emul_fifo (emul_target step) le 0x04000400 n)" "zq_good le 0x04000400 (\<lambda>_. True) (\<lambda>s. s)" "zq_tgt (\<lambda>s. s)"
  "emul_target step" "fifo_room 0x04000400" step 4 emul_header "memDepth emul_header * 4" zq_getMaxVectorSize
  for step :: "bool \<times> bool \<Rightarrow> 't \<Rightarrow> bool \<times> 't" and le n
  by (intro stream_link.intro stream_link_axioms.intro ef.zq_link_message tgt.stream_target_axioms)
    (simp add: fifo_room_def emul_header_fields msg_size_def)

subsection \<open>The vectors that the driver announces\<close>

lemma zq_maxVec_nat:
  assumes "n = unat (siz AND 0x00ffffff)" and "w = unat (drop_bit 24 siz)" and "2 \<le> n"
  shows "unat (zq_maxVec siz) = (n - 2) * w div 2"
proof -
  have "siz AND 0x00ffffff = take_bit 24 siz" by (simp add: take_bit_eq_mask mask_eq_exp_minus_1)
  then have n: "n < 2 ^ 24" using assms(1) by (simp only: unsigned_take_bit_eq take_bit_nat_less_exp)
  have "unat siz < 2 ^ 8 * 2 ^ 24" using unsigned_less [of siz] by simp
  then have "drop_bit 24 (unat siz) < 2 ^ 8" by (simp only: drop_bit_eq_div less_mult_imp_div_less)
  then have w: "w < 2 ^ 8" using assms(2) by (simp only: unat_drop_bit_eq)
  have "(n - 2) * w \<le> 2 ^ 24 * 2 ^ 8" using n w by (intro mult_le_mono) simp_all
  then have small: "(n - 2) * w < 2 ^ 64" by simp
  have "1 \<le> siz AND 0x00ffffff" using assms(1,3) by (simp add: word_le_nat_alt)
  then have "unat ((siz AND 0x00ffffff) - 1) = n - 1" using assms(1) by (simp add: unat_sub)
  then have u: "unat (ucast ((siz AND 0x00ffffff) - 1) :: u64) = n - 1" using n by (simp add: unsigned_ucast_eq take_bit_nat_eq_self)
  then have "1 \<le> (ucast ((siz AND 0x00ffffff) - 1) :: u64)" using assms(3) by (simp add: word_le_nat_alt)
  then have k: "unat ((ucast ((siz AND 0x00ffffff) - 1) :: u64) - 1) = n - 2" using u by (simp add: unat_sub)
  have v: "unat (ucast (drop_bit 24 siz) :: u64) = w" using w assms(2) by (simp add: unsigned_ucast_eq take_bit_nat_eq_self)
  have "unat (((ucast ((siz AND 0x00ffffff) - 1) :: u64) - 1) * ucast (drop_bit 24 siz)) = (n - 2) * w"
    using k v small by (simp add: unat_word_ariths)
  then show ?thesis by (simp add: zq_maxVec_def Let_def unat_div)
qed

text \<open>
  With an even number of slots the message for vectors of the announced size is exactly what the FIFO holds; with an odd
  number it is one slot more.
\<close>

lemma zq_maxVec_room:
  assumes "n = unat (siz AND 0x00ffffff)" and "w = unat (drop_bit 24 siz)" and "2 \<le> w"
  shows "even n \<Longrightarrow> 4 \<le> n \<Longrightarrow> msg_size w (unat (zq_maxVec siz)) = fifo_room siz \<and> 0 < unat (zq_maxVec siz)"
    and "odd n \<Longrightarrow> 3 \<le> n \<Longrightarrow> msg_size w (unat (zq_maxVec siz)) = fifo_room siz + w"
proof -
  assume e: "even n" "4 \<le> n"
  then obtain k where k: "n = 2 * k" "2 \<le> k" by (auto elim: evenE)
  have "n - 2 = 2 * (k - 1)" using k by simp
  then have "(n - 2) * w div 2 = (k - 1) * w" by (simp add: mult.assoc)
  moreover have "((k - 1) * w + w - 1) div w = k - 1" using assms(3) by (intro div_nat_eqI) (simp_all add: algebra_simps)
  moreover have "w + 2 * ((k - 1) * w) = (n - 1) * w" using k by (cases k) (simp_all add: algebra_simps)
  ultimately show "msg_size w (unat (zq_maxVec siz)) = fifo_room siz \<and> 0 < unat (zq_maxVec siz)"
    using zq_maxVec_nat [OF assms(1,2)] e k assms by (simp add: msg_size_def fifo_room_def)
next
  assume o: "odd n" "3 \<le> n"
  then obtain k where k: "n = 2 * k + 1" "1 \<le> k" by (auto elim: oddE)
  define v where "v = (n - 2) * w div 2"
  have n2: "n - 2 = 2 * (k - 1) + 1" using k by simp
  have "v = (2 * ((k - 1) * w) + w) div 2" unfolding v_def n2 by (simp add: algebra_simps)
  then have "v = (k - 1) * w + w div 2" by simp
  moreover have "k * w = (k - 1) * w + w" using k(2) by (cases k) simp_all
  moreover have "0 < w div 2" "w div 2 < w" using assms(3) by simp_all
  ultimately have "w * k \<le> v + w - 1" "v + w - 1 < w * Suc k" by (simp_all only: mult.commute [of w] mult_Suc)
  then have "(v + w - 1) div w = k" by (rule div_nat_eqI)
  then have "msg_size w v = w + 2 * (k * w)" by (simp add: msg_size_def)
  moreover have "fifo_room siz = 2 * (k * w)" unfolding fifo_room_def assms(1) [symmetric] assms(2) [symmetric] using k(1) by simp
  moreover have "unat (zq_maxVec siz) = v" unfolding v_def by (rule zq_maxVec_nat [OF assms(1,2)]) (use o in simp)
  ultimately show "msg_size w (unat (zq_maxVec siz)) = fifo_room siz + w" by simp
qed

end
