(* ===== verification/Srv_Zynq.thy ===== *)
theory Srv_Zynq
  imports Srv_Stream Drv_Zynq
begin

text \<open>
  The server with the AXI stream FIFO driver: from the construction of the driver to the replies that a client
  gets, over any FIFO with a target that speaks the stream protocol.
\<close>

section \<open>The driver as the server sees it\<close>

definition zynq_ops :: "'s mmio \<Rightarrow> 's zynqFifo jtag_ops" where
  "zynq_ops hw = axisToJtag_ops (zq_xfer hw) zq_getMaxVectorSize"

section \<open>Lemmas\<close>

lemma zynq_reliable:
  assumes "axi_fifo hw ok view answer le siz" and "stream_target answer step w hq vlim" and "msg_size w vlim \<le> fifo_room siz"
  shows "reliable_driver (zq_xfer hw) (zq_good le siz ok view) (zq_tgt view) step w hq vlim"
  using axi_fifo.zq_link_message [OF assms(1)] assms(2,3) by (intro stream_link.link_reliable stream_link.intro stream_link_axioms.intro)

text \<open>The driver is ready after its construction and \<^verbatim>\<open>init\<close>.\<close>

lemma zynq_ready:
  assumes fifo: "axi_fifo hw ok view answer le siz" and tgt: "stream_target answer step w hq vlim"
    and new: "memMap_new env devnam 1 = Inr mp" "map_has mp RX_CNT_IDX" "zq_options args True = Inr irq" "isLE host = le" "ok s0"
    and sz: "w = unat (drop_bit 24 siz)" "msg_size w vlim \<le> max 2048 ((2 * memDepth hq + 1) * w)" "msg_size w vlim \<le> fifo_room siz"
  shows "\<exists>d0 d. zynqFifo_new host xid0 env hw s0 args devnam = Inr d0 \<and> zq_init hw d0 = (Inr (), d) \<and>
    base_valid w vlim (cvtPerNs hq) d \<and> zq_good le siz ok view d \<and> zq_tgt view d = zv_tgt (view s0)"
proof -
  obtain d0 where d0: "zynqFifo_new host xid0 env hw s0 args devnam = Inr d0" "drv_wf d0" "m_wordSize d0 = 4" "\<not> getSniff d0"
    "m_bufSz d0 = 2048" "zq_good le siz ok view d0" "zq_tgt view d0 = zv_tgt (view s0)"
    using axi_fifo.zq_new_ok [OF fifo new, of xid0] by (elim exE conjE)
  obtain s1 where s1: "zq_reset hw d0 = (Inr (), d0\<lparr>m_hw := s1\<rparr>)" "ok s1" "fifo_idle (view s1)" "zv_tgt (view s1) = zv_tgt (view (m_hw d0))"
    using axi_fifo.zq_reset_ok [OF fifo, of d0] d0(6) by (auto simp: zq_good_def)
  let ?d1 = "d0\<lparr>m_hw := s1\<rparr>"
  have d1: "drv_wf ?d1" "m_wordSize ?d1 = 4" "\<not> getSniff ?d1" "msg_size w vlim \<le> max (m_bufSz ?d1) ((2 * memDepth hq + 1) * w)"
    "zq_good le siz ok view ?d1"
    using d0 s1(2,3) sz(2) by (simp_all add: drv_wf_def getSniff_def zq_good_def)
  from reliable_driver.rel_init [OF zynq_reliable [OF fifo tgt sz(3)] d1]
  obtain d where d: "init_drv (zq_xfer hw) ?d1 = (Inr (), d)" "base_valid w vlim (cvtPerNs hq) d" "zq_good le siz ok view d"
    "zq_tgt view d = zq_tgt view ?d1" by blast
  then have "zq_init hw d0 = (Inr (), d)"
    using s1(1) sz(1) by (simp add: zq_init_def bindS_def getWordSize_def base_valid_def zq_good_def)
  then show ?thesis using d0(1,7) d s1(4) by (auto simp: zq_tgt_def)
qed

text \<open>
  The vectors that reach the driver fit into the FIFO, when it has an even number of slots, and into the transmit buffer,
  when the target reports its memory.
\<close>

lemma sup_len_le: "0 < k \<Longrightarrow> sup_len n mx k \<le> k" "0 < n \<Longrightarrow> sup_len n mx k \<le> n"
  by (simp_all add: sup_len_def Let_def)

lemma zynq_vector_room:
  assumes "w = unat (drop_bit 24 siz)" and "4 \<le> w" and "even (unat (siz AND 0x00ffffff))" and "4 \<le> unat (siz AND 0x00ffffff)"
    and "v \<le> sup_len n mx (unat (zq_maxVec siz))"
  shows "msg_size w v \<le> fifo_room siz"
proof -
  note r = zq_maxVec_room(1) [OF refl assms(1) _ assms(3,4)]
  have "0 < w" "2 \<le> w" using assms(2) by simp_all
  moreover have "v \<le> unat (zq_maxVec siz)" using assms(5) sup_len_le(1) r \<open>2 \<le> w\<close> by (meson le_trans)
  ultimately show ?thesis using msg_size_mono [of w v "unat (zq_maxVec siz)"] r by simp
qed

lemma zynq_vector_buffer:
  assumes "4 \<le> w" and "v \<le> sup_len (memDepth hq * w) mx k" and "memDepth hq = 0 \<longrightarrow> msg_size w v \<le> 2048"
  shows "msg_size w v \<le> max 2048 ((2 * memDepth hq + 1) * w)"
proof (cases "memDepth hq = 0")
  case False
  then have "v \<le> memDepth hq * w" using assms(1,2) sup_len_le(2) [of "memDepth hq * w" mx k] by simp
  then have "msg_size w v \<le> msg_size w (memDepth hq * w)" using assms(1) by (intro msg_size_mono) simp_all
  also have "(memDepth hq * w + w - 1) div w = memDepth hq" using assms(1) by (intro div_nat_eqI) (simp_all add: algebra_simps)
  then have "msg_size w (memDepth hq * w) = (2 * memDepth hq + 1) * w" by (simp add: msg_size_def algebra_simps)
  finally show ?thesis by simp
qed (use assms(3) in simp)

text \<open>The mapping of the driver is asked for one byte, and is never more than one page.\<close>

lemma map_size_one:
  fixes off :: u64
  assumes "k \<le> 62"
  shows "unat ((take_bit k off + 1 + 2 ^ k - 1) div 2 ^ k * 2 ^ k) = 2 ^ k"
proof -
  have k62: "(2 :: nat) ^ k \<le> 2 ^ 62" using assms by (rule power_increasing) simp
  have t: "unat (take_bit k off) < 2 ^ k" by (simp add: unsigned_take_bit_eq)
  have p: "unat (2 ^ k :: u64) = 2 ^ k" using unat_pow64 [of k] assms by simp
  have "unat (take_bit k off + 2 ^ k) = unat (take_bit k off) + 2 ^ k" using t k62 p by (subst unat_add_small) simp_all
  then have "unat ((take_bit k off + 2 ^ k) div 2 ^ k) = unat (1 :: u64)" using t p by (simp add: unat_div div_add_self2)
  then have "(take_bit k off + 2 ^ k) div 2 ^ k = 1" by (simp only: word_unat_eq_iff)
  then show ?thesis using p by (simp add: add.commute add.left_commute)
qed

lemma zynq_map:
  assumes "memMap_new env devnam 1 = Inr mp" and "map_target devnam = Inr (nm, off)" and "sys_pagesize env = 2 ^ k" and "k \<le> 62"
  shows "map_has mp i \<longleftrightarrow> unat (take_bit k off) + 4 * i + 4 \<le> 2 ^ k"
  using assms(1-3) map_size_one [OF assms(4), of off]
  by (auto simp: memMap_new_def Let_def map_has_def take_bit_eq_mask mask_eq_exp_minus_1 split: if_splits)

section \<open>Concrete runs\<close>

text \<open>A page size of 4096, a FIFO at rest, and a device that delays its input by one bit.\<close>

definition zynq_env :: map_env where
  "zynq_env = \<lparr>sys_open = \<lambda>_. 3, sys_pagesize = 4096, sys_mmap = \<lambda>_ _. True\<rparr>"

definition zynq_rest :: "bool fifo_view" where
  "zynq_rest = \<lparr>zv_tx = [1], zv_rx = [2], zv_lat = None, zv_rxrst = 0, zv_txrst = 0, zv_tgt = False\<rparr>"

definition shift_bit :: "bool \<times> bool \<Rightarrow> bool \<Rightarrow> bool \<times> bool" where
  "shift_bit tms_tdi t = (t, snd tms_tdi)"

lemma zynq_example_map:
  "memMap_new zynq_env ''z'' 1 = Inr \<lparr>mp_siz = 4096, mp_off = 0, mp_pos = 0, mp_fd = 3\<rparr>"
  "map_has \<lparr>mp_siz = 4096, mp_off = 0, mp_pos = 0, mp_fd = 3\<rparr> RX_CNT_IDX"
  by (simp_all add: memMap_new_def map_target_def zynq_env_def map_has_def RX_CNT_IDX_def Let_def)

definition zynq_hw :: "bool fifo_view mmio" where
  "zynq_hw = emul_fifo (emul_target shift_bit) True 0x04000200 2"

lemma zynq_example_new:
  "\<exists>d0. zynqFifo_new le_platform 0 zynq_env zynq_hw zynq_rest [] ''z'' = Inr d0 \<and> zq_good True 0x04000200 (\<lambda>_. True) (\<lambda>s. s) d0"
proof -
  have "zq_options [] True = Inr True" "isLE le_platform = True" by (simp_all add: le_platform_def)
  from ef.zq_new_ok [OF zynq_example_map this TrueI] show ?thesis unfolding zynq_hw_def by blast
qed

section \<open>Properties\<close>

text \<open>
  C11.  The reset of the FIFO driver ends, with interrupts and without, whatever the FIFO was doing, when the
  hardware reports in finitely many readings that each half has been reset; then no message is left in
  the FIFO, and the target has seen nothing of it.
\<close>

theorem zynq_reset_ends:
  assumes "axi_fifo hw ok view answer le siz" and "map_has (m_map d) RX_CNT_IDX" and "ok (m_hw d)"
  shows "\<exists>s'. zq_reset hw d = (Inr (), d\<lparr>m_hw := s'\<rparr>) \<and> ok s' \<and> fifo_idle (view s') \<and> zv_tgt (view s') = zv_tgt (view (m_hw d))"
  by (rule axi_fifo.zq_reset_ok [OF assms])

theorem zynq_reset_ends_witness:
  "\<exists>d s'. zynqFifo_new le_platform 0 zynq_env zynq_hw zynq_rest [] ''z'' = Inr d \<and>
     zq_reset zynq_hw (d\<lparr>m_hw := zynq_rest\<rparr>) = (Inr (), d\<lparr>m_hw := s'\<rparr>) \<and> fifo_idle s'"
proof -
  obtain d where d: "zynqFifo_new le_platform 0 zynq_env zynq_hw zynq_rest [] ''z'' = Inr d" "map_has (m_map d) RX_CNT_IDX"
    using zynq_example_new by (auto simp: zq_good_def)
  have "\<exists>s'. zq_reset zynq_hw (d\<lparr>m_hw := zynq_rest\<rparr>) = (Inr (), d\<lparr>m_hw := zynq_rest, m_hw := s'\<rparr>) \<and> True \<and> fifo_idle s' \<and>
      zv_tgt s' = zv_tgt (m_hw (d\<lparr>m_hw := zynq_rest\<rparr>))"
    unfolding zynq_hw_def by (rule zynq_reset_ends [OF ef.axi_fifo_axioms]) (use d(2) in simp_all)
  then show ?thesis using d(1) by auto
qed

text \<open>
  C5.  The server with the FIFO driver: when the FIFO does what its registers promise, then the constructor and \<^verbatim>\<open>init\<close> succeed
  (so their resets and polls end) and a client gets the replies the protocol asks for, with the TDO bits that the
  device behind the target shifts out and the period the target reports.  The FIFO is finite: it holds one slot less than its
  size register says, and the vectors that the driver announces (\<^verbatim>\<open>maxVec_\<close>) are such that no message exceeds it.

  The conditions: the registers lie in the mapping; the word size of the FIFO is the one of the target; the FIFO has an even number of
  slots, at least four (for an odd number \<^verbatim>\<open>maxVec_\<close> is too large, \<open>zq_maxVec_room\<close>); the target takes the longest vector \<open>v\<close> that
  reaches the driver, the client's shifts having at most \<open>mc\<close> bytes; and when the target reports no memory, the message of
  that vector fits into the 2048 bytes that the transmit buffer then has.
\<close>

theorem zynq_session:
  assumes "axi_fifo hw ok view answer le siz" and "stream_target answer step w hq vlim"
    and "memMap_new env devnam 1 = Inr mp" and "map_has mp RX_CNT_IDX" and "zq_options args True = Inr irq" and "isLE host = le" and "ok s0"
    and "w = unat (drop_bit 24 siz)" and "even (unat (siz AND 0x00ffffff))" and "4 \<le> unat (siz AND 0x00ffffff)"
    and "v = min mc (sup_len (memDepth hq * w) mx (unat (zq_maxVec siz)))" and "v \<le> vlim" and "memDepth hq = 0 \<longrightarrow> msg_size w v \<le> 2048"
    and "clean evs" and "\<forall>i. 0 < wr i" and "ev_bytes evs = concat (map encode_msg ms)" and "list_all (msg_ok mc) ms" and "mc \<le> mx" and "mx < 2 ^ 32"
  shows "\<exists>d0 d1. zynqFifo_new host xid0 env hw s0 args devnam = Inr d0 \<and> zq_init hw d0 = (Inr (), d1) \<and>
    (\<forall>c. xvcConn_new sd evs wr 0 d1 mx = Inr c \<longrightarrow>
      (\<exists>c'. conn_run (zynq_ops hw) c = Some (if eof evs then SysErr ''Unable to read from socket'' else Blocked, c') \<and>
        session step (period_reply (cvtPerNs hq)) mx ms (zv_tgt (view s0)) (c_out c') (zv_tgt (view (m_hw (c_drv c'))))))"
proof -
  let ?sl = "sup_len (memDepth hq * w) mx (unat (zq_maxVec siz))"
  have w: "4 \<le> w" using stream_target.tgt_w(1) [OF assms(2)] .
  note tgt = stream_target_le [OF assms(2,12)]
  have v: "v \<le> ?sl" using assms(11) by simp
  note room = zynq_vector_room [OF assms(8) w assms(9,10) v] and buf = zynq_vector_buffer [OF w v assms(13)]
  obtain d0 d1 where d: "zynqFifo_new host xid0 env hw s0 args devnam = Inr d0" "zq_init hw d0 = (Inr (), d1)"
    "base_valid w v (cvtPerNs hq) d1" "zq_good le siz ok view d1" "zq_tgt view d1 = zv_tgt (view s0)"
    using zynq_ready [OF assms(1) tgt assms(3-8) buf room, of xid0] by (elim exE conjE)
  have fit: "sup_len (memDepth hq * w) mx (zq_getMaxVectorSize d) \<le> ?sl" if "base_valid w v (cvtPerNs hq) d \<and> zq_good le siz ok view d" for d
    using that by (simp add: zq_getMaxVectorSize_def zq_good_def)
  have cut: "min mc ?sl \<le> v" using assms(11) by simp
  note s = reliable_driver.rel_session [where maxVec = zq_getMaxVectorSize, OF zynq_reliable [OF assms(1) tgt room] conjI [OF d(3,4)] fit assms(19) _ assms(14-18) cut,
    folded zynq_ops_def, unfolded d(5)]
  have "\<exists>c'. conn_run (zynq_ops hw) c = Some (if eof evs then SysErr ''Unable to read from socket'' else Blocked, c') \<and>
      session step (period_reply (cvtPerNs hq)) mx ms (zv_tgt (view s0)) (c_out c') (zv_tgt (view (m_hw (c_drv c'))))"
    if "xvcConn_new sd evs wr 0 d1 mx = Inr c" for c
    using s [OF _ that] unfolding zq_tgt_def by blast
  with d(1,2) show ?thesis by blast
qed

theorem zynq_session_witness:
  "\<exists>d0 d1. zynqFifo_new le_platform 0 zynq_env zynq_hw zynq_rest [] ''z'' = Inr d0 \<and> zq_init zynq_hw d0 = (Inr (), d1) \<and>
    (\<exists>c'. conn_run (zynq_ops zynq_hw)
        (case xvcConn_new 5 [Data (ascii ''shift:'' @ [12, 0, 0, 0, 1]), Data [2, 3, 4]] (\<lambda>_. 1) 0 d1 32768 of Inr c \<Rightarrow> c) = Some (Blocked, c') \<and>
      session shift_bit (period_reply UNKNOWN_PERIOD) 32768 [Shift 12 [1, 2] [3, 4]] False (c_out c') (zv_tgt (m_hw (c_drv c'))))"
proof -
  define evs where "evs = [Data (ascii ''shift:'' @ [12, 0, 0, 0, 1]), Data [2, 3, 4]]"
  have o: "zq_options [] True = Inr True" "isLE le_platform = True" by (simp_all add: le_platform_def)
  have h: "4 = unat (drop_bit 24 (0x04000200 :: u32))" "even (unat (0x04000200 AND 0x00ffffff :: u32))" "4 \<le> unat (0x04000200 AND 0x00ffffff :: u32)"
    "1020 = min 32768 (sup_len (memDepth emul_header * 4) 32768 (unat (zq_maxVec 0x04000200)))" "1020 \<le> memDepth emul_header * 4"
    "memDepth emul_header = 0 \<longrightarrow> msg_size 4 1020 \<le> 2048"
    by (simp_all add: emul_header_fields sup_len_def zq_maxVec_def Let_def)
  have e: "clean evs" "\<forall>i :: nat. 0 < (1 :: int)" "ev_bytes evs = concat (map encode_msg [Shift 12 [1, 2] [3, 4]])"
    "list_all (msg_ok 32768) [Shift 12 [1, 2] [3, 4]]" "(32768 :: nat) \<le> 32768" "(32768 :: nat) < 2 ^ 32"
    by (simp_all add: evs_def vec_bytes_def ascii_def le_bytes32_def)
  obtain d0 d1 where d: "zynqFifo_new le_platform 0 zynq_env zynq_hw zynq_rest [] ''z'' = Inr d0" "zq_init zynq_hw d0 = (Inr (), d1)"
    and r: "\<And>c. xvcConn_new 5 evs (\<lambda>_. 1) 0 d1 32768 = Inr c \<Longrightarrow>
      \<exists>c'. conn_run (zynq_ops zynq_hw) c = Some (if eof evs then SysErr ''Unable to read from socket'' else Blocked, c') \<and>
        session shift_bit (period_reply (cvtPerNs emul_header)) 32768 [Shift 12 [1, 2] [3, 4]] (zv_tgt zynq_rest) (c_out c') (zv_tgt (m_hw (c_drv c')))"
    using zynq_session [where sd = 5 and ?s0.0 = zynq_rest and ?xid0.0 = 0, OF ef.axi_fifo_axioms [of "emul_target shift_bit" True "0x04000200" 2, folded zynq_hw_def]
      tgt.stream_target_axioms zynq_example_map o TrueI h e] by blast
  obtain c where c: "xvcConn_new 5 evs (\<lambda>_. 1) 0 d1 32768 = Inr c" by (simp add: xvcConn_new_def)
  show ?thesis using d r [OF c] c by (auto simp: evs_def eof_def zynq_rest_def emul_header_fields)
qed

text \<open>
  C39.  The driver asks \<^verbatim>\<open>MemMap\<close> for a mapping of one byte.  When the offset in the name of the device is less than
  44 bytes from the end of a page, the mapping ends before the reset register, and the constructor, whatever the
  hardware, makes its first access outside of it.
\<close>

theorem zynq_offset_fault:
  assumes "memMap_new env devnam 1 = Inr mp" and "map_target devnam = Inr (nm, off)" and "sys_pagesize env = 2 ^ k" and "k \<le> 62"
    and "2 ^ k < unat (take_bit k off) + 44" and "zq_options args True = Inr irq"
  shows "zynqFifo_new host xid0 env hw s0 args devnam = Inl (Fault ''access outside of the mapping'')"
proof -
  have "\<not> map_has mp RX_RST_IDX" using zynq_map [OF assms(1-4)] assms(5) by (simp add: RX_RST_IDX_def)
  then show ?thesis using assms(1,6)
    by (simp add: zynqFifo_new_def zq_reset_def bindS_def zq_o32_def map_wr_def throwS_def regDrv.defs zynqFifo.defs axisToJtag.defs
        axisToJtag_new_def jtagDriver.defs Let_def)
qed

theorem zynq_offset_fault_witness:
  "zynqFifo_new le_platform 0 zynq_env zynq_hw zynq_rest [] ''z:0x43c00fe0'' = Inl (Fault ''access outside of the mapping'')"
proof -
  have t: "map_target ''z:0x43c00fe0'' = Inr (''z'', 0x43c00fe0)"
    by (simp add: map_target_def strtoul_def is_space_def digit_val_def Let_def)
  then obtain mp where mp: "memMap_new zynq_env ''z:0x43c00fe0'' 1 = Inr mp" by (simp add: memMap_new_def zynq_env_def Let_def)
  show ?thesis by (rule zynq_offset_fault [OF mp t, where k = 12]) (simp_all add: zynq_env_def take_bit_eq_mask mask_eq_exp_minus_1)
qed

end
