(* ===== verification/Lossy_Link.thy ===== *)
theory Lossy_Link
  imports Stream_Target
begin

text \<open>
  A transport that may lose messages and replies, and a target that recognises a message it has seen before by
  its transaction id: with the retries of \<^verbatim>\<open>JtagDriverAxisToJtag\<close> they make a driver like one without losses.
\<close>

section \<open>Specification\<close>

text \<open>
  A target with a memory for the last reply: a shift with the transaction id of the last one is answered from
  the memory.
\<close>

definition memo_target :: "(u8 list \<Rightarrow> 't \<Rightarrow> u8 list \<times> 't) \<Rightarrow> u8 list \<Rightarrow> 't \<times> (u8 \<times> u8 list) option \<Rightarrow> u8 list \<times> 't \<times> (u8 \<times> u8 list) option" where
  "memo_target answer msg s =
     (let h = le_word32 (take 4 msg) in
      case s of (t, m) \<Rightarrow>
        if getVrs h = PVER0 \<and> getCmd h = CMD_S
        then (case m of
                Some (x, reply) \<Rightarrow>
                  if x = getXid h then (reply, (t, m)) else (case answer msg t of (r, t') \<Rightarrow> (r, (t', Some (getXid h, r))))
              | None \<Rightarrow> (case answer msg t of (r, t') \<Rightarrow> (r, (t', Some (getXid h, r)))))
        else (case answer msg t of (r, t') \<Rightarrow> (r, (t', m))))"

definition memo_fresh :: "u8 \<Rightarrow> 't \<times> (u8 \<times> u8 list) option \<Rightarrow> bool" where
  "memo_fresh x s \<longleftrightarrow> (case snd s of None \<Rightarrow> True | Some (y, _) \<Rightarrow> y \<noteq> x)"

section \<open>Contracts\<close>

text \<open>
  The target, in its states \<open>tok\<close>: a shift with a fresh transaction id is executed; the same message again gives the same
  reply and has no effect.  \<open>dv\<close> is the device of the target.
\<close>

locale retry_target =
  fixes answer :: "u8 list \<Rightarrow> 't \<Rightarrow> u8 list \<times> 't" and tok :: "'t \<Rightarrow> bool" and dv :: "'t \<Rightarrow> 's" and fresh :: "u8 \<Rightarrow> 't \<Rightarrow> bool"
    and step :: "bool \<times> bool \<Rightarrow> 's \<Rightarrow> bool \<times> 's" and w :: nat and hq :: u32 and vlim :: nat
  assumes rt_w: "4 \<le> w" "w \<le> 16" "vlim \<le> 2 ^ 17"
    and rt_hq: "getErr hq = 0" "wordSize hq = w" "memDepth hq \<noteq> 0"
    and rt_query: "tok t \<Longrightarrow> u = 4 \<or> u = w \<Longrightarrow> msg = le_bytes32 mkQuery @ replicate (u - 4) 0 \<Longrightarrow>
      \<exists>pad t'. answer msg t = (le_bytes32 hq @ pad, t') \<and> length pad = w - 4 \<and> answer msg t' = (le_bytes32 hq @ pad, t') \<and>
        tok t' \<and> dv t' = dv t \<and> (\<forall>x. x \<noteq> XID_ANY \<longrightarrow> fresh x t \<longrightarrow> fresh x t')"
    and rt_shift: "tok t \<Longrightarrow> length msg = msg_size w n \<Longrightarrow> shift_msg w h n tms tdi msg \<Longrightarrow> n \<le> length tms \<Longrightarrow> n \<le> length tdi \<Longrightarrow>
      getVrs h = PVER0 \<Longrightarrow> getCmd h = CMD_S \<Longrightarrow> getLen h = Inr bits \<Longrightarrow> n = (bits + 7) div 8 \<Longrightarrow> n \<le> vlim \<Longrightarrow> fresh (getXid h) t \<Longrightarrow>
      \<exists>hr pad vec t'. answer msg t = (le_bytes32 hr @ pad @ vec, t') \<and> length pad = w - 4 \<and> n \<le> length vec \<and>
        getErr hr = 0 \<and> getXid hr = getXid h \<and>
        (take bits (bits_of_bytes vec), dv t') = dev_run step (zip (take bits (bits_of_bytes tms)) (take bits (bits_of_bytes tdi))) (dv t) \<and>
        answer msg t' = (le_bytes32 hr @ pad @ vec, t') \<and> tok t' \<and> (\<forall>x. x \<noteq> getXid h \<longrightarrow> fresh x t')"
    and rt_version: "tok t \<Longrightarrow> getVrs h \<noteq> PVER0 \<and> getCmd h \<notin> {CMD_Q, CMD_S} \<Longrightarrow> msg = le_bytes32 h @ replicate (w - 4) 0 \<Longrightarrow>
      \<exists>hr pad t'. answer msg t = (le_bytes32 hr @ pad, t') \<and> answer msg t' = (le_bytes32 hr @ pad, t') \<and> length pad = w - 4 \<and> getErr hr \<noteq> 0"

text \<open>
  The transport: the next \<open>loss d\<close> transfers time out, because the message or the reply is lost; at most five in a
  row.  Messages are limited to \<open>mlim\<close> bytes.
\<close>

locale lossy_transport =
  fixes xf :: "'a axisToJtag_scheme xfer_fn" and good :: "'a axisToJtag_scheme \<Rightarrow> bool" and tgt :: "'a axisToJtag_scheme \<Rightarrow> 't"
    and answer :: "u8 list \<Rightarrow> 't \<Rightarrow> u8 list \<times> 't" and loss :: "'a axisToJtag_scheme \<Rightarrow> nat" and mlim :: nat
  assumes lossy_more: "axisToJtag.more d' = axisToJtag.more d \<Longrightarrow> m_host d' = m_host d \<Longrightarrow> m_drEn d' = m_drEn d \<Longrightarrow>
      good d' = good d \<and> tgt d' = tgt d \<and> loss d' = loss d"
    and loss_bound: "good d \<Longrightarrow> loss d \<le> 5"
    and lossy_law: "good d \<Longrightarrow> n \<le> length tx \<Longrightarrow> 0 < n \<Longrightarrow> n \<le> mlim \<Longrightarrow> answer (take n tx) (tgt d) = (reply, t') \<Longrightarrow>
      0 < hs \<Longrightarrow> hs \<le> length reply \<Longrightarrow> hs \<le> length hb \<Longrightarrow> sz \<le> length rx \<Longrightarrow> mn = min sz (length reply - hs) \<Longrightarrow>
      xf tx n hb hs rx sz d = ((r, hb', rx'), d') \<Longrightarrow>
      good d' \<and> drv_frame d' = drv_frame d \<and>
      (if loss d = 0
       then r = Inr (int mn) \<and> hb' = take hs reply @ drop hs hb \<and> rx' = take mn (drop hs reply) @ drop mn rx \<and> tgt d' = t'
       else r = Inl (TimeoutErr []) \<and> hb' = hb \<and> rx' = rx \<and> (tgt d' = tgt d \<or> tgt d' = t') \<and> loss d' < loss d)"
begin

text \<open>The retries get past the losses.\<close>

lemma lossy_skip:
  assumes "good d" and "m_wordSize d = hs" and "n \<le> length tx" and "0 < n" and "n \<le> mlim"
    and "answer (take n tx) (tgt d) = (reply, t')" and "answer (take n tx) t' = (reply, t')"
    and "0 < hs" and "hs \<le> length reply" and "hs \<le> length (m_hdBuf d)" and "sz \<le> length rx" and "loss d \<le> k"
  shows "\<exists>j d1. xferRel_loop xf (Suc k) xid tx n sz rx d = xferRel_loop xf (Suc j) xid tx n sz rx d1 \<and> good d1 \<and> loss d1 = 0 \<and>
    answer (take n tx) (tgt d1) = (reply, t') \<and> drv_frame d1 = drv_frame d \<and> m_hdBuf d1 = m_hdBuf d"
  using assms
proof (induction k arbitrary: d)
  case 0
  then show ?case by auto
next
  case (Suc k)
  show ?case
  proof (cases "loss d = 0")
    case True
    then show ?thesis using Suc.prems(1,6) by blast
  next
    case False
    obtain r hb rx' d1 where x: "xf tx n (m_hdBuf d) hs rx sz d = ((r, hb, rx'), d1)" by (metis prod.exhaust)
    from lossy_law [OF Suc.prems(1,3,4,5,6,8,9,10,11) refl this] False
    have l: "good d1" "drv_frame d1 = drv_frame d" "r = Inl (TimeoutErr [])" "hb = m_hdBuf d" "rx' = rx" "tgt d1 = tgt d \<or> tgt d1 = t'" "loss d1 < loss d"
      by simp_all
    define d2 where "d2 = d1\<lparr>m_hdBuf := hb\<rparr>"
    have d2: "good d2" "m_wordSize d2 = hs" "loss d2 \<le> k" "answer (take n tx) (tgt d2) = (reply, t')" "drv_frame d2 = drv_frame d" "m_hdBuf d2 = m_hdBuf d"
      using l lossy_more [of d2 d1] Suc.prems(2,6,7,12) drv_frame_eqs [OF l(2)] by (auto simp: d2_def drv_frame_def)
    have "xferRel_loop xf (Suc (Suc k)) xid tx n sz rx d = xferRel_loop xf (Suc k) xid tx n sz rx d2"
      using x l(3,5) Suc.prems(2) by (subst xferRel_loop.simps) (simp add: getWordSize_def d2_def)
    moreover have "hs \<le> length (m_hdBuf d2)" using d2(6) Suc.prems(10) by simp
    ultimately show ?thesis using Suc.IH [OF d2(1,2) Suc.prems(3-5) d2(4) Suc.prems(7-9) _ Suc.prems(11) d2(3)] d2(5,6) by auto
  qed
qed

lemma lossy_xferRel:
  assumes "good d" and "m_wordSize d = hs" and "n \<le> length tx" and "4 \<le> n" and "n \<le> mlim" and "take 4 tx = le_bytes32 h"
    and "answer (take n tx) (tgt d) = (reply, t')" and "answer (take n tx) t' = (reply, t')" and "hr = le_word32 (take 4 reply)"
    and "4 \<le> hs" and "hs \<le> length reply" and "hs \<le> length (m_hdBuf d)" and "sz \<le> length rx" and "mn = min sz (length reply - hs)"
    and "m_retry d = 5" and "getErr hr = 0 \<Longrightarrow> getXid h = XID_ANY \<or> getXid h = getXid hr"
  shows "\<exists>d'. xferRel xf tx n rx sz d =
      ((if getErr hr = 0 then Inr (int mn, hr) else Inl (ProtoErr (err_reply_msg (getErr hr))), take mn (drop hs reply) @ drop mn rx), d') \<and>
    good d' \<and> tgt d' = t' \<and> drv_frame d' = drv_frame d \<and> length (m_hdBuf d') = length (m_hdBuf d)"
proof -
  have pos: "0 < n" "0 < hs" using assms(4,10) by simp_all
  obtain j d1 where j: "xferRel_loop xf (Suc 5) (getXid h) tx n sz rx d = xferRel_loop xf (Suc j) (getXid h) tx n sz rx d1" "good d1" "loss d1 = 0"
    "answer (take n tx) (tgt d1) = (reply, t')" "drv_frame d1 = drv_frame d" "m_hdBuf d1 = m_hdBuf d"
    using lossy_skip [OF assms(1-3) pos(1) assms(5,7,8) pos(2) assms(11-13) loss_bound [OF assms(1)], of "getXid h"] by blast
  obtain r hb rx' d2 where x: "xf tx n (m_hdBuf d1) hs rx sz d1 = ((r, hb, rx'), d2)" by (metis prod.exhaust)
  have "hs \<le> length (m_hdBuf d1)" using assms(12) j(6) by simp
  from lossy_law [OF j(2) assms(3) pos(1) assms(5) j(4) pos(2) assms(11) this assms(13,14) x] j(3)
  have l: "good d2" "drv_frame d2 = drv_frame d1" "r = Inr (int mn)" "hb = take hs reply @ drop hs (m_hdBuf d1)" "rx' = take mn (drop hs reply) @ drop mn rx"
    "tgt d2 = t'" by simp_all
  define d3 where "d3 = d2\<lparr>m_hdBuf := hb\<rparr>"
  have d3: "good d3" "tgt d3 = t'" "drv_frame d3 = drv_frame d" "length (m_hdBuf d3) = length (m_hdBuf d)"
    using l j(5,6) lossy_more [of d3 d2] assms(11,12) by (auto simp: d3_def drv_frame_def)
  have hb: "take 4 hb = take 4 reply" "4 \<le> length hb" using l(4) assms(10,11) by simp_all
  have ws: "m_wordSize d1 = hs" using drv_frame_eqs [OF j(5)] assms(2) by simp
  have "4 \<le> length tx" using assms(3,4) by simp
  then have "xferRel xf tx n rx sz d = xferRel_loop xf (Suc j) (getXid h) tx n sz rx d1"
    using assms(6,15) j(1) by (simp add: xferRel_def getHdr_le)
  also have "\<dots> = ((if getErr hr = 0 then Inr (int mn, hr) else Inl (ProtoErr (err_reply_msg (getErr hr))), rx'), d3)"
    using x ws l(3) hb assms(9,16) by (subst xferRel_loop.simps) (auto simp: getWordSize_def getHdr_le Let_def d3_def)
  finally show ?thesis using d3 l(5) by blast
qed

end

text \<open>Both together, for vectors whose messages the transport can carry.\<close>

locale lossy_link = lossy_transport xf good tgt answer loss mlim + retry_target answer tok dv fresh step w hq vlim
  for xf :: "'a axisToJtag_scheme xfer_fn" and good :: "'a axisToJtag_scheme \<Rightarrow> bool" and tgt :: "'a axisToJtag_scheme \<Rightarrow> 't"
    and answer :: "u8 list \<Rightarrow> 't \<Rightarrow> u8 list \<times> 't" and loss :: "'a axisToJtag_scheme \<Rightarrow> nat" and mlim :: nat
    and tok :: "'t \<Rightarrow> bool" and dv :: "'t \<Rightarrow> 's" and fresh :: "u8 \<Rightarrow> 't \<Rightarrow> bool" and step :: "bool \<times> bool \<Rightarrow> 's \<Rightarrow> bool \<times> 's"
    and w :: nat and hq :: u32 and vlim :: nat +
  fixes maxVec :: "'a axisToJtag_scheme \<Rightarrow> nat"
  assumes link_fits: "msg_size w vlim \<le> mlim"
begin

abbreviation link_good :: "'a axisToJtag_scheme \<Rightarrow> bool" where
  "link_good d \<equiv> good d \<and> m_retry d = 5 \<and> tok (tgt d) \<and> fresh (next_xid (m_xid d)) (tgt d)"

abbreviation link_dev :: "'a axisToJtag_scheme \<Rightarrow> 's" where
  "link_dev d \<equiv> dv (tgt d)"

lemma next_xid_neq: "next_xid x \<noteq> x"
  by (auto simp: next_xid_eq)

lemma lossy_query:
  assumes "link_good d" and "m_wordSize d = u" and "u = 4 \<or> u = w" and "u \<le> length tx"
    and "take u tx = le_bytes32 mkQuery @ replicate (u - 4) 0" and "length (m_hdBuf d) = hdBufMax"
  shows "\<exists>got d'. xferRel xf tx u [] 0 d = ((Inr (got, hq), []), d') \<and> length (m_hdBuf d') = hdBufMax \<and>
    drv_frame d' = drv_frame d \<and> link_good d' \<and> link_dev d' = link_dev d"
proof -
  obtain pad t' where p: "answer (take u tx) (tgt d) = (le_bytes32 hq @ pad, t')" "length pad = w - 4"
    "answer (take u tx) t' = (le_bytes32 hq @ pad, t')" "tok t'" "dv t' = dv (tgt d)" "\<forall>x. x \<noteq> XID_ANY \<longrightarrow> fresh x (tgt d) \<longrightarrow> fresh x t'"
    using rt_query [OF _ assms(3,5)] assms(1) by blast
  have u: "4 \<le> u" "u \<le> w" "w \<le> msg_size w vlim" using assms(3) rt_w by (auto simp: msg_size_def)
  have tx: "take 4 tx = le_bytes32 mkQuery" using arg_cong [OF assms(5), of "take 4"] u(1) by simp
  have any: "getXid mkQuery = XID_ANY" by (simp add: mkQuery_def getXid_def hdr_defs)
  have len: "u \<le> mlim" "u \<le> length (le_bytes32 hq @ pad)" "u \<le> length (m_hdBuf d)" using u link_fits p(2) assms(6) rt_w by (simp_all add: hdBufMax_def)
  have hq: "hq = le_word32 (take 4 (le_bytes32 hq @ pad))" by simp
  obtain d' where "xferRel xf tx u [] 0 d = ((Inr (int 0, hq), []), d')" "good d'" "tgt d' = t'" "drv_frame d' = drv_frame d"
    "length (m_hdBuf d') = length (m_hdBuf d)"
    using lossy_xferRel [OF conjunct1 [OF assms(1)] assms(2,4) u(1) len(1) tx p(1,3) hq u(1) len(2,3), of 0 "[]" 0] assms(1) rt_hq(1) any
    by auto
  then show ?thesis using assms(1,6) p(4-6) drv_frame_eqs [of d' d] by auto
qed

lemma lossy_shift:
  assumes "link_good d" and "m_wordSize d = w" and "length (m_hdBuf d) = hdBufMax" and "shift_msg w h n tms tdi tx"
    and "n \<le> length tms" and "n \<le> length tdi" and "getVrs h = PVER0" and "getCmd h = CMD_S" and "getXid h = next_xid (m_xid d)"
    and "getLen h = Inr bits" and "n = (bits + 7) div 8" and "n \<le> vlim" and "n \<le> length rx"
    and "d1 = d\<lparr>m_xid := next_xid (m_xid d), m_txBuf := tx\<rparr>"
  shows "\<exists>got hr rx' d'. xferRel xf tx (msg_size w n) rx n d1 = ((Inr (got, hr), rx'), d') \<and> length (m_hdBuf d') = hdBufMax \<and>
    drv_frame d' = drv_frame d1 \<and> link_good d' \<and> length rx' = length rx \<and> drop n rx' = drop n rx \<and>
    (take bits (bits_of_bytes rx'), link_dev d') =
      dev_run step (zip (take bits (bits_of_bytes tms)) (take bits (bits_of_bytes tdi))) (link_dev d)"
proof -
  have d1: "good d1" "m_wordSize d1 = w" "m_retry d1 = 5" "tgt d1 = tgt d" "length (m_hdBuf d1) = hdBufMax" "m_xid d1 = getXid h"
    using assms(1-3,9,14) lossy_more [of d1 d] by simp_all
  have w: "0 < w" using rt_w(1) by simp
  have len: "msg_size w n \<le> length tx" using assms(4) by (simp add: shift_msg_def)
  have msg: "length (take (msg_size w n) tx) = msg_size w n" "shift_msg w h n tms tdi (take (msg_size w n) tx)"
    using len shift_msg_take [OF w assms(4)] by simp_all
  obtain hr pad vec t' where r: "answer (take (msg_size w n) tx) (tgt d1) = (le_bytes32 hr @ pad @ vec, t')" "length pad = w - 4"
    "n \<le> length vec" "getErr hr = 0" "getXid hr = getXid h"
    "(take bits (bits_of_bytes vec), dv t') = dev_run step (zip (take bits (bits_of_bytes tms)) (take bits (bits_of_bytes tdi))) (dv (tgt d))"
    "answer (take (msg_size w n) tx) t' = (le_bytes32 hr @ pad @ vec, t')" "tok t'" "\<forall>x. x \<noteq> getXid h \<longrightarrow> fresh x t'"
    using rt_shift [OF _ msg assms(5-8,10-12), of "tgt d"] assms(1,9) d1(4) by auto
  define reply where "reply = le_bytes32 hr @ pad @ vec"
  note vec = r(3)
  have rl: "hr = le_word32 (take 4 reply)" "w \<le> length reply" "drop w reply = vec" "n = min n (length reply - w)"
    using r(2) rt_w(1) vec by (simp_all add: reply_def)
  have sz: "4 \<le> msg_size w n" "msg_size w n \<le> mlim" "w \<le> length (m_hdBuf d1)"
    using rt_w order_trans [OF msg_size_mono [OF w assms(12)] link_fits] d1(5) by (simp_all add: hdBufMax_def) (simp add: msg_size_def)
  have xid: "getXid h = XID_ANY \<or> getXid h = getXid hr" using r(5) by simp
  obtain d' where x: "xferRel xf tx (msg_size w n) rx n d1 = ((if getErr hr = 0 then Inr (int n, hr) else Inl (ProtoErr (err_reply_msg (getErr hr))),
      take n (drop w reply) @ drop n rx), d')" "good d'" "tgt d' = t'" "drv_frame d' = drv_frame d1" "length (m_hdBuf d') = length (m_hdBuf d1)"
    using lossy_xferRel [OF d1(1,2) len sz(1,2) shift_msg_hdr(1) [OF assms(4) rt_w(1)] r(1) [folded reply_def] r(7) [folded reply_def] rl(1) rt_w(1) rl(2)
        sz(3) assms(13) rl(4) d1(3) xid] by blast
  have good: "link_good d'" using x(2-4) d1(3,6) r(8,9) drv_frame_eqs [OF x(4)] next_xid_neq by simp
  have "bits \<le> 8 * n" using assms(11) by simp
  then have "take bits (bits_of_bytes (take n vec @ drop n rx)) = take bits (bits_of_bytes vec)"
    using vec by (intro take_bits_cong [of bits n]) simp_all
  then show ?thesis using x r(4,6) good d1(5) vec assms(13) rl(3)
    by (intro exI [of _ "int n"] exI [of _ hr] exI [of _ "take n vec @ drop n rx"] exI [of _ d']) simp
qed

lemma lossy_version:
  assumes "link_good d" and "m_wordSize d = w" and "length (m_hdBuf d) = hdBufMax" and "w \<le> length tx"
    and "take w tx = le_bytes32 h @ replicate (w - 4) 0" and "getVrs h \<noteq> PVER0 \<and> getCmd h \<notin> {CMD_Q, CMD_S}" and "d1 = d\<lparr>m_xid := next_xid (m_xid d), m_txBuf := tx\<rparr>"
  shows "\<exists>e rx' d'. xferRel xf tx w rx 0 d1 = ((Inl e, rx'), d') \<and> length rx' = length rx \<and> no_fault (Inl e :: unit res)"
proof -
  have d1: "good d1" "m_wordSize d1 = w" "m_retry d1 = 5" "w \<le> length (m_hdBuf d1)"
    using assms(1-3,7) lossy_more [of d1 d] rt_w by (simp_all add: hdBufMax_def)
  have "tok (tgt d1)" using assms(1,7) lossy_more [of d1 d] by simp
  from rt_version [OF this assms(6,5)]
  obtain hr pad t' where r: "answer (take w tx) (tgt d1) = (le_bytes32 hr @ pad, t')" "answer (take w tx) t' = (le_bytes32 hr @ pad, t')"
    "length pad = w - 4" "getErr hr \<noteq> 0" by blast
  have tx: "take 4 tx = le_bytes32 h" using arg_cong [OF assms(5), of "take 4"] rt_w(1) by simp
  have len: "w \<le> mlim" "w \<le> length (le_bytes32 hr @ pad)" using link_fits r(3) rt_w by (simp_all add: msg_size_def)
  have hr: "hr = le_word32 (take 4 (le_bytes32 hr @ pad))" by simp
  obtain d' where "xferRel xf tx w rx 0 d1 = ((Inl (ProtoErr (err_reply_msg (getErr hr))), rx), d')"
    using lossy_xferRel [OF d1(1,2) assms(4) rt_w(1) len(1) tx r(1,2) hr rt_w(1) len(2) d1(4), of 0 rx 0] d1(3) r(4) by auto
  then show ?thesis by auto
qed

sublocale reliable_driver xf maxVec link_good link_dev step w hq vlim
proof
  fix d d' :: "'a axisToJtag_scheme"
  assume a: "axisToJtag.more d' = axisToJtag.more d" "m_host d' = m_host d" "m_drEn d' = m_drEn d" "m_xid d' = m_xid d"
    "m_retry d' = m_retry d \<or> m_retry d' = (if memDepth hq = 0 then 0 else 5)" "link_good d"
  show "link_good d' \<and> link_dev d' = link_dev d" using lossy_more [OF a(1-3)] a(4-6) rt_hq(3) by simp
qed (rule rt_w rt_hq | (rule lossy_query lossy_shift lossy_version, assumption+))+

lemma lossy_reliable: "reliable_driver xf link_good link_dev step w hq vlim"
  by unfold_locales

end

section \<open>Interpretations\<close>

text \<open>A target with a memory for its last reply.\<close>

context stream_target
begin

lemma memo_retry:
  assumes "memDepth hq \<noteq> 0"
  shows "retry_target (memo_target answer) (\<lambda>_. True) fst memo_fresh step w hq vlim"
proof
  fix u msg and t :: "'t \<times> (u8 \<times> u8 list) option" assume a: "u = 4 \<or> u = w" "msg = le_bytes32 mkQuery @ replicate (u - 4) 0"
  then obtain pad where p: "answer msg (fst t) = (le_bytes32 hq @ pad, fst t)" "length pad = w - 4"
    using tgt_query by blast
  have "take 4 msg = le_bytes32 mkQuery" using a(2) by simp
  moreover have "getCmd mkQuery \<noteq> CMD_S" by (simp add: mkQuery_def getCmd_def hdr_defs)
  ultimately have "memo_target answer msg t = (le_bytes32 hq @ pad, t)" using p(1) by (cases t) (simp add: memo_target_def)
  with p(2) show "\<exists>pad t'. memo_target answer msg t = (le_bytes32 hq @ pad, t') \<and> length pad = w - 4 \<and>
      memo_target answer msg t' = (le_bytes32 hq @ pad, t') \<and> True \<and> fst t' = fst t \<and> (\<forall>x. x \<noteq> XID_ANY \<longrightarrow> memo_fresh x t \<longrightarrow> memo_fresh x t')"
    by blast
next
  fix msg tms tdi :: "u8 list" and n h bits and t :: "'t \<times> (u8 \<times> u8 list) option"
  assume a: "length msg = msg_size w n" "shift_msg w h n tms tdi msg" "n \<le> length tms" "n \<le> length tdi" "getVrs h = PVER0" "getCmd h = CMD_S"
    "getLen h = Inr bits" "n = (bits + 7) div 8" "n \<le> vlim" "memo_fresh (getXid h) t"
  obtain hr pad vec s where r: "answer msg (fst t) = (le_bytes32 hr @ pad @ vec, s)" "length pad = w - 4" "length vec = (n + w - 1) div w * w"
    "getErr hr = 0" "getXid hr = getXid h"
    "(take bits (bits_of_bytes vec), s) = dev_run step (zip (take bits (bits_of_bytes tms)) (take bits (bits_of_bytes tdi))) (fst t)"
    using tgt_shift [OF a(1-9)] by blast
  let ?s = "(s, Some (getXid h, le_bytes32 hr @ pad @ vec))"
  have h: "le_word32 (take 4 msg) = h" using shift_msg_hdr(1) [OF a(2) tgt_w(1)] by simp
  then have m: "memo_target answer msg t = (le_bytes32 hr @ pad @ vec, ?s)" "memo_target answer msg ?s = (le_bytes32 hr @ pad @ vec, ?s)"
    using a(5,6,10) r(1) by (cases t; auto simp: memo_target_def memo_fresh_def split: option.splits)+
  have "0 < w" using tgt_w(1) by simp
  then have vec: "n \<le> length vec" unfolding r(3) using div_mult_mod_eq [of "n + w - 1" w] mod_less_divisor [of w "n + w - 1"] by linarith
  show "\<exists>hr pad vec t'. memo_target answer msg t = (le_bytes32 hr @ pad @ vec, t') \<and> length pad = w - 4 \<and> n \<le> length vec \<and>
      getErr hr = 0 \<and> getXid hr = getXid h \<and>
      (take bits (bits_of_bytes vec), fst t') = dev_run step (zip (take bits (bits_of_bytes tms)) (take bits (bits_of_bytes tdi))) (fst t) \<and>
      memo_target answer msg t' = (le_bytes32 hr @ pad @ vec, t') \<and> True \<and> (\<forall>x. x \<noteq> getXid h \<longrightarrow> memo_fresh x t')"
    by (rule exI [of _ hr], rule exI [of _ pad], rule exI [of _ vec], rule exI [of _ ?s]) (use m r(2,4-6) vec in \<open>simp add: memo_fresh_def\<close>)
next
  fix h msg and t :: "'t \<times> (u8 \<times> u8 list) option" assume "getVrs h \<noteq> PVER0 \<and> getCmd h \<notin> {CMD_Q, CMD_S}" and "msg = le_bytes32 h @ replicate (w - 4) 0"
  then have v: "getVrs h \<noteq> PVER0" "msg = le_bytes32 h @ replicate (w - 4) 0" by simp_all
  then obtain hr pad where p: "answer msg (fst t) = (le_bytes32 hr @ pad, fst t)" "length pad = w - 4" "getErr hr \<noteq> 0"
    using tgt_version by blast
  then have "memo_target answer msg t = (le_bytes32 hr @ pad, t)" using v by (cases t) (auto simp: memo_target_def)
  with p show "\<exists>hr pad t'. memo_target answer msg t = (le_bytes32 hr @ pad, t') \<and> memo_target answer msg t' = (le_bytes32 hr @ pad, t') \<and>
      length pad = w - 4 \<and> getErr hr \<noteq> 0" by blast
qed (use tgt_w tgt_hq assms in simp_all)

end

text \<open>What holds of the vectors up to \<open>vlim\<close> bytes holds of shorter ones.\<close>

lemma retry_target_le:
  assumes "retry_target answer tok dv fresh step w hq vlim" and "v \<le> vlim"
  shows "retry_target answer tok dv fresh step w hq v"
  using retry_target.rt_w [OF assms(1)] retry_target.rt_hq [OF assms(1)] assms(2)
  by (intro retry_target.intro retry_target.rt_query [OF assms(1)] retry_target.rt_shift [OF assms(1)]
      retry_target.rt_version [OF assms(1)]) simp_all

interpretation memo: retry_target "memo_target (emul_target step)" "\<lambda>_. True" fst memo_fresh step 4 emul_header "memDepth emul_header * 4"
  for step :: "bool \<times> bool \<Rightarrow> 't \<Rightarrow> bool \<times> 't"
  by (rule tgt.memo_retry) (simp add: emul_header_fields)

end
