(* ===== verification/Drv_Udp.thy ===== *)
theory Drv_Udp
  imports Lossy_Link C_Scan
begin

text \<open>
  The driver for a target behind UDP, class \<^verbatim>\<open>JtagDriverUdp\<close> of \<^verbatim>\<open>xvcDrvUdp.h\<close> and
  \<^verbatim>\<open>xvcDrvUdp.cc\<close>.  The network is a parameter: functions on its state for the system calls of a
  transfer, and the results of the calls that set up the socket.
\<close>

section \<open>JtagDriverUdp\<close>

text \<open>
  \<^verbatim>\<open>write\<close> sends a datagram.  \<^verbatim>\<open>poll\<close> returns a number and tells whether an error bit and whether
  \<^verbatim>\<open>POLLIN\<close> is set.  \<^verbatim>\<open>readv\<close> takes the next datagram or fails.
\<close>

record 'n udp_net =
  net_write :: "u8 list \<Rightarrow> 'n \<Rightarrow> int \<times> 'n"
  net_poll :: "'n \<Rightarrow> (int \<times> bool \<times> bool) \<times> 'n"
  net_readv :: "'n \<Rightarrow> u8 list option \<times> 'n"

record 'n udpDrv = axisToJtag +
  m_sock :: int
  m_timeoutMs :: int
  m_mtu :: u32
  m_net :: 'n

record udp_env =
  ue_sock :: sock_env
  ue_getaddrinfo :: "string \<Rightarrow> string \<Rightarrow> int"
  ue_gai_strerror :: "int \<Rightarrow> string"
  ue_connect :: int
  ue_ip_mtu :: "u32 option"
  ue_set_df :: int

definition DFLT_PORT :: string where "DFLT_PORT = ''2542''"
definition MAXL :: nat where "MAXL = 256"

text \<open>The options: the MTU, whether the user gave it, and whether fragments are allowed.\<close>

primrec udp_options :: "(char \<times> string) list \<Rightarrow> u32 \<times> bool \<times> bool \<Rightarrow> (u32 \<times> bool \<times> bool) res" where
  "udp_options [] o1 = Inr o1"
| "udp_options (a # as) o1 =
     (case o1 of (mtu, userMtu, frag) \<Rightarrow>
        if fst a = CHR ''m'' then
          (case scan_i (snd a) of
             None \<Rightarrow> Inl (RuntimeErr ''Unable to scan option argument'')
           | Some v \<Rightarrow> udp_options as (v, True, frag))
        else if fst a = CHR ''f'' then udp_options as (mtu, userMtu, True)
        else Inl (RuntimeErr ''Unknown driver option''))"

text \<open>
  The address: host and port, and whether the host was copied to the local buffer.  A failure of
  \<^verbatim>\<open>getaddrinfo\<close> prints the host into that buffer; when the host itself is there the behaviour is
  undefined.
\<close>

definition udp_target :: "string \<Rightarrow> (string \<times> string \<times> bool) res" where
  "udp_target target =
     (let l = length (takeWhile (\<lambda>c. c \<noteq> CHR '':'') target)
      in if l < length target then
           if MAXL < l + 1
           then Inl (RuntimeErr (''Internal error - not supporting target string lengths > '' @ dec_string MAXL))
           else Inr (take l target, drop (l + 1) target, True)
         else Inr (target, DFLT_PORT, False))"

definition udp_connect :: "udp_env \<Rightarrow> string \<Rightarrow> unit res" where
  "udp_connect env target =
     bindR (udp_target target) (\<lambda>(host, prtnam, copied).
       let stat = ue_getaddrinfo env host prtnam in
       if stat \<noteq> 0 then
         if copied then Inl (Fault ''snprintf between overlapping objects'')
         else Inl (RuntimeErr (take (MAXL - 1)
                (''getaddrinfo for '' @ [CHR 0x27] @ host @ [CHR 0x27] @ '' failed: '' @ ue_gai_strerror env stat)))
       else if ue_connect env \<noteq> 0 then Inl (SysErr ''Unable to connect UDP socket'')
       else Inr ())"

definition udp_mtu :: "u32 option \<Rightarrow> u32 \<Rightarrow> bool \<Rightarrow> u32" where
  "udp_mtu ipMtu mtu userMtu =
     (case ipMtu of
        None \<Rightarrow> mtu
      | Some m \<Rightarrow> if m < mtu then m else if \<not> userMtu then m else mtu)"

definition udpDrv_new :: "platform \<Rightarrow> u8 \<Rightarrow> udp_env \<Rightarrow> 'n \<Rightarrow> (char \<times> string) list \<Rightarrow> string \<Rightarrow> 'n udpDrv res" where
  "udpDrv_new host xid0 env n0 args target =
     bindR (sockSd_new (ue_sock env)) (\<lambda>sd.
     bindR (udp_options args (1450, False, False)) (\<lambda>(mtu, userMtu, frag).
     bindR (udp_connect env target) (\<lambda>_.
       if \<not> frag \<and> ue_set_df env \<noteq> 0
       then Inl (SysErr ''Unable to set IP_MTU_DISCOVER to IP_PMTUDISC_DO (enforce DF)'')
       else Inr (axisToJtag.extend (axisToJtag_new host xid0 0)
              (udpDrv.fields sd 500 (udp_mtu (ue_ip_mtu env) mtu userMtu) n0)))))"

text \<open>\<^verbatim>\<open>init\<close> adds only a warning to the one of the base class.\<close>

definition udp_getMaxVectorSize :: "('n, 'z) udpDrv_scheme \<Rightarrow> nat" where
  "udp_getMaxVectorSize d = unat ((m_mtu d - word_of_nat (getWordSize d)) div 2)"

text \<open>
  \<^verbatim>\<open>readv\<close> fills the header buffer first and then the receive buffer; what does not fit is lost.
\<close>

definition udp_scatter :: "u8 list \<Rightarrow> u8 list \<Rightarrow> nat \<Rightarrow> u8 list \<Rightarrow> nat \<Rightarrow> (int \<times> u8 list \<times> u8 list) res" where
  "udp_scatter dg hb hsize rx sz =
     bindR (wr_mem hb 0 (take hsize dg)) (\<lambda>hb'.
     bindR (wr_mem rx 0 (take sz (drop hsize dg))) (\<lambda>rx'.
       Inr (int (min (length dg) (hsize + sz)), hb', rx')))"

definition udp_recv :: "'n udp_net \<Rightarrow> u8 list \<Rightarrow> nat \<Rightarrow> u8 list \<Rightarrow> nat \<Rightarrow> ('n, 'z) udpDrv_scheme \<Rightarrow>
    (int res \<times> u8 list \<times> u8 list) \<times> ('n, 'z) udpDrv_scheme" where
  "udp_recv net hb hsize rx sz d =
     (case net_readv net (m_net d) of
        (None, n) \<Rightarrow> ((Inl (SysErr ''JtagDriverUdp -- recvmsg failed''), hb, rx), d\<lparr>m_net := n\<rparr>)
      | (Some dg, n) \<Rightarrow>
          (case udp_scatter dg hb hsize rx sz of
             Inl e \<Rightarrow> ((Inl e, hb, rx), d\<lparr>m_net := n\<rparr>)
           | Inr (got, hb', rx') \<Rightarrow>
               ((if got - int hsize < 0 then Inl (ProtoErr ''JtagDriverUdp -- not enough header data received'')
                 else Inr (got - int hsize), hb', rx'), d\<lparr>m_net := n\<rparr>)))"

definition udp_xfer :: "'n udp_net \<Rightarrow> ('n, 'z) udpDrv_scheme xfer_fn" where
  "udp_xfer net txb txBytes hb hsize rx sz d =
     (case rd_mem txb 0 txBytes of
        Inl e \<Rightarrow> ((Inl e, hb, rx), d)
      | Inr msg \<Rightarrow>
          (case net_write net msg (m_net d) of
             (put, n1) \<Rightarrow>
               if put < 0 then ((Inl (SysErr ''JtagDriverUdp: unable to send''), hb, rx), d\<lparr>m_net := n1\<rparr>)
               else (case net_poll net n1 of
                       ((got, err, pollin), n2) \<Rightarrow>
                         let d2 = d\<lparr>m_net := n2\<rparr> in
                         if got < 0 then ((Inl (SysErr ''JtagDriverUdp: poll failed''), hb, rx), d2)
                         else if got = 0 then ((Inl (TimeoutErr []), hb, rx), d2)
                         else if err
                         then ((Inl (RuntimeErr ''JtagDriverUdp -- internal error; poll has POLLERR or POLLNVAL set''), hb, rx), d2)
                         else if \<not> pollin then ((Inl (RuntimeErr ''JtagDriverUdp -- poll with no data?''), hb, rx), d2)
                         else udp_recv net hb hsize rx sz d2)))"

definition udp_init :: "'n udp_net \<Rightarrow> (('n, 'z) udpDrv_scheme, unit) sm" where
  "udp_init net = init_drv (udp_xfer net)"

section \<open>The network\<close>

text \<open>
  What the driver can know of the network: the datagrams that wait for it, how many exchanges will fail
  because a message or its reply gets lost, and the target at the other end.
\<close>

record 't net_view =
  nv_in :: "u8 list list"
  nv_loss :: nat
  nv_tgt :: 't

text \<open>
  A network that carries datagrams of up to \<open>plim\<close> bytes to a target that answers with \<open>answer\<close>, and loses not more than five
  exchanges in a row.  A reply arrives before the timeout or never.
\<close>

locale udp_network =
  fixes net :: "'n udp_net" and ok :: "'n \<Rightarrow> bool" and view :: "'n \<Rightarrow> 't net_view"
    and answer :: "u8 list \<Rightarrow> 't \<Rightarrow> u8 list \<times> 't" and plim :: nat
  assumes net_loss: "ok n \<Longrightarrow> nv_loss (view n) \<le> 5"
    and net_send: "ok n \<Longrightarrow> nv_in (view n) = [] \<Longrightarrow> msg \<noteq> [] \<Longrightarrow> length msg \<le> plim \<Longrightarrow> answer msg (nv_tgt (view n)) = (reply, t') \<Longrightarrow>
      net_write net msg n = (put, n') \<Longrightarrow>
      ok n' \<and> 0 \<le> put \<and>
      (if nv_loss (view n) = 0 then nv_in (view n') = [reply] \<and> nv_tgt (view n') = t'
       else nv_in (view n') = [] \<and> nv_tgt (view n') \<in> {nv_tgt (view n), t'} \<and> nv_loss (view n') < nv_loss (view n))"
    and net_wait: "ok n \<Longrightarrow> net_poll net n = ((got, err, pollin), n') \<Longrightarrow>
      ok n' \<and> view n' = view n \<and> (if nv_in (view n) = [] then got = 0 else 0 < got \<and> \<not> err \<and> pollin)"
    and net_take: "ok n \<Longrightarrow> nv_in (view n) = dg # dgs \<Longrightarrow> net_readv net n = (r, n') \<Longrightarrow>
      ok n' \<and> r = Some dg \<and> view n' = (view n)\<lparr>nv_in := dgs\<rparr>"

definition udp_good :: "u32 \<Rightarrow> ('n \<Rightarrow> bool) \<Rightarrow> ('n \<Rightarrow> 't net_view) \<Rightarrow> 'n udpDrv \<Rightarrow> bool" where
  "udp_good mtu ok view d \<longleftrightarrow> m_mtu d = mtu \<and> ok (m_net d) \<and> nv_in (view (m_net d)) = []"

definition udp_tgt :: "('n \<Rightarrow> 't net_view) \<Rightarrow> 'n udpDrv \<Rightarrow> 't" where
  "udp_tgt view d = nv_tgt (view (m_net d))"

definition udp_loss :: "('n \<Rightarrow> 't net_view) \<Rightarrow> 'n udpDrv \<Rightarrow> nat" where
  "udp_loss view d = nv_loss (view (m_net d))"

context udp_network
begin

lemma udp_recv_ok:
  fixes d :: "'n udpDrv"
  assumes "ok (m_net d)" and "nv_in (view (m_net d)) = dg # dgs" and "hs \<le> length dg" and "hs \<le> length hb" and "sz \<le> length rx"
    and "mn = min sz (length dg - hs)"
  shows "\<exists>n'. udp_recv net hb hs rx sz d =
      ((Inr (int mn), take hs dg @ drop hs hb, take mn (drop hs dg) @ drop mn rx), d\<lparr>m_net := n'\<rparr>) \<and>
    ok n' \<and> view n' = (view (m_net d))\<lparr>nv_in := dgs\<rparr>"
proof -
  obtain r n' where r: "net_readv net (m_net d) = (r, n')" by fastforce
  note l = net_take [OF assms(1,2) r]
  have "take sz (drop hs dg) = take mn (drop hs dg)" using assms(6) by (simp add: min_def)
  moreover have "int (min (length dg) (hs + sz)) - int hs = int mn" using assms(3,6) by simp
  moreover have "length (take mn (drop hs dg)) = mn" "mn \<le> length rx" using assms(5,6) by simp_all
  ultimately have "udp_recv net hb hs rx sz d = ((Inr (int mn), take hs dg @ drop hs hb, take mn (drop hs dg) @ drop mn rx), d\<lparr>m_net := n'\<rparr>)"
    using r l assms(3,4) by (simp add: udp_recv_def udp_scatter_def wr_mem_ok)
  then show ?thesis using l by blast
qed

text \<open>A transfer: without a loss it takes the reply, with one it times out.\<close>

lemma udp_link:
  fixes d :: "'n udpDrv"
  assumes "udp_good mtu ok view d" and "n \<le> length tx" and "0 < n" and "n \<le> plim" and "answer (take n tx) (udp_tgt view d) = (reply, t')"
    and "0 < hs" and "hs \<le> length reply" and "hs \<le> length hb" and "sz \<le> length rx" and "mn = min sz (length reply - hs)"
    and "udp_xfer net tx n hb hs rx sz d = ((r, hb', rx'), d')"
  shows "udp_good mtu ok view d' \<and> drv_frame d' = drv_frame d \<and>
    (if udp_loss view d = 0
     then r = Inr (int mn) \<and> hb' = take hs reply @ drop hs hb \<and> rx' = take mn (drop hs reply) @ drop mn rx \<and> udp_tgt view d' = t'
     else r = Inl (TimeoutErr []) \<and> hb' = hb \<and> rx' = rx \<and> (udp_tgt view d' = udp_tgt view d \<or> udp_tgt view d' = t') \<and>
       udp_loss view d' < udp_loss view d)"
proof -
  have g: "m_mtu d = mtu" "ok (m_net d)" "nv_in (view (m_net d)) = []" using assms(1) by (simp_all add: udp_good_def)
  obtain put n1 where w: "net_write net (take n tx) (m_net d) = (put, n1)" by fastforce
  have msg: "take n tx \<noteq> []" "length (take n tx) \<le> plim" using assms(2-4) by auto
  note l1 = net_send [OF g(2,3) msg assms(5) [unfolded udp_tgt_def] w]
  obtain got err pollin n2 where p: "net_poll net n1 = ((got, err, pollin), n2)" by (metis prod.exhaust)
  note l2 = net_wait [OF conjunct1 [OF l1] p]
  show ?thesis
  proof (cases "udp_loss view d = 0")
    case True
    then have v2: "nv_in (view n2) = [reply]" "nv_tgt (view n2) = t'" using l1 l2 by (simp_all add: udp_loss_def)
    have x: "udp_xfer net tx n hb hs rx sz d = udp_recv net hb hs rx sz (d\<lparr>m_net := n2\<rparr>)"
      using assms(2) w p l1 l2 v2 True by (simp add: udp_xfer_def rd_mem_ok udp_loss_def Let_def)
    obtain n3 where "udp_recv net hb hs rx sz (d\<lparr>m_net := n2\<rparr>) =
        ((Inr (int mn), take hs reply @ drop hs hb, take mn (drop hs reply) @ drop mn rx), d\<lparr>m_net := n3\<rparr>)" "ok n3"
      "view n3 = (view n2)\<lparr>nv_in := []\<rparr>"
      using udp_recv_ok [of "d\<lparr>m_net := n2\<rparr>" reply "[]" hs hb sz rx mn] l2 v2 assms(7-10) by auto
    then show ?thesis using assms(11) x True g(1) v2 by (auto simp: udp_good_def udp_tgt_def drv_frame_def)
  next
    case False
    then have "udp_xfer net tx n hb hs rx sz d = ((Inl (TimeoutErr []), hb, rx), d\<lparr>m_net := n2\<rparr>)"
      using assms(2) w p l1 l2 by (simp add: udp_xfer_def rd_mem_ok udp_loss_def Let_def)
    then show ?thesis using assms(11) False g(1) l1 l2 by (auto simp: udp_good_def udp_tgt_def udp_loss_def drv_frame_def)
  qed
qed

sublocale udp_message: lossy_transport "udp_xfer net" "udp_good mtu ok view" "udp_tgt view" answer "udp_loss view" plim
  for mtu :: u32
proof
  fix d' d :: "'n udpDrv" assume "axisToJtag.more d' = axisToJtag.more d"
  then have "m_net d' = m_net d" "m_mtu d' = m_mtu d" by (cases d, cases d', simp)+
  then show "udp_good mtu ok view d' = udp_good mtu ok view d \<and> udp_tgt view d' = udp_tgt view d \<and> udp_loss view d' = udp_loss view d"
    by (simp add: udp_good_def udp_tgt_def udp_loss_def)
next
  fix d :: "'n udpDrv" assume "udp_good mtu ok view d"
  then show "udp_loss view d \<le> 5" using net_loss by (simp add: udp_good_def udp_loss_def)
qed (rule udp_link)

lemma udp_link_lossy: "lossy_transport (udp_xfer net) (udp_good mtu ok view) (udp_tgt view) answer (udp_loss view) plim"
  by unfold_locales

end

section \<open>Interpretations\<close>

text \<open>
  For concrete runs: a network that loses \<open>k\<close> exchanges before each that succeeds, alternately the reply and the
  message.
\<close>

definition emul_net :: "(u8 list \<Rightarrow> 't \<Rightarrow> u8 list \<times> 't) \<Rightarrow> nat \<Rightarrow> 't net_view udp_net" where
  "emul_net answer k = \<lparr>
     net_write = \<lambda>msg n. (int (length msg),
       case answer msg (nv_tgt n) of (reply, t) \<Rightarrow>
         if nv_loss n = 0 then n\<lparr>nv_in := nv_in n @ [reply], nv_loss := k, nv_tgt := t\<rparr>
         else n\<lparr>nv_loss := nv_loss n - 1, nv_tgt := (if even (nv_loss n) then nv_tgt n else t)\<rparr>),
     net_poll = \<lambda>n. ((if nv_in n = [] then 0 else 1, False, nv_in n \<noteq> []), n),
     net_readv = \<lambda>n. (case nv_in n of [] \<Rightarrow> (None, n) | dg # dgs \<Rightarrow> (Some dg, n\<lparr>nv_in := dgs\<rparr>))\<rparr>"

interpretation en: udp_network "emul_net answer 4" "\<lambda>n. nv_loss n \<le> 5" "\<lambda>n. n" answer plim
  for answer :: "u8 list \<Rightarrow> 't \<Rightarrow> u8 list \<times> 't" and plim
  by unfold_locales (auto simp: emul_net_def split: if_splits)

text \<open>With a target that has a memory for its last reply it is a link.\<close>

interpretation eu: lossy_link "udp_xfer (emul_net (memo_target (emul_target step)) 4)" "udp_good mtu (\<lambda>n. nv_loss n \<le> 5) (\<lambda>n. n)" "udp_tgt (\<lambda>n. n)"
  "memo_target (emul_target step)" "udp_loss (\<lambda>n. n)" 5000 "\<lambda>_. True" fst memo_fresh step 4 emul_header "memDepth emul_header * 4" udp_getMaxVectorSize
  for step :: "bool \<times> bool \<Rightarrow> 't \<Rightarrow> bool \<times> 't" and mtu
  by (intro lossy_link.intro lossy_link_axioms.intro en.udp_link_lossy memo.retry_target_axioms) (simp add: msg_size_def emul_header_fields)

end
