(* ===== verification/Srv_Udp.thy ===== *)
theory Srv_Udp
  imports Srv_Stream Drv_Udp
begin

text \<open>
  The server with the UDP driver: from the construction of the driver to the replies that a client gets,
  over a network that loses datagrams.
\<close>

section \<open>The driver as the server sees it\<close>

definition udp_ops :: "'n udp_net \<Rightarrow> 'n udpDrv jtag_ops" where
  "udp_ops net = axisToJtag_ops (udp_xfer net) udp_getMaxVectorSize"

section \<open>Lemmas\<close>

lemma udp_new_ok:
  assumes "udpDrv_new host xid0 env n0 args target = Inr d0"
  shows "drv_wf d0" "m_wordSize d0 = 4" "\<not> getSniff d0" "m_bufSz d0 = 2048" "m_retry d0 = 5" "m_xid d0 = xid0" "m_net d0 = n0"
    "\<exists>mtu user frag. udp_options args (1450, False, False) = Inr (mtu, user, frag) \<and> m_mtu d0 = udp_mtu (ue_ip_mtu env) mtu user"
proof -
  obtain sd mtu user frag where d: "udp_options args (1450, False, False) = Inr (mtu, user, frag)"
    "d0 = axisToJtag.extend (axisToJtag_new host xid0 0) (udpDrv.fields sd 500 (udp_mtu (ue_ip_mtu env) mtu user) n0)"
    using assms by (auto simp: udpDrv_new_def bindR_def split: sum.splits if_splits)
  note ext = d(2) axisToJtag_new_def jtagDriver_new_def udpDrv.defs axisToJtag.defs jtagDriver.defs
  show "drv_wf d0" "m_wordSize d0 = 4" "\<not> getSniff d0" "m_bufSz d0 = 2048" "m_retry d0 = 5" "m_xid d0 = xid0" "m_net d0 = n0"
    using drv_wf_new [of host xid0 0] by (simp_all add: ext getSniff_def drv_wf_def)
  show "\<exists>mtu user frag. udp_options args (1450, False, False) = Inr (mtu, user, frag) \<and> m_mtu d0 = udp_mtu (ue_ip_mtu env) mtu user"
    using d(1) by (intro exI [of _ mtu] exI [of _ user] exI [of _ frag]) (simp add: ext)
qed

lemma udp_reliable:
  assumes "udp_network net ok view answer plim" and "retry_target answer tok dv fresh step w hq vlim" and "msg_size w vlim \<le> plim"
  shows "reliable_driver (udp_xfer net) (\<lambda>d. udp_good mtu ok view d \<and> m_retry d = 5 \<and> tok (udp_tgt view d) \<and> fresh (next_xid (m_xid d)) (udp_tgt view d))
    (\<lambda>d. dv (udp_tgt view d)) step w hq vlim"
  using udp_network.udp_link_lossy [OF assms(1)] assms(2,3)
  by (intro lossy_link.lossy_reliable lossy_link.intro lossy_link_axioms.intro)

text \<open>From the construction of the driver to the replies, over a lossy network.\<close>

lemma udp_serves:
  assumes "udp_network net ok view answer plim" and "retry_target answer tok dv fresh step w hq vlim"
    and "udpDrv_new host xid0 env n0 args target = Inr d0" and "ok n0" and "nv_in (view n0) = []" and "tok (nv_tgt (view n0))" and "fresh (next_xid xid0) (nv_tgt (view n0))"
    and "msg_size w vlim \<le> plim" and "msg_size w vlim \<le> max 2048 ((2 * memDepth hq + 1) * w)"
    and "min mc (sup_len (memDepth hq * w) mx (unat ((m_mtu d0 - word_of_nat w) div 2))) \<le> vlim" and "mx < 2 ^ 32"
    and "clean evs" and "\<forall>i. 0 < wr i" and "ev_bytes evs = concat (map encode_msg ms)" and "list_all (msg_ok mc) ms" and "mc \<le> mx"
  shows "\<exists>d1. udp_init net d0 = (Inr (), d1) \<and>
    (\<forall>c. xvcConn_new sd evs wr 0 d1 mx = Inr c \<longrightarrow>
      (\<exists>c'. conn_run (udp_ops net) c = Some (if eof evs then SysErr ''Unable to read from socket'' else Blocked, c') \<and>
        session step (period_reply (cvtPerNs hq)) mx ms (dv (nv_tgt (view n0))) (c_out c') (dv (nv_tgt (view (m_net (c_drv c')))))))"
proof -
  let ?good = "\<lambda>d. udp_good (m_mtu d0) ok view d \<and> m_retry d = 5 \<and> tok (udp_tgt view d) \<and> fresh (next_xid (m_xid d)) (udp_tgt view d)"
  note n = udp_new_ok [OF assms(3)] and rel = udp_reliable [OF assms(1,2,8), of "m_mtu d0"]
  have g: "?good d0" using n assms(4-7) by (simp add: udp_good_def udp_tgt_def)
  have fits: "msg_size w vlim \<le> max (m_bufSz d0) ((2 * memDepth hq + 1) * w)" using n(4) assms(9) by simp
  from reliable_driver.rel_init [OF rel n(1-3) fits g] n(7)
  obtain d1 where d1: "init_drv (udp_xfer net) d0 = (Inr (), d1)" "base_valid w vlim (cvtPerNs hq) d1 \<and> ?good d1" "dv (udp_tgt view d1) = dv (nv_tgt (view n0))"
    by (auto simp: udp_tgt_def)
  have fit: "sup_len (memDepth hq * w) mx (udp_getMaxVectorSize d) \<le> sup_len (memDepth hq * w) mx (unat ((m_mtu d0 - word_of_nat w) div 2))" if "base_valid w vlim (cvtPerNs hq) d \<and> ?good d" for d
    using that by (simp add: udp_getMaxVectorSize_def getWordSize_def udp_good_def base_valid_def)
  note s = reliable_driver.rel_session [where maxVec = udp_getMaxVectorSize, OF rel d1(2) fit assms(11) _ assms(12-16,10), folded udp_ops_def, unfolded d1(3)]
  have "\<exists>c'. conn_run (udp_ops net) c = Some (if eof evs then SysErr ''Unable to read from socket'' else Blocked, c') \<and>
      session step (period_reply (cvtPerNs hq)) mx ms (dv (nv_tgt (view n0))) (c_out c') (dv (nv_tgt (view (m_net (c_drv c')))))"
    if "xvcConn_new sd evs wr 0 d1 mx = Inr c" for c
    using s [OF _ that] unfolding udp_tgt_def by blast
  with d1(1) show ?thesis by (auto simp: udp_init_def)
qed

text \<open>The header of a shift, read as the answer to a query.\<close>

lemma shift_as_query:
  assumes "1 \<le> bits" and "bits \<le> 2 ^ 20" and "h = fst (mkShift (word_of_nat bits) x)"
  shows "wordSize h = (bits - 1) mod 16 + 1" "memDepth h = (bits - 1) div 16" "getErr h = 0"
proof -
  have u: "unat (word_of_nat bits :: u32) = bits" using assms(2) by (simp add: unat_u32_of_nat)
  note f = mkShift_fields [of "word_of_nat bits" x, folded assms(3), unfolded u, OF assms(1,2)]
  have t: "unat (take_bit 20 h) = bits - 1" using f(4) getLen_shift [OF f(2)] by simp
  have "h AND 0xf = take_bit 4 h" by (simp add: take_bit_eq_mask mask_eq_exp_minus_1)
  also have "\<dots> = take_bit 4 (take_bit 20 h)" by simp
  finally show "wordSize h = (bits - 1) mod 16 + 1" using t by (simp only: wordSize_def unsigned_take_bit_eq) (simp add: take_bit_eq_mod)
  have "drop_bit 4 h AND 0xffff = take_bit 16 (drop_bit 4 h)" by (simp add: take_bit_eq_mask mask_eq_exp_minus_1)
  also have "\<dots> = drop_bit 4 (take_bit 20 h)" by (simp add: drop_bit_take_bit)
  finally show "memDepth h = (bits - 1) div 16" using t by (simp add: memDepth_def drop_bit_eq_div unat_div)
  show "getErr h = 0" by (rule f(5))
qed

section \<open>Concrete runs\<close>

text \<open>A socket that can be set up, and a device that delays its input by one bit.\<close>

definition udp_env_ok :: "u32 option \<Rightarrow> udp_env" where
  "udp_env_ok m = \<lparr>ue_sock = \<lparr>sys_socket = 3, sys_setsockopt = 0, sys_bind = \<lambda>_. 0, sys_listen = 0\<rparr>, ue_getaddrinfo = \<lambda>_ _. 0, ue_gai_strerror = \<lambda>_. [], ue_connect = 0, ue_ip_mtu = m, ue_set_df = 0\<rparr>"

definition one_late :: "bool \<times> bool \<Rightarrow> bool \<Rightarrow> bool \<times> bool" where
  "one_late tms_tdi t = (t, snd tms_tdi)"

definition udp_hw :: "(bool \<times> (u8 \<times> u8 list) option) net_view udp_net" where
  "udp_hw = emul_net (memo_target (emul_target one_late)) 4"

definition udp_lossy :: "(bool \<times> (u8 \<times> u8 list) option) net_view" where
  "udp_lossy = \<lparr>nv_in = [], nv_loss = 5, nv_tgt = (False, None)\<rparr>"

lemma udp_example_new: "\<exists>d0. udpDrv_new le_platform 7 (udp_env_ok (Some 1500)) n0 [] ''h'' = Inr d0 \<and> m_mtu d0 = 1500"
  by (simp add: udpDrv_new_def udp_env_ok_def sockSd_new_def udp_connect_def udp_target_def udp_mtu_def axisToJtag_new_def jtagDriver_new_def
      udpDrv.defs axisToJtag.defs jtagDriver.defs)

section \<open>Properties\<close>

text \<open>
  C3.  The server with the UDP driver, over a network that loses up to five exchanges in a row (messages or replies) and a
  target that recognises a repeated message by its transaction id: \<^verbatim>\<open>init\<close> succeeds and a client gets the replies the protocol
  asks for; every shift reaches the device behind the target exactly once, in order, in spite of the losses.

  The conditions: the client's shifts have at most \<open>mc\<close> bytes, and the message for the longest vector that the server makes
  of them (\<open>vlim\<close> bytes) fits the transmit buffer and the \<open>plim\<close> bytes that the network takes in one datagram.  With an IP MTU of
  1500 and without fragmentation these are 1472 bytes, so \<open>mc\<close> may be 732, while the driver announces 748 bytes.
  The first transaction id, which follows the value that \<^verbatim>\<open>xid_\<close> happens to have, is one that the target has not answered before.
\<close>

theorem udp_session:
  assumes "udp_network net ok view answer plim" and "retry_target answer tok dv fresh step w hq vlim"
    and "udpDrv_new host xid0 env n0 args target = Inr d0" and "ok n0" and "nv_in (view n0) = []" and "tok (nv_tgt (view n0))" and "fresh (next_xid xid0) (nv_tgt (view n0))"
    and "msg_size w vlim \<le> plim" and "msg_size w vlim \<le> max 2048 ((2 * memDepth hq + 1) * w)"
    and "min mc (sup_len (memDepth hq * w) mx (unat ((m_mtu d0 - word_of_nat w) div 2))) \<le> vlim" and "mx < 2 ^ 32"
    and "clean evs" and "\<forall>i. 0 < wr i" and "ev_bytes evs = concat (map encode_msg ms)" and "list_all (msg_ok mc) ms" and "mc \<le> mx"
  shows "\<exists>d1. udp_init net d0 = (Inr (), d1) \<and>
    (\<forall>c. xvcConn_new sd evs wr 0 d1 mx = Inr c \<longrightarrow>
      (\<exists>c'. conn_run (udp_ops net) c = Some (if eof evs then SysErr ''Unable to read from socket'' else Blocked, c') \<and>
        session step (period_reply (cvtPerNs hq)) mx ms (dv (nv_tgt (view n0))) (c_out c') (dv (nv_tgt (view (m_net (c_drv c')))))))"
  by (rule udp_serves [OF assms])

theorem udp_session_witness:
  "case udpDrv_new le_platform 7 (udp_env_ok (Some 1500)) udp_lossy [] ''h'' of
     Inl _ \<Rightarrow> False
   | Inr d0 \<Rightarrow> \<exists>d1. udp_init udp_hw d0 = (Inr (), d1) \<and>
       (\<exists>c'. conn_run (udp_ops udp_hw)
           (case xvcConn_new 5 [Data (ascii ''shift:'' @ [12, 0, 0, 0, 1, 2]), Data [3, 4]] (\<lambda>_. 1) 0 d1 32768 of Inr c \<Rightarrow> c) = Some (Blocked, c') \<and>
         session one_late (period_reply UNKNOWN_PERIOD) 32768 [Shift 12 [1, 2] [3, 4]] False (c_out c') (fst (nv_tgt (m_net (c_drv c')))))"
proof -
  define evs where "evs = [Data (ascii ''shift:'' @ [12, 0, 0, 0, 1, 2]), Data [3, 4]]"
  obtain d0 where d0: "udpDrv_new le_platform 7 (udp_env_ok (Some 1500)) udp_lossy [] ''h'' = Inr d0" "m_mtu d0 = 1500"
    using udp_example_new [of udp_lossy] by (elim exE conjE)
  have v: "nv_loss udp_lossy \<le> 5" "nv_in udp_lossy = []" by (simp_all add: udp_lossy_def)
  have x: "memo_fresh (next_xid 7) (nv_tgt udp_lossy)" by (simp add: udp_lossy_def memo_fresh_def)
  have m: "msg_size 4 732 \<le> 1472" "msg_size 4 732 \<le> max 2048 ((2 * memDepth emul_header + 1) * 4)" "732 \<le> memDepth emul_header * 4"
    by (simp_all add: emul_header_fields msg_size_def)
  have l: "min 732 (sup_len (memDepth emul_header * 4) 32768 (unat ((m_mtu d0 - word_of_nat 4) div 2))) \<le> 732" "(32768 :: nat) < 2 ^ 32"
    by (rule min.cobounded1, simp)
  have e: "clean evs" "\<forall>i :: nat. 0 < (1 :: int)" "ev_bytes evs = concat (map encode_msg [Shift 12 [1, 2] [3, 4]])"
    "list_all (msg_ok 732) [Shift 12 [1, 2] [3, 4]]" "(732 :: nat) \<le> 32768"
    by (simp_all add: evs_def vec_bytes_def ascii_def le_bytes32_def)
  obtain d1 where d: "udp_init udp_hw d0 = (Inr (), d1)"
    and r: "\<And>c. xvcConn_new 5 evs (\<lambda>_. 1) 0 d1 32768 = Inr c \<Longrightarrow>
      \<exists>c'. conn_run (udp_ops udp_hw) c = Some (if eof evs then SysErr ''Unable to read from socket'' else Blocked, c') \<and>
        session one_late (period_reply (cvtPerNs emul_header)) 32768 [Shift 12 [1, 2] [3, 4]] (fst (nv_tgt udp_lossy)) (c_out c')
          (fst (nv_tgt (m_net (c_drv c'))))"
    using udp_session [where sd = 5, OF en.udp_network_axioms [of "memo_target (emul_target one_late)" 1472, folded udp_hw_def]
        retry_target_le [OF memo.retry_target_axioms m(3)] d0(1) v TrueI x m(1,2) l e] by blast
  obtain c where c: "xvcConn_new 5 evs (\<lambda>_. 1) 0 d1 32768 = Inr c" by (simp add: xvcConn_new_def)
  have "fst (nv_tgt udp_lossy) = False" "\<not> eof evs" by (simp_all add: udp_lossy_def evs_def eof_def)
  then show ?thesis using d0(1) d r [OF c] c by (simp add: evs_def [symmetric] emul_header_fields)
qed

text \<open>
  C37.  Without the option \<^verbatim>\<open>-m\<close> the driver takes the IP MTU for the size of a datagram, without room for the IP and
  UDP headers of 28 bytes: on a network that rejects what does not fit one packet, vectors of the size that the driver itself
  announces are never sent.
\<close>

theorem udp_full_vector_rejected:
  assumes "udpDrv_new host xid0 env n0 args target = Inr d0" and "udp_options args (1450, False, False) = Inr (mtu, False, frag)"
    and "ue_ip_mtu env = Some m" and "unat m < 2 ^ 16" and "m_mtu d = m_mtu d0" and "drv_wf d" and "w = m_wordSize d" and "w + 2 \<le> unat m"
    and "n = op_getMaxVectorSize (udp_ops net) d" and "msg_size w n \<le> m_bufSz d" and "n \<le> length tms" and "n \<le> length tdi"
    and "\<And>msg s. unat m < length msg + 28 \<Longrightarrow> fst (net_write net msg s) < 0"
  shows "0 < n \<and> fst (fst (op_sendVectors (udp_ops net) (8 * n) tms tdi tdo d)) = Inl (SysErr ''JtagDriverUdp: unable to send'')"
proof -
  have mtu: "m_mtu d = m" using udp_new_ok(8) [OF assms(1)] assms(2,3,5) by (auto simp: udp_mtu_def)
  have w: "4 \<le> w" "w \<le> 16" "length (m_txBuf d) = m_bufSz d" using assms(6,7) by (simp_all add: drv_wf_def)
  have uw: "unat (word_of_nat w :: u32) = w" using w(2) by (simp add: unat_u32_of_nat)
  then have "word_of_nat w \<le> m" using assms(8) by (simp add: word_le_nat_alt)
  then have n: "n = (unat m - w) div 2"
    using assms(7,9) mtu uw by (simp add: udp_ops_def axisToJtag_ops_def udp_getMaxVectorSize_def getWordSize_def unat_sub unat_div)
  have pos: "0 < n" "8 * n < 2 ^ 32" "n = (8 * n + 7) div 8" using n assms(4,8) by simp_all
  define k where "k = (n + w - 1) div w * w"
  have "n \<le> k" unfolding k_def
    using w(1) div_mult_mod_eq [of "n + w - 1" w] mod_less_divisor [of w "n + w - 1"] by linarith
  moreover have "unat m \<le> 2 * n + w + 1" using n by simp
  moreover have "msg_size w n = w + 2 * k" by (simp add: msg_size_def k_def)
  ultimately have big: "unat m < msg_size w n + 28" by linarith
  have fits: "msg_size w n \<le> length (m_txBuf d)" using assms(10) w(3) by simp
  obtain tx where tx: "shift_msg w (fst (mkShift (word_of_nat (8 * n)) (m_xid d))) n tms tdi tx"
    and send: "sendVectors (udp_xfer net) (8 * n) tms tdi tdo d = send_sniff (8 * n) tms tdi
      (xferRel (udp_xfer net) tx (msg_size w n) tdo n (d\<lparr>m_xid := next_xid (m_xid d), m_txBuf := tx\<rparr>))"
    using sendVectors_msg [OF pos(2,3) assms(7) w(1,2) assms(11,12) fits] by blast
  note hdr = shift_msg_hdr [OF tx w(1)]
  have len: "msg_size w n \<le> length tx" using tx by (simp add: shift_msg_def)
  then have "fst (net_write net (take (msg_size w n) tx) s) < 0" for s using assms(13) [of "take (msg_size w n) tx" s] big by simp
  then have "\<exists>d'. xferRel (udp_xfer net) tx (msg_size w n) tdo n e = ((Inl (SysErr ''JtagDriverUdp: unable to send''), tdo), d')" for e
    using hdr len by (cases "net_write net (take (msg_size w n) tx) (m_net e)")
      (auto simp: xferRel_def getHdr_le xferRel_loop.simps(2) udp_xfer_def rd_mem_ok Let_def, metis fst_conv)
  then obtain d' where "xferRel (udp_xfer net) tx (msg_size w n) tdo n (d\<lparr>m_xid := next_xid (m_xid d), m_txBuf := tx\<rparr>) =
      ((Inl (SysErr ''JtagDriverUdp: unable to send''), tdo), d')" by blast
  then show ?thesis using pos(1) send by (simp add: udp_ops_def axisToJtag_ops_def send_sniff_def)
qed

theorem udp_full_vector_rejected_witness:
  "case udpDrv_new le_platform 7 (udp_env_ok (Some 1500)) udp_lossy [] ''h'' of
     Inl _ \<Rightarrow> False
   | Inr d \<Rightarrow> fst (fst (op_sendVectors (udp_ops (udp_hw\<lparr>net_write := \<lambda>msg n. (if 1472 < length msg then - 1 else 0, n)\<rparr>))
       5984 (replicate 748 0) (replicate 748 0) (replicate 748 0) d)) = Inl (SysErr ''JtagDriverUdp: unable to send'')"
proof -
  define net where "net = udp_hw\<lparr>net_write := \<lambda>msg n. (if 1472 < length msg then - 1 else 0, n)\<rparr>"
  obtain d where d: "udpDrv_new le_platform 7 (udp_env_ok (Some 1500)) udp_lossy [] ''h'' = Inr d" "m_mtu d = 1500"
    using udp_example_new [of udp_lossy] by (elim exE conjE)
  note n = udp_new_ok [OF d(1)]
  have o: "udp_options [] (1450, False, False) = Inr (1450, False, False)" "ue_ip_mtu (udp_env_ok (Some 1500)) = Some 1500" "unat (1500 :: u32) < 2 ^ 16"
    by (simp_all add: udp_env_ok_def)
  have m: "748 = op_getMaxVectorSize (udp_ops net) d"
    by (simp add: udp_ops_def axisToJtag_ops_def udp_getMaxVectorSize_def getWordSize_def n(2) d(2))
  have "0 < (748 :: nat) \<and> fst (fst (op_sendVectors (udp_ops net) (8 * 748) (replicate 748 0) (replicate 748 0) (replicate 748 0) d)) =
      Inl (SysErr ''JtagDriverUdp: unable to send'')"
    by (rule udp_full_vector_rejected [OF d(1) o refl n(1) n(2) [symmetric] _ m])
      (simp_all add: n(4) msg_size_def net_def)
  with d(1) show ?thesis by (simp add: net_def)
qed

text \<open>
  C38.  The query has no transaction id, so the driver takes whatever datagram waits for it as the answer: after a reply that came too late, the
  header of a shift of \<open>bits\<close> bits is taken for a word size of \<open>(bits - 1) mod 16 + 1\<close> and a memory of \<open>(bits - 1) div 16\<close> words.
\<close>

theorem udp_stale_reply_to_query:
  assumes "drv_wf d" and "w = m_wordSize d" and "net_write net (le_bytes32 mkQuery @ replicate (w - 4) 0) (m_net d) = (put, n1)" and "0 \<le> put"
    and "net_poll net n1 = ((got, False, True), n2)" and "0 < got" and "net_readv net n2 = (Some dg, n3)"
    and "take 4 dg = le_bytes32 (fst (mkShift (word_of_nat bits) x))" and "w \<le> length dg" and "1 \<le> bits" and "bits \<le> 2 ^ 20"
    and "4 \<le> (bits - 1) mod 16 + 1"
  shows "\<exists>d'. op_query (udp_ops net) d = (Inr ((bits - 1) div 16 * ((bits - 1) mod 16 + 1)), d') \<and>
    m_wordSize d' = (bits - 1) mod 16 + 1 \<and> m_memDepth d' = (bits - 1) div 16 \<and> m_net d' = n3"
proof -
  define h where "h = fst (mkShift (word_of_nat bits) x)"
  note f = shift_as_query [OF assms(10,11) h_def]
  have w: "4 \<le> w" "w \<le> 16" "w < 2 ^ 32" "w \<le> length (m_txBuf d)" "length (m_hdBuf d) = hdBufMax" using assms(1,2) by (auto simp: drv_wf_def)
  define tx where "tx = le_bytes32 mkQuery @ replicate (w - 4) 0 @ drop w (m_txBuf d)"
  have set: "setHdr (isLE (m_host d)) w (m_txBuf d) mkQuery = Inr tx" using setHdr_le [OF w(1,3,4)] by (simp add: tx_def)
  have tx: "w \<le> length tx" "take w tx = le_bytes32 mkQuery @ replicate (w - 4) 0" "take 4 tx = le_bytes32 mkQuery" using w(1) by (simp_all add: tx_def)
  define d1 where "d1 = d\<lparr>m_txBuf := tx\<rparr>"
  define hb where "hb = take w dg @ drop w (m_hdBuf d)"
  have x: "udp_xfer net tx w (m_hdBuf d1) (m_wordSize d1) [] 0 d1 = ((Inr 0, hb, []), d1\<lparr>m_net := n3\<rparr>)"
    using assms(2-7,9) tx w by (simp add: udp_xfer_def rd_mem_ok d1_def Let_def udp_recv_def udp_scatter_def wr_mem_ok hdBufMax_def hb_def)
  have hb: "take 4 hb = le_bytes32 h" "4 \<le> length hb" using assms(8,9) w by (simp_all add: h_def hb_def hdBufMax_def)
  have "getXid mkQuery = XID_ANY" by (simp add: mkQuery_def getXid_def hdr_defs)
  then have "xferRel (udp_xfer net) tx w [] 0 d1 = ((Inr (0, h), []), d1\<lparr>m_net := n3, m_hdBuf := hb\<rparr>)"
    using xferRel_accept [where xf = "udp_xfer net", OF _ _ x hb(2), of mkQuery] tx w(1) hb(1) f(3) by simp
  then have q: "query (udp_xfer net) d = query_update h (d1\<lparr>m_net := n3, m_hdBuf := hb\<rparr>)"
    using set assms(2) by (simp add: query_def getWordSize_def d1_def)
  obtain ms ws where e: "ms = (bits - 1) div 16" "ws = (bits - 1) mod 16 + 1" by blast
  have m: "memDepth h = ms" "wordSize h = ws" "4 \<le> ws" using f(1,2) e assms(12) by simp_all
  have "ms * ws \<le> 2 ^ 16 * 16" using memDepth_bound [of h] wordSize_bounds [of h] m by (intro mult_le_mono) simp_all
  then have "ms * ws < 2 ^ 32" by simp
  then have "c_unsigned (ms * ws) = ms * ws" by (rule c_unsigned_less)
  then show ?thesis using q m unfolding e [symmetric] by (simp add: udp_ops_def axisToJtag_ops_def query_update_def Let_def)
qed

theorem udp_stale_reply_to_query_witness:
  "case udpDrv_new le_platform 7 (udp_env_ok (Some 1500))
      (udp_lossy\<lparr>nv_in := [le_bytes32 (fst (mkShift (word_of_nat 1000) 6)) @ replicate 125 0], nv_loss := 0\<rparr>) [] ''h'' of
     Inl _ \<Rightarrow> False
   | Inr d \<Rightarrow> \<exists>d'. op_query (udp_ops udp_hw) d = (Inr 496, d') \<and> m_wordSize d' = 8 \<and> m_memDepth d' = 62"
proof -
  define dg where "dg = le_bytes32 (fst (mkShift (word_of_nat 1000) 6)) @ replicate 125 (0 :: u8)"
  define n0 where "n0 = udp_lossy\<lparr>nv_in := [dg], nv_loss := 0\<rparr>"
  obtain d where d: "udpDrv_new le_platform 7 (udp_env_ok (Some 1500)) n0 [] ''h'' = Inr d" using udp_example_new [of n0] by (elim exE conjE)
  note n = udp_new_ok [OF d]
  obtain put n1 where w: "net_write udp_hw (le_bytes32 mkQuery @ replicate (4 - 4) 0) (m_net d) = (put, n1)" by fastforce
  then obtain q where n1: "0 \<le> put" "nv_in n1 = [dg, q]"
    by (auto simp: n(7) udp_hw_def emul_net_def n0_def split: prod.splits)
  have p: "net_poll udp_hw n1 = ((1, False, True), n1)" "net_readv udp_hw n1 = (Some dg, n1\<lparr>nv_in := [q]\<rparr>)"
    using n1(2) by (simp_all add: udp_hw_def emul_net_def)
  have g: "take 4 dg = le_bytes32 (fst (mkShift (word_of_nat 1000) 6))" "4 \<le> length dg" by (simp_all add: dg_def)
  have "\<exists>d'. op_query (udp_ops udp_hw) d = (Inr ((1000 - 1) div 16 * ((1000 - 1) mod 16 + 1)), d') \<and>
      m_wordSize d' = (1000 - 1) mod 16 + 1 \<and> m_memDepth d' = (1000 - 1) div 16 \<and> m_net d' = n1\<lparr>nv_in := [q]\<rparr>"
    by (rule udp_stale_reply_to_query [OF n(1) n(2) [symmetric] w n1(1) p(1) _ p(2) g]) simp_all
  then have "\<exists>d'. op_query (udp_ops udp_hw) d = (Inr 496, d') \<and> m_wordSize d' = 8 \<and> m_memDepth d' = 62" by auto
  with d show ?thesis by (simp add: n0_def dg_def)
qed

end
