(* ===== verification/Srv_UdpLoop.thy ===== *)
theory Srv_UdpLoop
  imports Srv_Udp Srv_LoopBack
begin

text \<open>
  The UDP driver and the emulated firmware \<^verbatim>\<open>UdpLoopBack\<close> of the program at the two ends of a network that loses
  datagrams: the firmware is a target that recognises repeated messages.
\<close>

section \<open>Specification\<close>

text \<open>The firmware as a target: the reply to a datagram, by one round of its loop.\<close>

definition udp_firmware :: "u8 list \<Rightarrow> udpLoopBack \<Rightarrow> u8 list \<times> udpLoopBack" where
  "udp_firmware dg d =
     (case udp_run_step (Some dg) True d of
        (Inr (Some p), d') \<Rightarrow> (p, d')
      | (_, d') \<Rightarrow> ([], d'))"

text \<open>The firmware without a playback file, on a little-endian host and with the test mode off.\<close>

definition fw_ok :: "udpLoopBack \<Rightarrow> bool" where
  "fw_ok d \<longleftrightarrow> isLE (m_host d) \<and> m_f d = NullPtr \<and> m_skip d \<and> \<not> m_drEn d \<and> length (m_rbuf d) = 1500 \<and> length (m_tbuf d) = 1500"

definition fw_fresh :: "u8 \<Rightarrow> udpLoopBack \<Rightarrow> bool" where
  "fw_fresh x d \<longleftrightarrow> getXid (le_word32 (take 4 (m_tbuf d))) \<noteq> x"

definition fw_header :: u32 where
  "fw_header = 0xB43"

definition fw_limit :: nat where
  "fw_limit = 720"

section \<open>Lemmas\<close>

lemma fw_header_fields:
  "getErr fw_header = 0" "wordSize fw_header = 4" "memDepth fw_header = 180" "cvtPerNs fw_header = UNKNOWN_PERIOD" "getXid fw_header = XID_ANY"
  by (simp_all add: fw_header_def getErr_def getCmd_def wordSize_def memDepth_def cvtPerNs_def getXid_def hdr_defs)

text \<open>The state of the firmware after it has received \<open>dg\<close>.\<close>

definition fw_recv :: "u8 list \<Rightarrow> udpLoopBack \<Rightarrow> udpLoopBack" where
  "fw_recv dg d = d\<lparr>m_rbuf := dg @ drop (length dg) (m_rbuf d)\<rparr>"

lemma fw_recv_again: "m_rbuf d = m_rbuf (fw_recv dg d0) \<Longrightarrow> length dg \<le> 1500 \<Longrightarrow> fw_recv dg d = d"
  by (cases d) (simp add: fw_recv_def)

lemma fw_answer:
  assumes "fw_ok d" and "k = length dg" and "4 \<le> k" and "k \<le> 1500"
    and "udp_loop_xfer (m_rbuf (fw_recv dg d)) k (take 4 (m_tbuf d)) 4 (drop 4 (m_tbuf d)) 1496 (fw_recv dg d) = ((Inr pld, hb, rx), d')"
    and "nat (pld + 4) \<le> length hb + length rx"
  shows "udp_firmware dg d = (take (nat (pld + 4)) (hb @ rx), d'\<lparr>m_tbuf := hb @ rx\<rparr>)"
  using assms by (simp add: udp_firmware_def udp_run_step_def Let_def fw_ok_def min_def bindS_def udp_answer_def fw_recv_def rd_mem_ok)

lemma fw_hdrs:
  assumes "fw_ok d" and "4 \<le> length dg" and "length dg \<le> 1500"
  shows "take 4 (m_rbuf (fw_recv dg d)) = take 4 dg" "length (m_rbuf (fw_recv dg d)) = 1500" "m_tbuf (fw_recv dg d) = m_tbuf d"
    "m_host (fw_recv dg d) = m_host d" "m_tsiz (fw_recv dg d) = m_tsiz d" "m_skip (fw_recv dg d) = m_skip d" "m_f (fw_recv dg d) = m_f d"
    "fw_ok (fw_recv dg d)"
  using assms by (simp_all add: fw_recv_def fw_ok_def)

lemma fw_query:
  assumes "fw_ok d"
  defines "d' \<equiv> (fw_recv (le_bytes32 mkQuery) d)\<lparr>m_tsiz := - 1, m_tbuf := le_bytes32 fw_header @ drop 4 (m_tbuf d)\<rparr>"
  shows "udp_firmware (le_bytes32 mkQuery) d = (le_bytes32 fw_header, d')"
proof -
  note h = fw_hdrs [OF assms(1), of "le_bytes32 mkQuery"]
  have q: "mkQuery = 0" "getCmd 0 = CMD_Q" "getVrs 0 = PVER0" by (simp_all add: mkQuery_def getCmd_def getVrs_def hdr_defs)
  have t: "length (m_tbuf d) = 1500" "isLE (m_host d)" "m_f d = NullPtr" using assms(1) by (simp_all add: fw_ok_def)
  have "udp_loop_xfer (m_rbuf (fw_recv (le_bytes32 mkQuery) d)) 4 (take 4 (m_tbuf d)) 4 (drop 4 (m_tbuf d)) 1496 (fw_recv (le_bytes32 mkQuery) d) =
      ((Inr 0, le_bytes32 fw_header, drop 4 (m_tbuf d)), (fw_recv (le_bytes32 mkQuery) d)\<lparr>m_tsiz := - 1\<rparr>)"
    using h t q by (simp add: udp_loop_xfer_def Let_def getHdr_le loop_xfer_def rd_mem_ok rewind_def put_hdr_def wr_mem_ok mem_of_u32_def
        udp_emulMemDepth_def emulWordSize_def fw_header_def)
  from fw_answer [OF assms(1) _ _ _ this] show ?thesis by (simp add: d'_def)
qed

lemma fw_shift:
  assumes "fw_ok d" and "length msg = msg_size 4 n" and "shift_msg 4 h n tms tdi msg" and "n \<le> length tdi" and "getVrs h = PVER0" and "getCmd h = CMD_S"
    and "getLen h = Inr bits" and "n = (bits + 7) div 8" and "n \<le> fw_limit" and "fw_fresh (getXid h) d"
  defines "d' \<equiv> (fw_recv msg d)\<lparr>m_tsiz := int n, m_tbuf := le_bytes32 h @ take n tdi @ drop (n + 4) (m_tbuf d)\<rparr>"
  shows "udp_firmware msg d = (le_bytes32 h @ take n tdi, d')"
proof -
  have m: "4 \<le> length msg" "length msg \<le> 1500" "take 4 msg = le_bytes32 h" "4 + 2 * n \<le> msg_size 4 n"
    using assms(2,9) shift_msg_hdr [OF assms(3)] by (auto simp: fw_limit_def msg_size_def)
  note hd = fw_hdrs [OF assms(1) m(1,2)]
  have t: "length (m_tbuf d) = 1500" "isLE (m_host d)" "m_skip d" using assms(1) by (simp_all add: fw_ok_def)
  have rb: "m_rbuf (fw_recv msg d) ! tdi_pos 4 j = tdi ! j" if "j < n" for j
    using pos_in_msg(2) [of 4 j n] that assms(2,3) by (simp add: fw_recv_def shift_msg_def nth_append)
  have bits: "bits < 2 ^ 32" using assms(8,9) by (simp add: fw_limit_def)
  have "map (\<lambda>j. m_rbuf (fw_recv msg d) ! tdi_pos 4 j) [0..<n] = take n tdi"
    using rb assms(4) by (intro nth_equalityI) simp_all
  then have x: "loop_xfer udp_emulMemDepth (m_rbuf (fw_recv msg d)) (length msg) (take 4 (m_tbuf d)) 4 (drop 4 (m_tbuf d)) 1496 (fw_recv msg d) =
      ((Inr (int n), le_bytes32 h, take n tdi @ drop (n + 4) (m_tbuf d)), fw_recv msg d)"
    using loop_xfer_shift [where h = h and bits = bits and n = n and d = "fw_recv msg d" and txb = "m_rbuf (fw_recv msg d)"
        and txBytes = "length msg" and rxb = "drop 4 (m_tbuf d)" and hb = "take 4 (m_tbuf d)"]
      hd t m assms(2,5-9) bits by (simp add: mem_of_u32_def fw_limit_def)
  have "CMD_S \<noteq> CMD_Q" by simp
  then have "udp_loop_xfer (m_rbuf (fw_recv msg d)) (length msg) (take 4 (m_tbuf d)) 4 (drop 4 (m_tbuf d)) 1496 (fw_recv msg d) =
      ((Inr (int n), le_bytes32 h, take n tdi @ drop (n + 4) (m_tbuf d)), (fw_recv msg d)\<lparr>m_tsiz := int n\<rparr>)"
    using x hd t m(3) assms(6,10) by (simp add: udp_loop_xfer_def Let_def getHdr_le fw_fresh_def)
  from fw_answer [OF assms(1) refl m(1,2) this] show ?thesis using assms(4) by (simp add: d'_def nat_add_distrib)
qed

text \<open>A repeated shift is answered from the transmit buffer.\<close>

lemma fw_repeat:
  assumes "fw_ok d" and "4 \<le> length msg" and "length msg \<le> 1500" and "h = le_word32 (take 4 msg)" and "getCmd h = CMD_S"
    and "\<not> fw_fresh (getXid h) d" and "m_tsiz d = int n" and "n \<le> 1496" and "m_rbuf d = m_rbuf (fw_recv msg d0)"
  shows "udp_firmware msg d = (take (n + 4) (m_tbuf d), d)"
proof -
  have r: "fw_recv msg d = d" using fw_recv_again [OF assms(9,3)] .
  have t: "length (m_tbuf d) = 1500" using assms(1) by (simp add: fw_ok_def)
  have "CMD_S \<noteq> CMD_Q" by simp
  then have "udp_loop_xfer (m_rbuf (fw_recv msg d)) (length msg) (take 4 (m_tbuf d)) 4 (drop 4 (m_tbuf d)) 1496 (fw_recv msg d) =
      ((Inr (int n), take 4 (m_tbuf d), drop 4 (m_tbuf d)), d)"
    using assms(4-7) fw_hdrs [OF assms(1-3)] t r by (simp add: udp_loop_xfer_def Let_def getHdr_le fw_fresh_def)
  from fw_answer [OF assms(1) refl assms(2,3) this] show ?thesis using t assms(8) by (simp add: nat_add_distrib)
qed

lemma fw_version:
  assumes "fw_ok d" and "getVrs h \<noteq> PVER0 \<and> getCmd h \<notin> {CMD_Q, CMD_S}"
  defines "d' \<equiv> (fw_recv (le_bytes32 h) d)\<lparr>m_tbuf := le_bytes32 (err_header h 2) @ drop 4 (m_tbuf d)\<rparr>"
  shows "udp_firmware (le_bytes32 h) d = (le_bytes32 (err_header h 2), d')"
proof -
  note hd = fw_hdrs [OF assms(1), of "le_bytes32 h"]
  have t: "length (m_tbuf d) = 1500" "isLE (m_host d)" using assms(1) by (simp_all add: fw_ok_def)
  have "loop_xfer udp_emulMemDepth (m_rbuf (fw_recv (le_bytes32 h) d)) 4 (take 4 (m_tbuf d)) 4 (drop 4 (m_tbuf d)) 1496 (fw_recv (le_bytes32 h) d) =
      ((Inr 0, le_bytes32 (err_header h 2), drop 4 (m_tbuf d)), fw_recv (le_bytes32 h) d)"
    using loop_xfer_rejects [of "fw_recv (le_bytes32 h) d" 4 "m_rbuf (fw_recv (le_bytes32 h) d)" "take 4 (m_tbuf d)" h] hd t assms(2) by simp
  then have "udp_loop_xfer (m_rbuf (fw_recv (le_bytes32 h) d)) 4 (take 4 (m_tbuf d)) 4 (drop 4 (m_tbuf d)) 1496 (fw_recv (le_bytes32 h) d) =
      ((Inr 0, le_bytes32 (err_header h 2), drop 4 (m_tbuf d)), fw_recv (le_bytes32 h) d)"
    using hd t assms(2) by (simp add: udp_loop_xfer_def Let_def getHdr_le)
  from fw_answer [OF assms(1) _ _ _ this] show ?thesis by (simp add: d'_def)
qed

text \<open>The constructor without a playback file.\<close>

lemma fw_new:
  assumes "udpLoopBack_new fhost fxid NullPtr fopen fenv fnam port = Inr t" and "isLE fhost" and "fnam = None \<or> fnam = Some []"
  shows "fw_ok t" "m_tbuf t = alloc_raw fhost 1500"
  using assms by (auto simp: udpLoopBack_new_def loopBack_new_def Let_def fw_ok_def bindR_def axisToJtag_new_def jtagDriver_new_def
      udpLoopBack.defs loopBack.defs axisToJtag.defs jtagDriver.defs split: sum.splits)

section \<open>Interpretations\<close>

interpretation fw: retry_target udp_firmware fw_ok "\<lambda>_. ()" fw_fresh wire 4 fw_header fw_limit
proof
  fix d msg and u :: nat assume a: "fw_ok d" "u = 4 \<or> u = 4" "msg = le_bytes32 mkQuery @ replicate (u - 4) 0"
  define d' where "d' = (fw_recv (le_bytes32 mkQuery) d)\<lparr>m_tsiz := - 1, m_tbuf := le_bytes32 fw_header @ drop 4 (m_tbuf d)\<rparr>"
  have ok: "fw_ok d'" using a(1) by (simp add: d'_def fw_ok_def fw_recv_def)
  have "fw_recv (le_bytes32 mkQuery) d' = d'" using fw_recv_again [of d' _ d] by (simp add: d'_def)
  then have "(fw_recv (le_bytes32 mkQuery) d')\<lparr>m_tsiz := - 1, m_tbuf := le_bytes32 fw_header @ drop 4 (m_tbuf d')\<rparr> = d'" by (simp add: d'_def)
  with fw_query [OF a(1)] fw_query [OF ok] ok a(2,3)
  show "\<exists>pad t'. udp_firmware msg d = (le_bytes32 fw_header @ pad, t') \<and> length pad = 4 - 4 \<and> udp_firmware msg t' = (le_bytes32 fw_header @ pad, t') \<and>
      fw_ok t' \<and> () = () \<and> (\<forall>x. x \<noteq> XID_ANY \<longrightarrow> fw_fresh x d \<longrightarrow> fw_fresh x t')"
    by (intro exI [of _ "[]"] exI [of _ d']) (simp add: d'_def fw_fresh_def fw_header_fields)
next
  fix d and msg tms tdi :: "u8 list" and n h bits
  assume a: "fw_ok d" "length msg = msg_size 4 n" "shift_msg 4 h n tms tdi msg" "n \<le> length tms" "n \<le> length tdi" "getVrs h = PVER0" "getCmd h = CMD_S"
    "getLen h = Inr bits" "n = (bits + 7) div 8" "n \<le> fw_limit" "fw_fresh (getXid h) d"
  define d' where "d' = (fw_recv msg d)\<lparr>m_tsiz := int n, m_tbuf := le_bytes32 h @ take n tdi @ drop (n + 4) (m_tbuf d)\<rparr>"
  have m: "4 \<le> length msg" "length msg \<le> 1500" "h = le_word32 (take 4 msg)" "n \<le> 1496"
    using a(2,10) shift_msg_hdr [OF a(3)] by (auto simp: fw_limit_def msg_size_def)
  have ok: "fw_ok d'" using a(1,5) m(2,4) by (simp add: d'_def fw_ok_def fw_recv_def)
  have x: "\<not> fw_fresh (getXid h) d'" "\<And>x. x \<noteq> getXid h \<Longrightarrow> fw_fresh x d'" by (auto simp: d'_def fw_fresh_def)
  have again: "udp_firmware msg d' = (le_bytes32 h @ take n tdi, d')"
    using fw_repeat [OF ok m(1-3) a(7) x(1) _ m(4), of d] a(5) by (simp add: d'_def)
  have "bits \<le> 8 * n" using a(9) by simp
  then have dev: "take bits (bits_of_bytes (take n tdi)) = take bits (bits_of_bytes tdi)"
    and "length (take bits (bits_of_bytes tms)) = length (take bits (bits_of_bytes tdi))"
    using a(4,5) by (simp_all add: take_bits_of_bytes [symmetric] min_def)
  then show "\<exists>hr pad vec t'. udp_firmware msg d = (le_bytes32 hr @ pad @ vec, t') \<and> length pad = 4 - 4 \<and> n \<le> length vec \<and>
      getErr hr = 0 \<and> getXid hr = getXid h \<and>
      (take bits (bits_of_bytes vec), ()) = dev_run wire (zip (take bits (bits_of_bytes tms)) (take bits (bits_of_bytes tdi))) () \<and>
      udp_firmware msg t' = (le_bytes32 hr @ pad @ vec, t') \<and> fw_ok t' \<and> (\<forall>x. x \<noteq> getXid h \<longrightarrow> fw_fresh x t')"
    using fw_shift [OF a(1-3,5-11)] again ok x(2) a(5,7)
    by (intro exI [of _ h] exI [of _ "[]"] exI [of _ "take n tdi"] exI [of _ d']) (simp add: d'_def dev_run_wire getErr_def)
next
  fix d msg h assume a: "fw_ok d" "getVrs h \<noteq> PVER0 \<and> getCmd h \<notin> {CMD_Q, CMD_S}" "msg = le_bytes32 h @ replicate (4 - 4) 0"
  define d' where "d' = (fw_recv (le_bytes32 h) d)\<lparr>m_tbuf := le_bytes32 (err_header h 2) @ drop 4 (m_tbuf d)\<rparr>"
  have ok: "fw_ok d'" using a(1) by (simp add: d'_def fw_ok_def fw_recv_def)
  have "fw_recv (le_bytes32 h) d' = d'" using fw_recv_again [of d' _ d] by (simp add: d'_def)
  then have "(fw_recv (le_bytes32 h) d')\<lparr>m_tbuf := le_bytes32 (err_header h 2) @ drop 4 (m_tbuf d')\<rparr> = d'" by (simp add: d'_def)
  with fw_version [OF a(1,2)] fw_version [OF ok a(2)] a(3) err_header_fields [of 2 h]
  show "\<exists>hr pad t'. udp_firmware msg d = (le_bytes32 hr @ pad, t') \<and> udp_firmware msg t' = (le_bytes32 hr @ pad, t') \<and> length pad = 4 - 4 \<and> getErr hr \<noteq> 0"
    by (intro exI [of _ "err_header h 2"] exI [of _ "[]"] exI [of _ d']) (simp add: d'_def)
qed (simp_all add: fw_header_fields fw_limit_def)

section \<open>Concrete runs\<close>

definition fw_socket :: sock_env where
  "fw_socket = \<lparr>sys_socket = 4, sys_setsockopt = 0, sys_bind = \<lambda>_. 0, sys_listen = 0\<rparr>"

section \<open>Properties\<close>

text \<open>
  C4.  The UDP driver and the emulated firmware of the program understand each other over a network that loses up to five exchanges in
  a row: with the firmware as its constructor leaves it (no playback file, little-endian host), \<^verbatim>\<open>init\<close> succeeds, whatever the MTU,
  and a client of the server gets for every message the reply of the protocol, with its TDI bits as TDO.  The
  uninitialised transmit buffer of the firmware is assumed not to carry the transaction id of the first shift by chance.
\<close>

theorem udp_firmware_session:
  assumes "udp_network net ok view udp_firmware plim" and "1444 \<le> plim"
    and "udpLoopBack_new fhost fxid NullPtr fopen fenv fnam port = Inr (nv_tgt (view n0))" and "isLE fhost" and "fnam = None \<or> fnam = Some []"
    and "getXid (le_word32 (take 4 (alloc_raw fhost 1500))) \<noteq> next_xid xid0"
    and "udpDrv_new host xid0 env n0 args target = Inr d0" and "ok n0" and "nv_in (view n0) = []" and "mx < 2 ^ 32"
    and "clean evs" and "\<forall>i. 0 < wr i" and "ev_bytes evs = concat (map encode_msg ms)" and "list_all (msg_ok mx) ms"
  shows "\<exists>d1. udp_init net d0 = (Inr (), d1) \<and>
    (\<forall>c. xvcConn_new sd evs wr 0 d1 mx = Inr c \<longrightarrow>
      (\<exists>c'. conn_run (udp_ops net) c = Some (if eof evs then SysErr ''Unable to read from socket'' else Blocked, c') \<and>
        session wire (\<lambda>p. p) mx ms () (c_out c') ()))"
proof -
  note n = fw_new [OF assms(3-5)]
  have x: "fw_fresh (next_xid xid0) (nv_tgt (view n0))" using assms(6) n(2) by (simp add: fw_fresh_def)
  have m: "msg_size 4 fw_limit \<le> plim" "msg_size 4 fw_limit \<le> max 2048 ((2 * memDepth fw_header + 1) * 4)"
    using assms(2) by (simp_all add: msg_size_def fw_limit_def)
  have l: "min mx (sup_len (memDepth fw_header * 4) mx (unat ((m_mtu d0 - word_of_nat 4) div 2))) \<le> fw_limit"
    by (rule min.coboundedI2) (simp add: fw_header_fields fw_limit_def sup_len_def)
  show ?thesis
    using udp_serves [OF assms(1) fw.retry_target_axioms assms(7-9) n(1) x m l assms(10-14) order_refl] by (simp add: fw_header_fields)
qed

theorem udp_firmware_session_witness:
  "case udpLoopBack_new le_platform 9 NullPtr (\<lambda>_. None) fw_socket None 2542 of
     Inl _ \<Rightarrow> False
   | Inr t \<Rightarrow>
       (case udpDrv_new le_platform 7 (udp_env_ok (Some 1500)) \<lparr>nv_in = [], nv_loss = 5, nv_tgt = t\<rparr> [] ''h'' of
          Inl _ \<Rightarrow> False
        | Inr d0 \<Rightarrow> \<exists>d1. udp_init (emul_net udp_firmware 4) d0 = (Inr (), d1) \<and>
            (\<exists>c'. conn_run (udp_ops (emul_net udp_firmware 4))
                (case xvcConn_new 5 [Data (ascii ''shift:'' @ [12, 0, 0, 0, 1, 2]), Data [3, 4]] (\<lambda>_. 1) 0 d1 32768 of Inr c \<Rightarrow> c) = Some (Blocked, c') \<and>
              session wire (\<lambda>p. p) 32768 [Shift 12 [1, 2] [3, 4]] () (c_out c') ()))"
proof -
  define evs where "evs = [Data (ascii ''shift:'' @ [12, 0, 0, 0, 1, 2]), Data [3, 4]]"
  obtain t where t: "udpLoopBack_new le_platform 9 NullPtr (\<lambda>_. None) fw_socket None 2542 = Inr t"
    by (simp add: udpLoopBack_new_def loopBack_new_def Let_def fw_socket_def sockSd_new_def bind_local_def)
  define n0 where "n0 = \<lparr>nv_in = [], nv_loss = 5, nv_tgt = t\<rparr>"
  obtain d0 where d0: "udpDrv_new le_platform 7 (udp_env_ok (Some 1500)) n0 [] ''h'' = Inr d0"
    using udp_example_new [of n0] by (elim exE conjE)
  have v: "nv_loss n0 \<le> 5" "nv_in n0 = []" "(32768 :: nat) < 2 ^ 32" "nv_tgt n0 = t" by (simp_all add: n0_def)
  have p: "isLE le_platform" "None = None \<or> None = Some ([] :: string)" by (simp_all add: le_platform_def)
  have "alloc_raw le_platform k = replicate k 0" for k by (simp add: alloc_raw_def le_platform_def map_replicate_const)
  then have "take 4 (alloc_raw le_platform 1500) = [0, 0, 0, 0]" by (simp add: numeral_eq_Suc)
  then have x: "getXid (le_word32 (take 4 (alloc_raw le_platform 1500))) \<noteq> next_xid 7"
    by (simp add: le_word32_def getXid_def next_xid_def newXid_def hdr_defs)
  have e: "clean evs" "\<forall>i :: nat. 0 < (1 :: int)" "ev_bytes evs = concat (map encode_msg [Shift 12 [1, 2] [3, 4]])"
    "list_all (msg_ok 32768) [Shift 12 [1, 2] [3, 4]]"
    by (simp_all add: evs_def vec_bytes_def ascii_def le_bytes32_def)
  obtain d1 where d: "udp_init (emul_net udp_firmware 4) d0 = (Inr (), d1)"
    and r: "\<And>c. xvcConn_new 5 evs (\<lambda>_. 1) 0 d1 32768 = Inr c \<Longrightarrow>
      \<exists>c'. conn_run (udp_ops (emul_net udp_firmware 4)) c = Some (if eof evs then SysErr ''Unable to read from socket'' else Blocked, c') \<and>
        session wire (\<lambda>p. p) 32768 [Shift 12 [1, 2] [3, 4]] () (c_out c') ()"
    using udp_firmware_session [where sd = 5, OF en.udp_network_axioms order_refl t [folded v(4)] p x d0 v(1-3) e] by blast
  obtain c where c: "xvcConn_new 5 evs (\<lambda>_. 1) 0 d1 32768 = Inr c" by (simp add: xvcConn_new_def)
  have "\<not> eof evs" by (simp add: evs_def eof_def)
  then show ?thesis using t d0 d r [OF c] c by (simp add: evs_def [symmetric] n0_def [symmetric])
qed

end
