(* ===== verification/Drv_Foo.thy ===== *)
theory Drv_Foo
  imports Stream_Driver
begin

text \<open>
  The skeleton of a driver, class \<^verbatim>\<open>JtagDriverFoo\<close> of \<^verbatim>\<open>xvcDrvFoo.cc\<close>: a transfer that does nothing.
\<close>

section \<open>JtagDriverFoo\<close>

definition foo_new :: "platform \<Rightarrow> u8 \<Rightarrow> axisToJtag" where
  "foo_new host xid0 = axisToJtag_new host xid0 0"

definition foo_xfer :: "'a axisToJtag_scheme xfer_fn" where
  "foo_xfer txb txBytes hb hsize rxb sz d = ((Inr 0, hb, rxb), d)"

definition foo_getMaxVectorSize :: "'a axisToJtag_scheme \<Rightarrow> nat" where
  "foo_getMaxVectorSize d = 0"

definition foo_ops :: "axisToJtag jtag_ops" where
  "foo_ops = axisToJtag_ops foo_xfer foo_getMaxVectorSize"

section \<open>Lemmas\<close>

interpretation foo_transport: xfer_transport foo_xfer
  by unfold_locales (auto simp: foo_xfer_def)

text \<open>The header buffer still has its initial zeros, which no target would send: \<^verbatim>\<open>init\<close> rejects the word size.\<close>

lemma foo_init_fails:
  "\<exists>d. init_drv foo_xfer (foo_new host xid0) = (Inl (ProtoErr ''Received invalid word size''), d)"
proof -
  define d where "d = foo_new host xid0"
  note ext = d_def foo_new_def axisToJtag_new_def jtagDriver_new_def axisToJtag.defs jtagDriver.defs
  have d: "m_hdBuf d = replicate 16 0" "m_wordSize d = 4" "4 \<le> length (m_txBuf d)"
    using drv_wf_new [of host xid0 0] by (simp_all add: ext drv_wf_def hdBufMax_def)
  define tx where "tx = le_bytes32 mkQuery @ drop 4 (m_txBuf d)"
  have tx: "setHdr (isLE (m_host d)) 4 (m_txBuf d) mkQuery = Inr tx" "4 \<le> length tx" "take 4 tx = le_bytes32 mkQuery"
    using setHdr_le [of 4 "m_txBuf d" "isLE (m_host d)" mkQuery] d(3) by (simp_all add: tx_def)
  let ?d = "d\<lparr>m_txBuf := tx\<rparr>"
  have hb: "le_word32 (take 4 (replicate 16 0)) = 0" by (simp add: le_word32_def numeral_eq_Suc)
  have "foo_xfer tx 4 (m_hdBuf ?d) (m_wordSize ?d) [] 0 ?d = ((Inr 0, replicate 16 0, []), ?d)" using d by (simp add: foo_xfer_def)
  moreover have "getXid mkQuery = XID_ANY" by (simp add: mkQuery_def getXid_def hdr_defs)
  moreover have "getErr 0 = 0" by (simp add: getErr_def getCmd_def hdr_defs)
  ultimately have "xferRel foo_xfer tx 4 [] 0 ?d = ((Inr (0, 0), []), ?d\<lparr>m_hdBuf := replicate 16 0\<rparr>)"
    using xferRel_accept [where xf = foo_xfer and h = mkQuery and d = ?d and txb = tx and txBytes = 4 and hb = "replicate 16 0"] tx hb by simp
  then show ?thesis using tx(1) d(2)
    by (simp add: init_drv_def query_def getWordSize_def query_update_def wordSize_def flip: d_def)
qed

end
