(* ===== verification/Spec2Isabelle.thy ===== *)
theory Spec2Isabelle
  imports Srv_LoopBack Srv_Bridge Srv_Tmem Srv_Zynq Srv_UdpLoop Drv_Foo
begin

text \<open>
  \<^bold>\<open>xvcSrv\<close>: a server for the Xilinx Virtual Cable protocol, which forwards JTAG shifts from TCP clients to
  devices behind loadable drivers.

  \<^bold>\<open>The program.\<close>  \<^verbatim>\<open>main\<close> (\<^verbatim>\<open>xvcSrv.cc\<close>) reads the options, finds or loads a driver through \<^verbatim>\<open>DriverRegistry\<close>,
  initialises it and runs \<^verbatim>\<open>XvcServer\<close>, which accepts one client after the other and serves it with an
  \<^verbatim>\<open>XvcConn\<close> (\<^verbatim>\<open>xvcConn.cc\<close>).  A connection reads \<^verbatim>\<open>getinfo:\<close>, \<^verbatim>\<open>settck:\<close> and \<^verbatim>\<open>shift:\<close> messages and calls the driver
  for pieces of the vectors.  Most drivers derive from \<^verbatim>\<open>JtagDriverAxisToJtag\<close> (\<^verbatim>\<open>xvcDriver.h\<close>, \<^verbatim>\<open>xvcSrv.cc\<close>), which packs
  the vectors into a message of the stream protocol and exchanges it with retries over the virtual method \<^verbatim>\<open>xfer\<close>
  of the subclass: UDP (\<^verbatim>\<open>xvcDrvUdp\<close>), a Zynq AXI stream FIFO (\<^verbatim>\<open>xvcDrvAxisFifo\<close>), the TMEM interface
  (\<^verbatim>\<open>xvcDrvAxisTmem\<close>), the AXI debug bridge (\<^verbatim>\<open>xvcDrvAxiDbgBridgeIP\<close>) or a loopback for tests (\<^verbatim>\<open>xvcDrvLoopBack\<close>).  A
  sniffer (\<^verbatim>\<open>jtagDump\<close>) can follow the TAP controller through the bits that pass.

  \<^bold>\<open>The theories\<close> and the code they model (paths under \<^verbatim>\<open>src/xvcSrv/src\<close>):
  \<^item> \<open>Xvc_Prelude\<close>: bytes and words in memory, bounded reading and writing of buffers, the exceptions of the program
    as a datatype, results and state-passing operations with exceptions (\<open>res\<close>, \<open>sm\<close>, \<open>bindS\<close>), devices as
    transducers (\<open>dev_run\<close>), and the notion of an operation that preserves an invariant (\<open>keepsS\<close>, \<open>presS\<close>).
  \<^item> \<open>Xvc_Header\<close>: header words of the stream protocol, \<^verbatim>\<open>xvcDriver.h\<close> and \<^verbatim>\<open>xvcSrv.cc\<close>.
  \<^item> \<open>Jtag_Dump\<close>: the sniffer, \<^verbatim>\<open>jtagDump.h\<close> and \<^verbatim>\<open>jtagDump.cc\<close>.
  \<^item> \<open>Xvc_Driver\<close>: \<^verbatim>\<open>JtagDriver\<close> and \<^verbatim>\<open>JtagDriverAxisToJtag\<close> over an argument \<open>xf\<close> for \<^verbatim>\<open>xfer\<close>, and the contracts
    \<open>xfer_transport\<close>, \<open>xfer_invariant\<close>, \<open>jtag_driver\<close> and \<open>serial_driver\<close>.
  \<^item> \<open>C_Scan\<close>: the functions of \<^verbatim>\<open>sscanf\<close> that the program uses.
  \<^item> \<open>Drv_LoopBack\<close>: \<^verbatim>\<open>JtagDriverLoopBack\<close> and the emulated firmware \<^verbatim>\<open>UdpLoopBack\<close>, \<^verbatim>\<open>xvcDrvLoopBack.h\<close> and \<^verbatim>\<open>.cc\<close>.
  \<^item> \<open>Reg_Io\<close>: \<^verbatim>\<open>MemMap\<close> of \<^verbatim>\<open>mmioHelper.h\<close>, polling, and the transfer loops that the drivers of registers share.
  \<^item> \<open>Stream_Driver\<close>: a driver whose transfers reach a target that answers queries and shifts (\<open>reliable_driver\<close>) is a
    \<open>serial_driver\<close>; a transport without losses (\<open>stream_driver\<close>) makes such transfers.
  \<^item> \<open>Serdes_Driver\<close>: from an operation that shifts 32 bits to such a transport.
  \<^item> \<open>Stream_Target\<close>, \<open>Lossy_Link\<close>: a target that speaks the stream protocol (\<open>stream_target\<close>), a transport that exchanges messages with it
    (\<open>message_transport\<close>), one that may lose them (\<open>lossy_transport\<close>), and a target that recognises repeated messages (\<open>retry_target\<close>).
  \<^item> \<open>Fifo_Driver\<close>: the loops of \<open>Reg_Io\<close> that send and receive a message through a FIFO of words.
  \<^item> \<open>Drv_Bridge\<close>, \<open>Drv_Tmem\<close>, \<open>Drv_Zynq\<close>, \<open>Drv_Udp\<close>: the drivers of the hardware, one class each, with the contracts of their
    registers and of the network; \<open>Drv_Foo\<close>: the skeleton of a driver, \<^verbatim>\<open>xvcDrvFoo.cc\<close>.
  \<^item> \<open>Xvc_Conn\<close>: \<^verbatim>\<open>XvcConn\<close>, \<^verbatim>\<open>xvcConn.h\<close> and \<^verbatim>\<open>xvcConn.cc\<close>.
  \<^item> \<open>Xvc_Server\<close>: \<^verbatim>\<open>XvcServer\<close>, \<^verbatim>\<open>DriverRegistry\<close> and \<^verbatim>\<open>main\<close>, \<^verbatim>\<open>xvcSrv.h\<close> and \<^verbatim>\<open>xvcSrv.cc\<close>.
  \<^item> \<open>Srv_Stream\<close>, \<open>Srv_LoopBack\<close>, \<open>Srv_Bridge\<close>, \<open>Srv_Tmem\<close>, \<open>Srv_Zynq\<close>, \<open>Srv_Udp\<close>: the server with one of the drivers; \<open>Srv_UdpLoop\<close>: with the UDP
    driver and the emulated firmware at the other end of the network.

  \<^bold>\<open>How the code is modelled.\<close>  A class is a record, a subclass extends the record of its base class; a member
  \<^verbatim>\<open>x_\<close> is the field \<open>m_x\<close> (\<open>c_x\<close> for a connection, \<open>s_x\<close> for the server).  A method is a function on the record
  that returns a result and the new record; an exception is the left value of the result and leaves the
  members as they are at that point.  Integers have their width where they may wrap around (\<^verbatim>\<open>unsigned\<close>,
  \<^verbatim>\<open>uint32_t\<close>, \<^verbatim>\<open>unsigned long\<close> of 64 bits); sizes that cannot are natural numbers.  Pointers into buffers are offsets, and every
  access that would leave its buffer, use an uninitialised variable or be undefined in another way gives \<open>Fault\<close>, so
  that a theorem that excludes \<open>Fault\<close> excludes undefined behaviour.  What is outside of the program is an argument:
  the network of a client is a list of events, hardware is a record of functions on its own state, files, the linker,
  the sockets and the library \<^verbatim>\<open>toscaApi\<close> are functions.  Byte order and the contents of fresh memory are those of a platform that is an argument.

  \<^bold>\<open>Loops.\<close>  Loops over data are recursions with a termination proof.  Loops that wait for somebody
  (\<open>conn_loop\<close>, \<open>shift_loop\<close>, \<open>server_run\<close>, \<open>poll_loop\<close>, \<open>zq_reset_loop\<close>) are partial functions to an option type, \<open>None\<close>
  being a run without end; the theorems that say what they give also say that they return.  \<open>Blocked\<close> is the result of a
  run that has used up its input and would wait for more, and of an operation that contains a poll without end.

  \<^bold>\<open>What is shown.\<close>  The contracts connect the layers: a connection over any \<open>jtag_driver\<close> stays within the
  defined behaviour, and over any \<open>serial_driver\<close> it gives a client exactly the replies of the protocol for the device at
  the other end (\<open>conn_run_safe\<close>, \<open>conn_run_dev\<close> in \<open>Xvc_Conn\<close>, \<open>server_run_dev\<close> in \<open>Xvc_Server\<close>).  The loopback driver, the debug
  bridge, the TMEM driver, the FIFO driver and the UDP driver are interpretations, so that whole sessions are proved from the constructor of
  the driver to the bytes sent, for any segmentation of the stream and any hardware that honours the contract of its
  registers (\<open>debug_bridge\<close>, \<open>tmem_jtag\<close>, \<open>tmem_board\<close>, \<open>axi_fifo\<close>, which emulated devices are shown to satisfy).  For UDP the network may lose
  messages and replies (\<open>udp_network\<close>): the retries of \<^verbatim>\<open>xferRel\<close> and a target that answers a repeated transaction id from its
  memory make up for it.  The emulated firmware \<^verbatim>\<open>UdpLoopBack\<close> is shown to be such a target, so that both ends of the program's own UDP protocol fit together.
  Besides: the layout of messages, the retry loop, round trips of headers, transaction ids, the refinement of the TAP
  controller by the sniffer, exactly-once execution in the emulated firmware, the end of the FIFO reset, the registry, invariants of
  the driver objects over any hardware, and the inputs for which the code fails (buffer overflow,
  wrap-around, undefined shifts, a client that stops the server, registers outside of the mapping, datagrams that are too long, a late reply
  taken for another).

  \<^bold>\<open>Bounds and conditions.\<close>  The sessions are for clients whose shifts have at most \<open>mc\<close> bytes, while the server announces \<open>mx\<close> (by default 32768); a vector that
  reaches the driver is then at most the minimum of \<open>mc\<close> and the length that \<open>allocBufs\<close> computes, as the connection cuts longer shifts into pieces.  It has to be at most
  1020 bytes for the loopback, bridge and TMEM drivers: with the header these fill the 2048 bytes that the transmit buffer has when the target reports no memory, and
  nothing in the code ensures it (the loopback driver sets no limit, the bridge driver one of 1024 bytes, the TMEM driver one that depends on the firmware).
  For the FIFO and UDP drivers the vectors must fit the buffer the driver allocates for the memory the target reports, up to \<open>2 ^ 17\<close> bytes, which the length field of the
  header allows, and the FIFO or the datagrams of the network.  The FIFO is finite, with one slot always empty (\<open>fifo_room\<close>); its driver keeps within it
  when the number of slots is even.  The UDP session allows five losses in a row because the driver makes six attempts; late replies are
  outside of its contract, as the driver does not survive them.  The sessions of the loopback driver and of the emulated firmware are for objects without a playback
  file, on a little-endian host, with the sniffer off, and with a null pointer in the member \<^verbatim>\<open>f_\<close>, which the constructor does not initialise (\<open>loop_valid\<close>).
  \<^verbatim>\<open>nanosleep\<close> is an operation of the hardware, which may get ready meanwhile.

  \<^bold>\<open>Not modelled.\<close>  Texts printed for the user and debug output; \<^verbatim>\<open>double\<close> rounding in the conversion of periods
  (real numbers are used); destructors that only release resources; \<^verbatim>\<open>xvcDrvSerDesTmem.h\<close>, a declaration without implementation; the firmware in VHDL, its simulation and the test scripts.
\<close>

end
